(* ===== verification/Prelude.thy ===== *)
theory Prelude
  imports Main "HOL-Library.Word" "HOL-Library.Signed_Division" "HOL-Library.Monad_Syntax"
begin

text \<open>
  The vocabulary shared by the component theories: the width of the C \<open>int\<close>, decimal
  printing as \<open>printf\<close> does it, bounded string buffers, reads and writes of C arrays, and the
  generic lemmas on options, lists and words that the component proofs use.

  Throughout the development a C function that can run into undefined behaviour (a null
  dereference, an access outside an array, a failed \<open>assert\<close>, a call through a null function
  pointer) has a result of type \<^typ>\<open>'a option\<close>, and \<^const>\<open>None\<close> is exactly that outcome.
\<close>

type_synonym cint = "32 word"
type_synonym csize = "64 word"

named_theorems state_simps \<open>equations that compute the fields of an updated state\<close>
named_theorems wf_intros \<open>preservation of the components' invariants\<close>

definition MAX_LINE :: nat where
  "MAX_LINE = 4096"

definition NAME_LEN :: nat where
  "NAME_LEN = 120"

text \<open>A read and a write of a C array, modelled as a list: \<^const>\<open>None\<close> outside its bounds.\<close>

definition array_get :: "'a list \<Rightarrow> nat \<Rightarrow> 'a option" where
  "array_get xs i = (if i < length xs then Some (xs ! i) else None)"

definition array_set :: "'a list \<Rightarrow> nat \<Rightarrow> 'a \<Rightarrow> 'a list option" where
  "array_set xs i v = (if i < length xs then Some (xs[i := v]) else None)"

text \<open>An \<open>assert\<close> that is compiled in (the Makefile does not define \<open>NDEBUG\<close>).\<close>

definition c_assert :: "bool \<Rightarrow> unit option" where
  "c_assert b = (if b then Some () else None)"

text \<open>
  Arithmetic on \<open>int\<close>: a result outside the range of the type is undefined, as is a division by
  zero; division truncates towards zero.
\<close>

definition int_range :: "int \<Rightarrow> bool" where
  "int_range i \<longleftrightarrow> - (2 ^ 31) \<le> i \<and> i < 2 ^ 31"

definition to_cint :: "int \<Rightarrow> cint option" where
  "to_cint i = (if int_range i then Some (word_of_int i) else None)"

definition cadd :: "cint \<Rightarrow> cint \<Rightarrow> cint option" where
  "cadd a b = to_cint (sint a + sint b)"

definition csub :: "cint \<Rightarrow> cint \<Rightarrow> cint option" where
  "csub a b = to_cint (sint a - sint b)"

definition cmul :: "cint \<Rightarrow> cint \<Rightarrow> cint option" where
  "cmul a b = to_cint (sint a * sint b)"

definition cdiv :: "cint \<Rightarrow> cint \<Rightarrow> cint option" where
  "cdiv a b = (if b = 0 then None else to_cint (sint a sdiv sint b))"

definition cneg :: "cint \<Rightarrow> cint option" where
  "cneg a = to_cint (- sint a)"

text \<open>The characters \<open>printf\<close> writes for \<open>%d\<close>.\<close>

fun dec_nat :: "nat \<Rightarrow> string" where
  "dec_nat n = (if n < 10 then [char_of (48 + n)] else dec_nat (n div 10) @ [char_of (48 + n mod 10)])"

declare dec_nat.simps [simp del]

definition dec_int :: "int \<Rightarrow> string" where
  "dec_int i = (if i < 0 then CHR ''-'' # dec_nat (nat (- i)) else dec_nat (nat i))"

definition dec_cint :: "cint \<Rightarrow> string" where
  "dec_cint w = dec_int (sint w)"

text \<open>\<open>sprintf\<close> into a buffer of \<open>n\<close> bytes: the text and its terminating zero must fit.\<close>

definition sprintf_buf :: "nat \<Rightarrow> string \<Rightarrow> string option" where
  "sprintf_buf n s = (if length s < n then Some s else None)"

section \<open>Generic lemmas\<close>

lemma array_get_eq_Some [simp]:
  "array_get xs i = Some x \<longleftrightarrow> i < length xs \<and> xs ! i = x"
  by (auto simp: array_get_def)

lemma array_get_lt [simp]: "i < length xs \<Longrightarrow> array_get xs i = Some (xs ! i)"
  by (simp add: array_get_def)

lemma array_get_eq_None [simp]: "array_get xs i = None \<longleftrightarrow> length xs \<le> i"
  by (auto simp: array_get_def)

lemma array_set_eq_Some [simp]:
  "array_set xs i v = Some ys \<longleftrightarrow> i < length xs \<and> ys = xs[i := v]"
  by (auto simp: array_set_def)

lemma array_set_lt [simp]: "i < length xs \<Longrightarrow> array_set xs i v = Some (xs[i := v])"
  by (simp add: array_set_def)

lemma c_assert_eq_Some [simp]: "c_assert b = Some u \<longleftrightarrow> b"
  by (simp add: c_assert_def)

lemma c_assert_True [simp]: "c_assert True = Some ()"
  by (simp add: c_assert_def)

lemma sprintf_buf_eq_Some [simp]:
  "sprintf_buf n s = Some t \<longleftrightarrow> length s < n \<and> t = s"
  by (auto simp: sprintf_buf_def)

lemmas bind_Some_iff = Option.bind_eq_Some_conv

lemma sint_range: "int_range (sint (w :: cint))"
  using sint_greater_eq [of w] sint_less [of w] by (simp add: int_range_def)

lemma to_cint_eq_Some: "to_cint i = Some w \<longleftrightarrow> int_range i \<and> sint w = i"
proof
  assume "to_cint i = Some w"
  then have "int_range i" and "w = word_of_int i" by (auto simp: to_cint_def split: if_splits)
  then show "int_range i \<and> sint w = i"
    by (simp add: int_range_def signed_take_bit_int_eq_self sint_sbintrunc')
next
  assume "int_range i \<and> sint w = i"
  then show "to_cint i = Some w" by (auto simp: to_cint_def)
qed

lemma to_cint_eq_None: "to_cint i = None \<longleftrightarrow> \<not> int_range i"
  by (simp add: to_cint_def)

lemmas carith_defs = cadd_def csub_def cmul_def cdiv_def cneg_def

lemma cadd_eq_Some: "cadd a b = Some c \<longleftrightarrow> int_range (sint a + sint b) \<and> sint c = sint a + sint b"
  by (simp add: cadd_def to_cint_eq_Some)

lemma csub_eq_Some: "csub a b = Some c \<longleftrightarrow> int_range (sint a - sint b) \<and> sint c = sint a - sint b"
  by (simp add: csub_def to_cint_eq_Some)

lemma cmul_eq_Some: "cmul a b = Some c \<longleftrightarrow> int_range (sint a * sint b) \<and> sint c = sint a * sint b"
  by (simp add: cmul_def to_cint_eq_Some)

lemma length_dec_nat_le: "n < 10 ^ k \<Longrightarrow> 0 < k \<Longrightarrow> length (dec_nat n) \<le> k"
proof (induction n arbitrary: k rule: dec_nat.induct)
  case (1 n)
  show ?case
  proof (cases "n < 10")
    case True
    with "1.prems" show ?thesis by (simp add: dec_nat.simps [of n])
  next
    case False
    with "1.prems" obtain k' where k: "k = Suc k'" "0 < k'"
      by (cases k; cases "k - 1") auto
    with "1.prems" have "n div 10 < 10 ^ k'"
      by (simp add: div_less_iff_less_mult mult.commute)
    with False "1.IH" k have "length (dec_nat (n div 10)) \<le> k'" by simp
    with False k show ?thesis by (simp add: dec_nat.simps [of n])
  qed
qed

lemma length_dec_cint: "length (dec_cint w) \<le> 11"
proof -
  have "- (2 ^ 31) \<le> sint w" "sint w < 2 ^ 31"
    using sint_greater_eq [of w] sint_less [of w] by simp_all
  then have "nat \<bar>sint w\<bar> < 10 ^ 10" by simp
  then have "length (dec_nat (nat \<bar>sint w\<bar>)) \<le> 10"
    by (intro length_dec_nat_le) simp_all
  then show ?thesis by (auto simp: dec_cint_def dec_int_def abs_if split: if_splits)
qed

text \<open>Reading a decimal number back: printing loses nothing.\<close>

definition dec_val :: "string \<Rightarrow> nat" where
  "dec_val s = foldl (\<lambda>a c. 10 * a + (of_char c - 48)) 0 s"

lemma dec_val_dec_nat [simp]: "dec_val (dec_nat n) = n"
proof (induction n rule: dec_nat.induct)
  case (1 n)
  show ?case
  proof (cases "n < 10")
    case True
    then show ?thesis by (simp add: dec_val_def dec_nat.simps [of n] of_char_of)
  next
    case False
    then have "dec_val (dec_nat n) = 10 * dec_val (dec_nat (n div 10)) + n mod 10"
      by (simp add: dec_val_def dec_nat.simps [of n] of_char_of)
    with False "1.IH" show ?thesis by simp
  qed
qed

lemma dec_nat_inject [simp]: "dec_nat m = dec_nat n \<longleftrightarrow> m = n"
  by (metis dec_val_dec_nat)

lemma dec_nat_not_Nil [simp]: "dec_nat n \<noteq> []"
  by (simp add: dec_nat.simps [of n])

lemma dec_nat_digits: "c \<in> set (dec_nat n) \<Longrightarrow> 48 \<le> (of_char c :: nat) \<and> (of_char c :: nat) < 58"
proof (induction n rule: dec_nat.induct)
  case (1 n)
  then show ?case
    by (cases "n < 10") (auto simp: dec_nat.simps [of n] of_char_of)
qed

section \<open>Partial correctness of a run\<close>

text \<open>
  A run that may be undefined satisfies a postcondition when every result it returns does. The rules
  decompose the \<open>do\<close> blocks of the model.
\<close>

definition valid :: "('a \<Rightarrow> bool) \<Rightarrow> 'a option \<Rightarrow> bool" where
  "valid Q m \<longleftrightarrow> (\<forall>x. m = Some x \<longrightarrow> Q x)"

lemma valid_bind: "valid (\<lambda>x. valid Q (f x)) m \<Longrightarrow> valid Q (m \<bind> f)"
  by (auto simp: valid_def bind_Some_iff)

lemma valid_any: "(\<And>x. m = Some x \<Longrightarrow> Q x) \<Longrightarrow> valid Q m"
  by (simp add: valid_def)

lemma valid_weaken: "valid P m \<Longrightarrow> (\<And>x. P x \<Longrightarrow> Q x) \<Longrightarrow> valid Q m"
  by (simp add: valid_def)

lemma valid_Some [simp]: "valid Q (Some x) \<longleftrightarrow> Q x"
  by (simp add: valid_def)

lemma valid_None [simp]: "valid Q None"
  by (simp add: valid_def)

lemma valid_if: "(b \<Longrightarrow> valid Q m) \<Longrightarrow> (\<not> b \<Longrightarrow> valid Q m') \<Longrightarrow> valid Q (if b then m else m')"
  by simp

lemma valid_let: "(\<And>x. x = a \<Longrightarrow> valid Q (f x)) \<Longrightarrow> valid Q (Let a f)"
  by simp

lemma valid_prod: "(\<And>a b. p = (a, b) \<Longrightarrow> valid Q (f a b)) \<Longrightarrow> valid Q (case p of (a, b) \<Rightarrow> f a b)"
  by (cases p) simp

lemma valid_option:
  "(z = None \<Longrightarrow> valid Q m) \<Longrightarrow> (\<And>x. z = Some x \<Longrightarrow> valid Q (f x)) \<Longrightarrow>
     valid Q (case z of None \<Rightarrow> m | Some x \<Rightarrow> f x)"
  by (cases z) simp_all

lemma valid_SomeI: "Q x \<Longrightarrow> valid Q (Some x)"
  by simp

lemmas valid_rules = valid_SomeI valid_bind valid_if valid_prod valid_option

end
