(* ===== verification/Strtab.thy ===== *)
theory Strtab
  imports Prelude
begin

text \<open>
  The string table of \<open>cmm-strtab.c\<close>: every identifier and operator the lexer reads is
  registered here, and the rest of the compiler keeps the returned pointer. A \<open>char *\<close> is the
  number of the \<open>malloc\<close>ed block it points to; the blocks are never freed.
\<close>

record strtab_state =
  strtab :: "nat option list"
  strtab_size :: nat
  strtab_capacity :: nat
  str_heap :: "string list"

definition DEFAULT_SIZE :: nat where
  "DEFAULT_SIZE = 64"

text \<open>The static initialisers of the three variables: no array, size 0, capacity 0.\<close>

definition strtab_start :: strtab_state where
  "strtab_start = \<lparr>strtab = [], strtab_size = 0, strtab_capacity = 0, str_heap = []\<rparr>"

definition init_strtab :: "strtab_state \<Rightarrow> strtab_state" where
  "init_strtab st = st\<lparr>strtab := replicate DEFAULT_SIZE None, strtab_capacity := DEFAULT_SIZE\<rparr>"

definition cmm_strdup :: "string \<Rightarrow> strtab_state \<Rightarrow> nat \<times> strtab_state" where
  "cmm_strdup s st = (length (str_heap st), st\<lparr>str_heap := str_heap st @ [s]\<rparr>)"

definition str_at :: "strtab_state \<Rightarrow> nat \<Rightarrow> string option" where
  "str_at st p = array_get (str_heap st) p"

text \<open>
  The search loop: \<open>Some (Some p)\<close> is the early return of a duplicate, \<open>Some None\<close> leaves the
  loop, and \<^const>\<open>None\<close> is a \<open>strcmp\<close> on something that is no string.
\<close>

function register_str_loop :: "strtab_state \<Rightarrow> string \<Rightarrow> nat \<Rightarrow> nat option option" where
  "register_str_loop st s i =
     (if i < strtab_size st then
        do {
          cell \<leftarrow> array_get (strtab st) i;
          p \<leftarrow> cell;
          t \<leftarrow> str_at st p;
          if t = s then Some (Some p) else register_str_loop st s (Suc i)
        }
      else Some None)"
  by pat_completeness auto
termination
  by (relation "measure (\<lambda>(st, s, i). strtab_size st - i)") auto

declare register_str_loop.simps [simp del]

definition realloc_cells :: "nat \<Rightarrow> nat option list \<Rightarrow> nat option list" where
  "realloc_cells n cells = take n cells @ replicate (n - length cells) None"

definition register_str :: "string \<Rightarrow> strtab_state \<Rightarrow> (nat \<times> strtab_state) option" where
  "register_str s st =
     do {
       found \<leftarrow> register_str_loop st s 0;
       case found of
         Some p \<Rightarrow> Some (p, st)
       | None \<Rightarrow>
           let st = (if strtab_capacity st \<le> strtab_size st then
                       let cap = strtab_capacity st + strtab_capacity st div 2
                       in st\<lparr>strtab_capacity := cap, strtab := realloc_cells cap (strtab st)\<rparr>
                     else st);
               (p, st) = cmm_strdup s st
           in do {
                cells \<leftarrow> array_set (strtab st) (strtab_size st) (Some p);
                Some (p, st\<lparr>strtab := cells, strtab_size := strtab_size st + 1\<rparr>)
              }
     }"

text \<open>A run of the lexer registers one lexeme after the other.\<close>

fun register_all :: "string list \<Rightarrow> strtab_state \<Rightarrow> (nat list \<times> strtab_state) option" where
  "register_all [] st = Some ([], st)"
| "register_all (s # ss) st =
     do {
       (p, st) \<leftarrow> register_str s st;
       (ps, st) \<leftarrow> register_all ss st;
       Some (p # ps, st)
     }"

section \<open>The invariant\<close>

definition strtab_wf :: "strtab_state \<Rightarrow> bool" where
  "strtab_wf st \<longleftrightarrow>
     length (strtab st) = strtab_capacity st \<and> 2 \<le> strtab_capacity st \<and>
     strtab_size st \<le> strtab_capacity st \<and>
     take (strtab_size st) (strtab st) = map Some [0..<length (str_heap st)] \<and>
     distinct (str_heap st)"

lemma strtab_wf_size: "strtab_wf st \<Longrightarrow> strtab_size st = length (str_heap st)"
  unfolding strtab_wf_def
  by (metis length_map length_take length_upt min.absorb2 minus_nat.diff_0)

lemma strtab_wf_cell:
  assumes "strtab_wf st" and "i < strtab_size st"
  shows "array_get (strtab st) i = Some (Some i)" and "str_at st i = Some (str_heap st ! i)"
proof -
  from assms have "take (strtab_size st) (strtab st) ! i = Some i"
    using strtab_wf_size [OF assms(1)] by (simp add: strtab_wf_def)
  with assms(2) have "strtab st ! i = Some i" by simp
  with assms show "array_get (strtab st) i = Some (Some i)"
    by (simp add: strtab_wf_def)
  from assms show "str_at st i = Some (str_heap st ! i)"
    using strtab_wf_size [OF assms(1)] by (simp add: str_at_def)
qed

lemma register_str_loop_wf:
  assumes "strtab_wf st"
  shows "register_str_loop st s i =
    Some (List.find (\<lambda>p. str_heap st ! p = s) [i..<strtab_size st])"
  using assms
proof (induction st s i rule: register_str_loop.induct)
  case (1 st s i)
  show ?case
  proof (cases "i < strtab_size st")
    case True
    with "1" show ?thesis
      using strtab_wf_cell [OF "1.prems" True]
      by (simp add: register_str_loop.simps [of st s i] upt_conv_Cons)
  next
    case False
    then show ?thesis by (simp add: register_str_loop.simps [of st s i])
  qed
qed

lemma init_strtab_wf: "strtab_wf (init_strtab strtab_start)"
  by (simp add: strtab_wf_def init_strtab_def strtab_start_def DEFAULT_SIZE_def)

text \<open>The two outcomes of a registration from a well-formed table.\<close>

lemma register_str_old:
  assumes "strtab_wf st" and "s \<in> set (str_heap st)"
  obtains p where "register_str s st = Some (p, st)" and "str_at st p = Some s"
proof -
  let ?P = "\<lambda>p. str_heap st ! p = s"
  from assms obtain p where p: "List.find ?P [0..<strtab_size st] = Some p"
    by (cases "List.find ?P [0..<strtab_size st]")
       (auto simp: find_None_iff in_set_conv_nth strtab_wf_size)
  then have "p < strtab_size st" "str_heap st ! p = s"
    by (auto simp: find_Some_iff)
  with p assms(1) that [of p] show thesis
    by (simp add: register_str_def register_str_loop_wf strtab_wf_cell)
qed

lemma register_str_new:
  assumes wf: "strtab_wf st" and new: "s \<notin> set (str_heap st)"
  obtains st' where "register_str s st = Some (length (str_heap st), st')" and "strtab_wf st'"
    and "str_heap st' = str_heap st @ [s]"
proof -
  let ?n = "strtab_size st"
  define cap where "cap = (if strtab_capacity st \<le> ?n
    then strtab_capacity st + strtab_capacity st div 2 else strtab_capacity st)"
  define cells where "cells = realloc_cells cap (strtab st)"
  define st' where "st' = st\<lparr>strtab_capacity := cap, strtab := cells[?n := Some ?n],
    str_heap := str_heap st @ [s], strtab_size := ?n + 1\<rparr>"
  have size: "?n = length (str_heap st)" by (rule strtab_wf_size [OF wf])
  have n: "?n < cap" "strtab_capacity st \<le> cap" "length cells = cap"
    using wf by (auto simp: cap_def cells_def strtab_wf_def realloc_cells_def)
  have cells: "take ?n cells = map Some [0..<?n]"
    using wf n size by (simp add: cells_def realloc_cells_def strtab_wf_def)
  have same: "\<not> strtab_capacity st \<le> ?n \<Longrightarrow> cells = strtab st \<and> cap = strtab_capacity st"
    using wf by (simp add: cells_def cap_def realloc_cells_def strtab_wf_def)
  have "List.find (\<lambda>p. str_heap st ! p = s) [0..<?n] = None"
    using new size by (auto simp: find_None_iff)
  then have "register_str s st = Some (length (str_heap st), st')"
    using wf n same
    by (cases "strtab_capacity st \<le> ?n")
       (auto simp: register_str_def register_str_loop_wf cmm_strdup_def st'_def size
          cap_def cells_def Let_def)
  moreover have "strtab_wf st'"
    using wf n new size cells
    by (simp add: strtab_wf_def st'_def take_Suc_conv_app_nth)
  ultimately show thesis
    using that by (simp add: st'_def)
qed

section \<open>The interface: interning\<close>

text \<open>
  What the clients of the table rely on: a registration always succeeds, the returned pointer
  designates the string and keeps designating it, and one string has one pointer.
\<close>

locale interner =
  fixes wf :: "'t \<Rightarrow> bool"
    and reg :: "string \<Rightarrow> 't \<Rightarrow> ('p \<times> 't) option"
    and deref :: "'t \<Rightarrow> 'p \<Rightarrow> string option"
  assumes reg_total: "wf t \<Longrightarrow> \<exists>p t'. reg s t = Some (p, t')"
    and reg_wf: "wf t \<Longrightarrow> reg s t = Some (p, t') \<Longrightarrow> wf t'"
    and reg_deref: "wf t \<Longrightarrow> reg s t = Some (p, t') \<Longrightarrow> deref t' p = Some s"
    and reg_keeps: "wf t \<Longrightarrow> reg s t = Some (p, t') \<Longrightarrow> deref t q = Some u \<Longrightarrow> deref t' q = Some u"
    and deref_inj: "wf t \<Longrightarrow> deref t p = Some s \<Longrightarrow> deref t q = Some s \<Longrightarrow> p = q"
begin

definition later :: "'t \<Rightarrow> 't \<Rightarrow> bool" where
  "later = rtranclp (\<lambda>t t'. \<exists>s p. reg s t = Some (p, t'))"

lemma later_wf_keeps:
  assumes "later t t'" and "wf t"
  shows "wf t' \<and> (\<forall>q u. deref t q = Some u \<longrightarrow> deref t' q = Some u)"
  using assms unfolding later_def
proof (induction rule: rtranclp_induct)
  case (step t1 t2)
  then obtain s p where "reg s t1 = Some (p, t2)" and "wf t1" by auto
  with step show ?case using reg_wf reg_keeps by fast
qed simp

lemma pointer_eq_iff:
  assumes "wf t" and "reg a t = Some (p, t1)" and "later t1 t2" and "reg b t2 = Some (q, t3)"
  shows "p = q \<longleftrightarrow> a = b"
proof -
  have "wf t1" and p1: "deref t1 p = Some a"
    using assms(1,2) by (auto intro: reg_wf reg_deref)
  with assms(3) have "wf t2" "deref t2 p = Some a"
    using later_wf_keeps by blast+
  with assms(4) have "wf t3" "deref t3 p = Some a" "deref t3 q = Some b"
    by (auto intro: reg_wf reg_deref reg_keeps)
  then show ?thesis
    using deref_inj by (metis option.inject)
qed

end

text \<open>The string table of the compiler is an interner.\<close>

lemma register_str_cases:
  assumes "strtab_wf st" and "register_str s st = Some (p, st')"
  shows "strtab_wf st' \<and> str_at st' p = Some s \<and> (\<exists>ss. str_heap st' = str_heap st @ ss)"
proof (cases "s \<in> set (str_heap st)")
  case True
  then obtain p' where "register_str s st = Some (p', st)" "str_at st p' = Some s"
    using register_str_old [OF assms(1)] by blast
  with assms show ?thesis by simp
next
  case False
  then obtain st1 where "register_str s st = Some (length (str_heap st), st1)" "strtab_wf st1"
    "str_heap st1 = str_heap st @ [s]"
    using register_str_new [OF assms(1)] by blast
  with assms(2) show ?thesis by (auto simp: str_at_def)
qed

interpretation strs: interner strtab_wf register_str str_at
proof unfold_locales
  fix t s
  assume "strtab_wf t"
  then show "\<exists>p t'. register_str s t = Some (p, t')"
    by (cases "s \<in> set (str_heap t)") (blast elim: register_str_old register_str_new)+
next
  fix t s p t' q u
  assume "strtab_wf t" "register_str s t = Some (p, t')" "str_at t q = Some u"
  then show "str_at t' q = Some u"
    using register_str_cases [of t s p t'] by (auto simp: str_at_def nth_append)
next
  fix t p q s
  assume "strtab_wf t" "str_at t p = Some s" "str_at t q = Some s"
  then show "p = q"
    by (auto simp: str_at_def strtab_wf_def nth_eq_iff_index_eq)
qed (use register_str_cases in blast)+

lemma register_all_later:
  "register_all ss st = Some (ps, st') \<Longrightarrow> strs.later st st'"
proof (induction ss arbitrary: st ps)
  case (Cons s ss)
  then obtain p st1 ps1 where "register_str s st = Some (p, st1)" "register_all ss st1 = Some (ps1, st')"
    by (auto simp: bind_Some_iff)
  with Cons.IH show ?case
    unfolding strs.later_def by (blast intro: converse_rtranclp_into_rtranclp)
qed (simp add: strs.later_def)

section \<open>Properties\<close>

text \<open>
  C20: starting from the table \<open>init_strtab\<close> builds, registering any sequence of lexemes never
  leaves the array (the growth by half keeps up with the size), every registration succeeds, and
  the i-th returned pointer designates the i-th lexeme at the end of the run.
\<close>

theorem register_all_total:
  "\<exists>ps st. register_all ss (init_strtab strtab_start) = Some (ps, st) \<and> strtab_wf st \<and>
     map (str_at st) ps = map Some ss"
proof -
  have "\<exists>ps st'. register_all ss st = Some (ps, st') \<and> strtab_wf st' \<and>
          map (str_at st') ps = map Some ss" if "strtab_wf st" for st
    using that
  proof (induction ss arbitrary: st)
    case (Cons s ss)
    from strs.reg_total [OF Cons.prems] obtain p st1 where r: "register_str s st = Some (p, st1)"
      by blast
    with Cons.prems have wf1: "strtab_wf st1" and p: "str_at st1 p = Some s"
      by (auto intro: strs.reg_wf strs.reg_deref)
    from Cons.IH [OF wf1] obtain ps st2 where a: "register_all ss st1 = Some (ps, st2)"
      "strtab_wf st2" "map (str_at st2) ps = map Some ss" by blast
    then have "str_at st2 p = Some s"
      using strs.later_wf_keeps [OF register_all_later wf1] p by blast
    with r a show ?case by auto
  qed simp
  from this [OF init_strtab_wf] show ?thesis .
qed

text \<open>
  C21: two registrations, with any lexemes registered in between, return the same pointer exactly
  when the two strings are equal. Clients may therefore keep and compare the pointers.
\<close>

theorem register_str_pointer_eq:
  assumes "strtab_wf st" and "register_str a st = Some (p, st1)"
    and "register_all ss st1 = Some (ps, st2)" and "register_str b st2 = Some (q, st3)"
  shows "p = q \<longleftrightarrow> a = b"
  using strs.pointer_eq_iff [OF assms(1,2) register_all_later [OF assms(3)] assms(4)] .

lemma register_str_pointer_eq_witness:
  "\<exists>p st1 ps st2 q st3. register_str ''x'' (init_strtab strtab_start) = Some (p, st1) \<and>
     register_all [''y''] st1 = Some (ps, st2) \<and> register_str ''x'' st2 = Some (q, st3) \<and> p = q"
proof -
  let ?st = "init_strtab strtab_start"
  obtain p st1 where 1: "register_str ''x'' ?st = Some (p, st1)"
    using strs.reg_total [OF init_strtab_wf] by blast
  have wf1: "strtab_wf st1" by (rule strs.reg_wf [OF init_strtab_wf 1])
  obtain p2 st2 where "register_str ''y'' st1 = Some (p2, st2)"
    using strs.reg_total [OF wf1] by blast
  then have 2: "register_all [''y''] st1 = Some ([p2], st2)" and wf2: "strtab_wf st2"
    by (auto intro: strs.reg_wf [OF wf1])
  obtain q st3 where 3: "register_str ''x'' st2 = Some (q, st3)"
    using strs.reg_total [OF wf2] by blast
  have "p = q" using register_str_pointer_eq [OF init_strtab_wf 1 2 3] by simp
  with 1 2 3 show ?thesis by blast
qed

end
