(* ===== verification/Binary32.thy ===== *)
theory Binary32
  imports Prelude
begin

text \<open>
  The \<open>float\<close> arithmetic the compiler does when it folds constants: IEEE binary32 with
  rounding to nearest, ties to even, on the bit patterns. An operation is computed exactly on
  rationals and rounded once. C does not fix the payload of a NaN result; the model returns the
  quiet NaN with payload 0.
\<close>

type_synonym f32 = "32 word"

datatype fval = FNaN | FInf bool | FFin bool nat int

definition f32_decode :: "f32 \<Rightarrow> fval" where
  "f32_decode w =
     (let s = bit w 31;
          e = unat (take_bit 8 (drop_bit 23 w));
          m = unat (take_bit 23 w)
      in if e = 255 then (if m = 0 then FInf s else FNaN)
         else if e = 0 then FFin s m (- 149)
         else FFin s (m + 2 ^ 23) (int e - 150))"

definition f32_pack :: "bool \<Rightarrow> nat \<Rightarrow> f32" where
  "f32_pack s n = of_nat n + (if s then 2 ^ 31 else 0)"

definition f32_nan :: f32 where
  "f32_nan = 0x7fc00000"

definition f32_inf :: "bool \<Rightarrow> f32" where
  "f32_inf s = f32_pack s (255 * 2 ^ 23)"

text \<open>The quotient of two naturals rounded to nearest, ties to even.\<close>

definition round_div :: "nat \<Rightarrow> nat \<Rightarrow> nat" where
  "round_div n d =
     (let q = n div d; r = n mod d
      in if 2 * r < d \<or> (2 * r = d \<and> even q) then q else q + 1)"

fun ilog2 :: "nat \<Rightarrow> nat" where
  "ilog2 n = (if n < 2 then 0 else Suc (ilog2 (n div 2)))"

declare ilog2.simps [simp del]

text \<open>The floor of the binary logarithm of a positive rational.\<close>

definition rat_log2 :: "nat \<Rightarrow> nat \<Rightarrow> int" where
  "rat_log2 n d =
     (let k = int (ilog2 n) - int (ilog2 d)
      in if n * 2 ^ nat (- k) < d * 2 ^ nat k then k - 1 else k)"

text \<open>The binary32 value nearest to \<open>n / d\<close> with sign \<open>s\<close>.\<close>

definition f32_round :: "bool \<Rightarrow> nat \<Rightarrow> nat \<Rightarrow> f32" where
  "f32_round s n d =
     (if n = 0 then f32_pack s 0
      else let ex = max (- 149) (rat_log2 n d - 23);
               r = round_div (n * 2 ^ nat (- ex)) (d * 2 ^ nat ex);
               bits = nat (ex + 149) * 2 ^ 23 + r
           in if 255 * 2 ^ 23 \<le> bits then f32_inf s else f32_pack s bits)"

definition signed_mant :: "bool \<Rightarrow> nat \<Rightarrow> int" where
  "signed_mant s m = (if s then - int m else int m)"

definition f32_neg :: "f32 \<Rightarrow> f32" where
  "f32_neg w = flip_bit 31 w"

definition f32_add :: "f32 \<Rightarrow> f32 \<Rightarrow> f32" where
  "f32_add a b =
     (case (f32_decode a, f32_decode b) of
       (FNaN, _) \<Rightarrow> f32_nan
     | (_, FNaN) \<Rightarrow> f32_nan
     | (FInf s, FInf t) \<Rightarrow> (if s = t then f32_inf s else f32_nan)
     | (FInf s, _) \<Rightarrow> f32_inf s
     | (_, FInf t) \<Rightarrow> f32_inf t
     | (FFin s m e, FFin t n f) \<Rightarrow>
         let x = min e f;
             v = signed_mant s m * 2 ^ nat (e - x) + signed_mant t n * 2 ^ nat (f - x)
         in if v = 0 then f32_pack (s \<and> t) 0
            else f32_round (v < 0) (nat \<bar>v\<bar> * 2 ^ nat x) (2 ^ nat (- x)))"

definition f32_sub :: "f32 \<Rightarrow> f32 \<Rightarrow> f32" where
  "f32_sub a b = (if f32_decode b = FNaN then f32_nan else f32_add a (f32_neg b))"

definition f32_mul :: "f32 \<Rightarrow> f32 \<Rightarrow> f32" where
  "f32_mul a b =
     (case (f32_decode a, f32_decode b) of
       (FNaN, _) \<Rightarrow> f32_nan
     | (_, FNaN) \<Rightarrow> f32_nan
     | (FInf s, FInf t) \<Rightarrow> f32_inf (s \<noteq> t)
     | (FInf s, FFin t n _) \<Rightarrow> (if n = 0 then f32_nan else f32_inf (s \<noteq> t))
     | (FFin s m _, FInf t) \<Rightarrow> (if m = 0 then f32_nan else f32_inf (s \<noteq> t))
     | (FFin s m e, FFin t n f) \<Rightarrow>
         f32_round (s \<noteq> t) (m * n * 2 ^ nat (e + f)) (2 ^ nat (- (e + f))))"

definition f32_div :: "f32 \<Rightarrow> f32 \<Rightarrow> f32" where
  "f32_div a b =
     (case (f32_decode a, f32_decode b) of
       (FNaN, _) \<Rightarrow> f32_nan
     | (_, FNaN) \<Rightarrow> f32_nan
     | (FInf s, FInf t) \<Rightarrow> f32_nan
     | (FInf s, FFin t _ _) \<Rightarrow> f32_inf (s \<noteq> t)
     | (FFin s _ _, FInf t) \<Rightarrow> f32_pack (s \<noteq> t) 0
     | (FFin s m e, FFin t n f) \<Rightarrow>
         if n = 0 then (if m = 0 then f32_nan else f32_inf (s \<noteq> t))
         else f32_round (s \<noteq> t) (m * 2 ^ nat (e - f)) (n * 2 ^ nat (f - e)))"

text \<open>\<open>==\<close>: a NaN equals nothing, the two zeros are equal.\<close>

definition f32_eq :: "f32 \<Rightarrow> f32 \<Rightarrow> bool" where
  "f32_eq a b =
     (case (f32_decode a, f32_decode b) of
       (FNaN, _) \<Rightarrow> False
     | (_, FNaN) \<Rightarrow> False
     | (FFin _ m _, FFin _ n _) \<Rightarrow> a = b \<or> (m = 0 \<and> n = 0)
     | _ \<Rightarrow> a = b)"

text \<open>The text of \<open>%f\<close>: six decimals, rounded from the exact value.\<close>

definition pad6 :: "string \<Rightarrow> string" where
  "pad6 s = replicate (6 - length s) (CHR ''0'') @ s"

definition print_f :: "f32 \<Rightarrow> string" where
  "print_f w =
     (let minus = (if bit w 31 then ''-'' else [])
      in case f32_decode w of
           FNaN \<Rightarrow> minus @ ''nan''
         | FInf _ \<Rightarrow> minus @ ''inf''
         | FFin _ m e \<Rightarrow>
             let q = round_div (m * 10 ^ 6 * 2 ^ nat e) (2 ^ nat (- e))
             in minus @ dec_nat (q div 10 ^ 6) @ ''.'' @ pad6 (dec_nat (q mod 10 ^ 6)))"

section \<open>Lemmas\<close>

lemma f32_add_comm: "f32_add a b = f32_add b a"
  by (simp add: f32_add_def Let_def min.commute add.commute conj_commute split: fval.splits)

lemma f32_mul_comm: "f32_mul a b = f32_mul b a"
  by (cases "f32_decode a"; cases "f32_decode b")
     (simp_all add: f32_mul_def ac_simps eq_commute [of "_ :: bool"] del: minus_add_distrib)

lemma f32_neg_neg [simp]: "f32_neg (f32_neg a) = a"
  by (simp add: f32_neg_def flip_bit_eq_xor xor.assoc)

lemma f32_decode_examples:
  "f32_decode 0x3f800000 = FFin False 8388608 (- 23)"
  "f32_decode 0x40400000 = FFin False 12582912 (- 22)"
  by (simp_all add: f32_decode_def bit_numeral_rec)

lemma ilog2_examples: "ilog2 8388608 = 23" "ilog2 25165824 = 24"
  by (simp_all add: ilog2.simps)

lemma f32_div_example: "f32_div 0x3f800000 0x40400000 = 0x3eaaaaab"
proof -
  have "rat_log2 8388608 25165824 = - 2"
    by (simp add: rat_log2_def ilog2_examples)
  then have "f32_round False 8388608 25165824 = 0x3eaaaaab"
    by (simp add: f32_round_def round_div_def f32_pack_def)
  then show ?thesis by (simp add: f32_div_def f32_decode_examples)
qed

end
