(* ===== verification/Types.thy ===== *)
theory Types
  imports Prelude
begin

text \<open>
  The type descriptors of \<open>cmm-type.h\<close> and \<open>cmm-type.c\<close>, and the symbols of
  \<open>cmm-symtab.h\<close> that refer to them.

  A \<open>Type\<close> object is never changed once the analysis has finished building it, so a
  descriptor is a value. What pointer comparison can see is kept: every allocated descriptor
  carries the number of its \<open>malloc\<close>, and \<open>x == y\<close> is equality of the values. The two
  statically allocated descriptors have no number.
\<close>

datatype CmmType = CMM_INT | CMM_FLOAT | CMM_ARRAY | CMM_STRUCT | CMM_FUNC | CMM_FIELD | CMM_PARAM | CMM_TYPE

text \<open>
  The constructors are the classes a descriptor can have. \<open>Array_of addr base size type_size\<close>,
  \<open>Struct_of addr name fields type_size lineno\<close>, \<open>Func_of addr name ret param\<close> and
  \<open>Meta_of addr name meta lineno\<close>; the \<open>CMM_FIELD\<close> and \<open>CMM_PARAM\<close> nodes are the cells
  of the two linked lists and become list entries (name and base type). The union member that a
  structure uses for its fields is either the linked list \<open>field\<close> or the symbol table
  \<open>field_table\<close>. A symbol is \<open>Symbol symbol line type address offset\<close>, its address the
  number of an operand.
\<close>

datatype Type =
    Basic_INT
  | Basic_FLOAT
  | Array_of nat Type cint cint
  | Struct_of nat string Fields cint int
  | Func_of nat string "Type option" "(string \<times> Type) list"
  | Meta_of nat string Type int
and Fields =
    Field "(string \<times> Type) list"
  | Field_table "Symbol list list"
and Symbol =
    Symbol string int Type "nat option" cint

fun class_of :: "Type \<Rightarrow> CmmType" where
  "class_of Basic_INT = CMM_INT"
| "class_of Basic_FLOAT = CMM_FLOAT"
| "class_of (Array_of _ _ _ _) = CMM_ARRAY"
| "class_of (Struct_of _ _ _ _ _) = CMM_STRUCT"
| "class_of (Func_of _ _ _ _) = CMM_FUNC"
| "class_of (Meta_of _ _ _ _) = CMM_TYPE"

text \<open>
  The \<open>type_size\<close> member: 4 for the two basic types, and only arrays and structures set it; in
  a function or meta type the member is not initialised, so reading it is undefined.
\<close>

fun type_size :: "Type \<Rightarrow> cint option" where
  "type_size Basic_INT = Some 4"
| "type_size Basic_FLOAT = Some 4"
| "type_size (Array_of _ _ _ ts) = Some ts"
| "type_size (Struct_of _ _ _ ts _) = Some ts"
| "type_size (Func_of _ _ _ _) = None"
| "type_size (Meta_of _ _ _ _) = None"

fun class_s :: "CmmType \<Rightarrow> string" where
  "class_s CMM_INT = ''int''"
| "class_s CMM_FLOAT = ''float''"
| "class_s CMM_ARRAY = ''array''"
| "class_s CMM_STRUCT = ''struct''"
| "class_s CMM_FUNC = ''function''"
| "class_s CMM_FIELD = ''field''"
| "class_s CMM_PARAM = ''param''"
| "class_s CMM_TYPE = ''type''"

section \<open>Comparison\<close>

text \<open>The loop that steps through two array types until one of them is no array.\<close>

fun array_loop :: "Type \<Rightarrow> Type \<Rightarrow> Type \<times> Type" where
  "array_loop (Array_of _ u _ _) (Array_of _ v _ _) = array_loop u v"
| "array_loop x y = (x, y)"

lemma array_loop_size:
  "array_loop x y = (x', y') \<Longrightarrow> size x' \<le> size x \<and> size y' \<le> size y"
  by (induction x y rule: array_loop.induct) auto

lemma array_loop_size_sum [simp]:
  "(case array_loop x y of (u, v) \<Rightarrow> size u + size v) < Suc (Suc (size x + size y))"
  using array_loop_size [of x y] by (cases "array_loop x y") fastforce

abbreviation entries_size :: "(string \<times> Type) list \<Rightarrow> nat" where
  "entries_size \<equiv> size_list (size_prod (\<lambda>_. 0) size)"

text \<open>
  \<open>typecmp\<close> on two non-null pointers. \<open>list_cmp\<close> is the loop over two parameter or field
  lists: true when both end together after pairwise equal base types. A structure whose union
  holds a symbol table is read through the \<open>field\<close> member, so following that pointer is
  undefined; so is the comparison of meta types, on which the final \<open>assert\<close> fails, and that
  of two functions without return type.
\<close>

function (sequential) typecmp :: "Type \<Rightarrow> Type \<Rightarrow> bool option"
  and list_cmp :: "(string \<times> Type) list \<Rightarrow> (string \<times> Type) list \<Rightarrow> bool option" where
  "typecmp x y =
     (if x = y then Some True
      else if class_of x \<noteq> class_of y then Some False
      else case (x, y) of
        (Func_of _ nx rx px, Func_of _ ny ry py) \<Rightarrow>
          if nx \<noteq> ny then Some False
          else do {
            same \<leftarrow> list_cmp px py;
            if \<not> same then Some False
            else do {
              r \<leftarrow> rx;
              r' \<leftarrow> ry;
              typecmp r r'
            }
          }
      | (Array_of _ _ _ _, Array_of _ _ _ _) \<Rightarrow>
          (case array_loop x y of (u, v) \<Rightarrow>
            if class_of u = CMM_ARRAY \<or> class_of v = CMM_ARRAY then Some False
            else typecmp u v)
      | (Struct_of _ _ (Field fx) _ _, Struct_of _ _ (Field fy) _ _) \<Rightarrow> list_cmp fx fy
      | (Struct_of _ _ (Field []) _ _, Struct_of _ _ (Field_table _) _ _) \<Rightarrow> Some False
      | (Struct_of _ _ (Field_table _) _ _, Struct_of _ _ (Field []) _ _) \<Rightarrow> Some False
      | (Struct_of _ _ _ _ _, Struct_of _ _ _ _ _) \<Rightarrow> None
      | (Meta_of _ _ _ _, Meta_of _ _ _ _) \<Rightarrow> None
      | _ \<Rightarrow> Some True)"
| "list_cmp ((_, tx) # xs) ((_, ty) # ys) =
     do {
       same \<leftarrow> typecmp tx ty;
       if same then list_cmp xs ys else Some False
     }"
| "list_cmp xs ys = Some (xs = [] \<and> ys = [])"
  by pat_completeness auto
termination
  by (relation "measure (\<lambda>s. case s of Inl (x, y) \<Rightarrow> size x + size y
        | Inr (xs, ys) \<Rightarrow> entries_size xs + entries_size ys)") auto

declare typecmp.simps [simp del]

text \<open>\<open>typecmp\<close> itself takes pointers that may be null; null is the type of an erroneous expression.\<close>

definition typecmp_ptr :: "Type option \<Rightarrow> Type option \<Rightarrow> bool option" where
  "typecmp_ptr x y =
     (case (x, y) of
       (Some x, Some y) \<Rightarrow> typecmp x y
     | _ \<Rightarrow> Some True)"

section \<open>Printing\<close>

text \<open>The array loops of \<open>_print_type\<close>: find the base, then print the dimensions from left to right.\<close>

fun array_elem :: "Type \<Rightarrow> Type" where
  "array_elem (Array_of _ b _ _) = array_elem b"
| "array_elem t = t"

fun print_dims :: "Type \<Rightarrow> string" where
  "print_dims (Array_of _ b n _) = ''['' @ dec_cint n @ '']'' @ print_dims b"
| "print_dims _ = []"

lemma size_array_elem [termination_simp]: "size (array_elem t) \<le> size t"
  by (induction t rule: array_elem.induct) auto

text \<open>
  \<open>print_type_end t e\<close> is the text \<open>_print_type(t, e)\<close> writes for a non-null \<open>t\<close>;
  \<open>print_fields\<close> and \<open>print_params\<close> are its loops over the fields and the parameters.
\<close>

function (sequential) print_type_end :: "Type \<Rightarrow> string \<Rightarrow> string option"
  and print_fields :: "(string \<times> Type) list \<Rightarrow> string option"
  and print_params :: "(string \<times> Type) list \<Rightarrow> string option" where
  "print_type_end Basic_INT e = Some (class_s CMM_INT @ e)"
| "print_type_end Basic_FLOAT e = Some (class_s CMM_FLOAT @ e)"
| "print_type_end (Array_of a b n ts) e =
     do {
       base \<leftarrow> print_type_end (array_elem b) [];
       Some (base @ print_dims (Array_of a b n ts) @ e)
     }"
| "print_type_end (Struct_of _ name (Field fs) _ _) e =
     do {
       body \<leftarrow> print_fields fs;
       Some (class_s CMM_STRUCT @ '' '' @ name @ ''{'' @ body @ ''}'' @ e)
     }"
| "print_type_end (Struct_of _ name (Field_table _) _ _) e = None"
| "print_type_end (Func_of _ name ret ps) e =
     do {
       r \<leftarrow> (case ret of None \<Rightarrow> Some ''void '' | Some t \<Rightarrow> print_type_end t '' '');
       args \<leftarrow> print_params ps;
       Some (r @ name @ ''('' @ args @ '')'' @ e)
     }"
| "print_type_end (Meta_of _ _ t _) e = print_type_end t e"
| "print_fields [] = Some []"
| "print_fields ((name, t) # fs) =
     do {
       f \<leftarrow> print_type_end t '' '';
       rest \<leftarrow> print_fields fs;
       Some (f @ name @ '';'' @ rest)
     }"
| "print_params [] = Some []"
| "print_params [(_, t)] = print_type_end t []"
| "print_params ((_, t) # ps) =
     do {
       p \<leftarrow> print_type_end t '', '';
       rest \<leftarrow> print_params ps;
       Some (p @ rest)
     }"
  by pat_completeness auto
termination
  by (relation "measure (\<lambda>s. case s of Inl (t, e) \<Rightarrow> size t
        | Inr (Inl fs) \<Rightarrow> entries_size fs | Inr (Inr ps) \<Rightarrow> entries_size ps)")
     (auto simp: less_Suc_eq_le size_array_elem)

definition print_type :: "Type option \<Rightarrow> string option" where
  "print_type t = (case t of None \<Rightarrow> Some (''void'' @ [CHR 0x0A]) | Some t \<Rightarrow> print_type_end t [CHR 0x0A])"

section \<open>Lemmas\<close>

definition flat_type :: "Type \<Rightarrow> bool" where
  "flat_type t \<longleftrightarrow> array_elem t = Basic_INT \<or> array_elem t = Basic_FLOAT"

fun array_dims :: "Type \<Rightarrow> nat" where
  "array_dims (Array_of _ b _ _) = Suc (array_dims b)"
| "array_dims _ = 0"

lemma class_of_array_iff [simp]:
  "class_of t = CMM_ARRAY \<longleftrightarrow> array_dims t \<noteq> 0"
  by (cases t) auto

lemma array_elem_dims [simp]: "array_dims (array_elem t) = 0"
  by (induction t rule: array_elem.induct) auto

lemma array_elem_id [simp]: "array_dims t = 0 \<Longrightarrow> array_elem t = t"
  by (cases t) auto

lemma array_loop_dims:
  "array_loop x y = (u, v) \<Longrightarrow>
     array_dims u = array_dims x - array_dims y \<and> array_dims v = array_dims y - array_dims x \<and>
     array_elem u = array_elem x \<and> array_elem v = array_elem y"
  by (induction x y rule: array_loop.induct) auto

lemma typecmp_refl [simp]: "typecmp x x = Some True"
  by (simp add: typecmp.simps)

lemma typecmp_class: "class_of x \<noteq> class_of y \<Longrightarrow> typecmp x y = Some False"
  by (auto simp: typecmp.simps [of x y])

lemma typecmp_Array:
  assumes "Array_of a b n s \<noteq> Array_of a' b' n' s'"
  shows "typecmp (Array_of a b n s) (Array_of a' b' n' s') =
    (case array_loop b b' of (u, v) \<Rightarrow>
       if array_dims u \<noteq> 0 \<or> array_dims v \<noteq> 0 then Some False else typecmp u v)"
  by (subst typecmp.simps, subst if_not_P, rule assms) (simp split: prod.splits)

lemma typecmp_Func:
  assumes "Func_of a n r ps \<noteq> Func_of a' n' r' ps'"
  shows "typecmp (Func_of a n r ps) (Func_of a' n' r' ps') =
    (if n \<noteq> n' then Some False
     else do { same \<leftarrow> list_cmp ps ps';
               if \<not> same then Some False else do { t \<leftarrow> r; t' \<leftarrow> r'; typecmp t t' } })"
  by (subst typecmp.simps, subst if_not_P, rule assms) simp

lemma typecmp_Struct_Field:
  assumes "Struct_of a n (Field fs) s l \<noteq> Struct_of a' n' (Field fs') s' l'"
  shows "typecmp (Struct_of a n (Field fs) s l) (Struct_of a' n' (Field fs') s' l') = list_cmp fs fs'"
  by (subst typecmp.simps, subst if_not_P, rule assms) (simp split: list.splits)

lemma typecmp_Struct_table:
  "typecmp (Struct_of a n (Field_table tab) s l) (Struct_of a' n' (Field fs) s' l') =
     (if fs = [] then Some False else None)"
  "typecmp (Struct_of a n (Field fs) s l) (Struct_of a' n' (Field_table tab) s' l') =
     (if fs = [] then Some False else None)"
  by (subst typecmp.simps, simp split: list.splits)+

lemma typecmp_Struct_tables:
  assumes "Struct_of a n (Field_table tab) s l \<noteq> Struct_of a' n' (Field_table tab') s' l'"
  shows "typecmp (Struct_of a n (Field_table tab) s l) (Struct_of a' n' (Field_table tab') s' l') = None"
  by (subst typecmp.simps, subst if_not_P, rule assms) simp

lemma typecmp_Meta:
  assumes "Meta_of a n t l \<noteq> Meta_of a' n' t' l'"
  shows "typecmp (Meta_of a n t l) (Meta_of a' n' t' l') = None"
  by (subst typecmp.simps, subst if_not_P, rule assms) simp

text \<open>Arrays agree when their numbers of dimensions and their element types do; lengths are ignored.\<close>

lemma typecmp_arrays:
  assumes "array_dims x \<noteq> 0 \<or> array_dims y \<noteq> 0"
  shows "typecmp x y =
    (if array_dims x = array_dims y then typecmp (array_elem x) (array_elem y) else Some False)"
proof (cases "array_dims x \<noteq> 0 \<and> array_dims y \<noteq> 0")
  case True
  then obtain a b n s a' b' n' s' where xy: "x = Array_of a b n s" "y = Array_of a' b' n' s'"
    by (cases x; cases y) auto
  obtain u v where uv: "array_loop b b' = (u, v)" by fastforce
  from array_loop_dims [OF uv]
  have "array_dims u = 0 \<and> array_dims v = 0 \<longleftrightarrow> array_dims b = array_dims b'"
    "array_dims u = 0 \<Longrightarrow> u = array_elem b" "array_dims v = 0 \<Longrightarrow> v = array_elem b'"
    by (auto dest: array_elem_id)
  with uv show ?thesis
    by (cases "x = y") (auto simp: typecmp_Array xy)
next
  case False
  with assms have "class_of x \<noteq> class_of y" "array_dims x \<noteq> array_dims y"
    by (cases x; cases y; simp)+
  then show ?thesis by (simp add: typecmp_class)
qed

lemma array_loop_swap: "array_loop y x = prod.swap (array_loop x y)"
  by (induction x y rule: array_loop.induct) auto

lemma typecmp_sym_aux:
  "typecmp x y = typecmp y x" "list_cmp xs ys = list_cmp ys xs"
proof (induction x y and xs ys rule: typecmp_list_cmp.induct)
  case (1 x y)
  note IH = "1.IH"
  show ?case
  proof (cases "x = y \<or> class_of x \<noteq> class_of y")
    case True
    then show ?thesis by (auto simp: typecmp_class)
  next
    case False
    then have ne: "x \<noteq> y" "y \<noteq> x" and cls: "class_of x = class_of y" by auto
    show ?thesis
    proof (cases x)
      case (Array_of a b n s)
      with cls obtain a' b' n' s' where y: "y = Array_of a' b' n' s'" by (cases y) auto
      obtain u v where uv: "array_loop b b' = (u, v)" by fastforce
      then have "typecmp u v = typecmp v u" if "array_dims u = 0" "array_dims v = 0"
        using IH(1) [OF ne(1) _ refl Array_of y, of u v] cls Array_of y that by simp
      with uv show ?thesis
        using ne [unfolded Array_of y, THEN typecmp_Array]
        by (simp add: Array_of y array_loop_swap [of b' b])
    next
      case (Func_of a n r ps)
      with cls obtain a' n' r' ps' where y: "y = Func_of a' n' r' ps'" by (cases y) auto
      from IH(4) [OF ne(1) _ refl Func_of y] cls Func_of y
      have ps: "list_cmp ps ps' = list_cmp ps' ps" if "n = n'" using that by simp
      from IH(5) [OF ne(1) _ refl Func_of y] cls Func_of y
      have "typecmp t t' = typecmp t' t"
        if "n = n'" "list_cmp ps ps' = Some True" "r = Some t" "r' = Some t'" for t t'
        using that by simp
      with ps show ?thesis
        using ne [unfolded Func_of y, THEN typecmp_Func]
        by (cases "n = n'"; cases r; cases r'; cases "list_cmp ps' ps") (auto simp: Func_of y)
    next
      case (Struct_of a n fs s l)
      with cls obtain a' n' fs' s' l' where y: "y = Struct_of a' n' fs' s' l'" by (cases y) auto
      have "list_cmp us vs = list_cmp vs us" if "fs = Field us" "fs' = Field vs" for us vs
        using IH(2,3) [OF ne(1) _ refl Struct_of _ _ y] cls Struct_of y that by (cases us) simp_all
      then show ?thesis
        using ne [unfolded Struct_of y]
        by (cases fs; cases fs')
           (simp_all only: Struct_of y typecmp_Struct_Field typecmp_Struct_table typecmp_Struct_tables
              not_False_eq_True, blast)
    next
      case (Meta_of a n t l)
      with cls obtain a' n' t' l' where "y = Meta_of a' n' t' l'" by (cases y) auto
      with ne Meta_of show ?thesis by (simp add: typecmp_Meta)
    qed (use cls ne in \<open>cases y; simp\<close>)+
  qed
next
  case (2 nx tx xs ny ty ys)
  then show ?case by (cases "typecmp ty tx") auto
qed auto


section \<open>Properties\<close>

text \<open>
  C22: on the types that expressions of an accepted program have (basic types and arrays of
  them, of any dimensions and lengths) \<open>typecmp\<close> always returns, and it answers true exactly when
  the two types have the same number of dimensions and the same element type.
\<close>

theorem typecmp_flat:
  assumes "flat_type x" and "flat_type y"
  shows "typecmp x y = Some (array_dims x = array_dims y \<and> array_elem x = array_elem y)"
proof (cases "array_dims x = 0 \<and> array_dims y = 0")
  case True
  with assms show ?thesis by (auto simp: flat_type_def typecmp_class)
next
  case False
  with assms show ?thesis
    by (simp add: typecmp_arrays flat_type_def) (auto simp: typecmp_class)
qed

lemma typecmp_flat_witness:
  "flat_type (Array_of 1 (Array_of 0 Basic_INT 3 12) 2 24) \<and>
   typecmp (Array_of 1 (Array_of 0 Basic_INT 3 12) 2 24)
     (Array_of 3 (Array_of 2 Basic_INT 7 28) 5 140) = Some True"
  using typecmp_flat [of "Array_of 1 (Array_of 0 Basic_INT 3 12) 2 24"
      "Array_of 3 (Array_of 2 Basic_INT 7 28) 5 140"]
  by (simp add: flat_type_def)

text \<open>
  C23: the order of the arguments of \<open>typecmp\<close> never matters, null pointers, undefined
  comparisons and ill-formed types included.
\<close>

theorem typecmp_ptr_sym: "typecmp_ptr x y = typecmp_ptr y x"
  by (cases x; cases y) (simp_all add: typecmp_ptr_def typecmp_sym_aux(1))



end
