(* ===== verification/Operand.thy ===== *)
theory Operand
  imports Binary32 Types
begin

text \<open>
  The operands of the intermediate code: \<open>operand.h\<close>, \<open>operand.c\<close> and the enumerations
  of \<open>lib.h\<close>. An \<open>Operand\<close> is a pointer to a mutable object, so the operands live in an
  explicit heap; a pointer is the number of its \<open>malloc\<close>, and a freed object is absent.
\<close>

datatype IR_Type =
    IR_NOP | IR_LABEL | IR_FUNC
  | IR_ASSIGN | IR_ADD | IR_SUB | IR_MUL | IR_DIV | IR_ADDR | IR_DEREF_R | IR_DEREF_L
  | IR_JMP | IR_BEQ | IR_BLT | IR_BLE | IR_BGT | IR_BGE | IR_BNE | IR_RET
  | IR_DEC
  | IR_ARG | IR_CALL | IR_PARAM
  | IR_READ | IR_WRITE

datatype Ope_Type =
    OPE_NOT_USED | OPE_VAR | OPE_REF | OPE_BOOL | OPE_TEMP | OPE_ADDR | OPE_DEREF | OPE_REFADDR
  | OPE_INTEGER | OPE_FLOAT | OPE_LABEL | OPE_FUNC

text \<open>The numbers the enumerators have; the code compares them.\<close>

fun ir_code :: "IR_Type \<Rightarrow> nat" where
  "ir_code IR_NOP = 0" | "ir_code IR_LABEL = 1" | "ir_code IR_FUNC = 2"
| "ir_code IR_ASSIGN = 3" | "ir_code IR_ADD = 4" | "ir_code IR_SUB = 5" | "ir_code IR_MUL = 6"
| "ir_code IR_DIV = 7" | "ir_code IR_ADDR = 8" | "ir_code IR_DEREF_R = 9" | "ir_code IR_DEREF_L = 10"
| "ir_code IR_JMP = 11" | "ir_code IR_BEQ = 12" | "ir_code IR_BLT = 13" | "ir_code IR_BLE = 14"
| "ir_code IR_BGT = 15" | "ir_code IR_BGE = 16" | "ir_code IR_BNE = 17" | "ir_code IR_RET = 18"
| "ir_code IR_DEC = 19" | "ir_code IR_ARG = 20" | "ir_code IR_CALL = 21" | "ir_code IR_PARAM = 22"
| "ir_code IR_READ = 23" | "ir_code IR_WRITE = 24"

instantiation IR_Type :: linorder
begin

definition less_eq_IR_Type :: "IR_Type \<Rightarrow> IR_Type \<Rightarrow> bool" where
  "less_eq_IR_Type a b \<longleftrightarrow> ir_code a \<le> ir_code b"

definition less_IR_Type :: "IR_Type \<Rightarrow> IR_Type \<Rightarrow> bool" where
  "less_IR_Type a b \<longleftrightarrow> ir_code a < ir_code b"

instance
proof
  fix a b :: IR_Type
  assume "a \<le> b" "b \<le> a"
  then have "ir_code a = ir_code b" by (simp add: less_eq_IR_Type_def)
  then show "a = b" by (cases a; cases b) simp_all
qed (auto simp: less_eq_IR_Type_def less_IR_Type_def)

end

record Operand_ =
  ope_type :: Ope_Type
  ope_label :: nat
  ope_index :: nat
  ope_address :: cint
  ope_integer :: cint
  ope_real :: f32
  ope_name :: string
  ope_size :: cint
  ope_nr_arg :: cint
  ope_has_subroutine :: bool
  ope_is_param :: bool
  ope_base_type :: "Type option"
  ope_label_ref_cnt :: int
  ope_liveness :: bool
  ope_next_use :: int

text \<open>The heap of operands and the two static counters of \<open>new_operand\<close>.\<close>

record ope_state =
  opes :: "nat \<Rightarrow> Operand_ option"
  next_ope :: nat
  nr_ope :: nat
  nr_label :: nat

definition ope_start :: ope_state where
  "ope_start = \<lparr>opes = (\<lambda>_. None), next_ope = 0, nr_ope = 0, nr_label = 0\<rparr>"

definition memset_operand :: Operand_ where
  "memset_operand =
     \<lparr>ope_type = OPE_NOT_USED, ope_label = 0, ope_index = 0, ope_address = 0, ope_integer = 0,
      ope_real = 0, ope_name = [], ope_size = 0, ope_nr_arg = 0, ope_has_subroutine = False,
      ope_is_param = False, ope_base_type = None, ope_label_ref_cnt = 0, ope_liveness = False,
      ope_next_use = 0\<rparr>"

fun is_always_live_type :: "Ope_Type \<Rightarrow> bool" where
  "is_always_live_type OPE_VAR = True"
| "is_always_live_type OPE_REF = True"
| "is_always_live_type OPE_BOOL = True"
| "is_always_live_type _ = False"

definition is_always_live :: "Operand_ \<Rightarrow> bool" where
  "is_always_live ope = is_always_live_type (ope_type ope)"

text \<open>The \<open>switch\<close> of \<open>new_operand\<close>: the new object and the new values of the counters.\<close>

fun init_operand :: "Ope_Type \<Rightarrow> nat \<Rightarrow> nat \<Rightarrow> Operand_ \<Rightarrow> Operand_ \<times> nat \<times> nat" where
  "init_operand OPE_VAR no nl p = (p\<lparr>ope_liveness := True, ope_size := 4, ope_index := no\<rparr>, no + 1, nl)"
| "init_operand OPE_REF no nl p = (p\<lparr>ope_liveness := True, ope_index := no\<rparr>, no + 1, nl)"
| "init_operand OPE_BOOL no nl p = (p\<lparr>ope_liveness := True, ope_size := 4, ope_index := no\<rparr>, no + 1, nl)"
| "init_operand OPE_TEMP no nl p = (p\<lparr>ope_size := 4, ope_index := no\<rparr>, no + 1, nl)"
| "init_operand OPE_ADDR no nl p = (p\<lparr>ope_size := 4, ope_index := no\<rparr>, no + 1, nl)"
| "init_operand OPE_LABEL no nl p = (p\<lparr>ope_liveness := True, ope_label := nl\<rparr>, no, nl + 1)"
| "init_operand OPE_FUNC no nl p = (p\<lparr>ope_liveness := True\<rparr>, no, nl)"
| "init_operand _ no nl p = (p, no, nl)"

definition new_operand :: "Ope_Type \<Rightarrow> 'a ope_state_scheme \<Rightarrow> nat \<times> 'a ope_state_scheme" where
  "new_operand t st =
     (case init_operand t (nr_ope st) (nr_label st) (memset_operand\<lparr>ope_type := t\<rparr>) of
       (p, no, nl) \<Rightarrow>
         (next_ope st,
          st\<lparr>opes := (opes st)(next_ope st \<mapsto> p), next_ope := next_ope st + 1,
             nr_ope := no, nr_label := nl\<rparr>))"

definition update_ope :: "nat \<Rightarrow> (Operand_ \<Rightarrow> Operand_) \<Rightarrow> 'a ope_state_scheme \<Rightarrow> 'a ope_state_scheme option" where
  "update_ope p f st =
     do {
       ope \<leftarrow> opes st p;
       Some (st\<lparr>opes := (opes st)(p \<mapsto> f ope)\<rparr>)
     }"

text \<open>\<open>free\<close>: null is ignored, a pointer that is not allocated is undefined.\<close>

definition free_operand :: "nat option \<Rightarrow> 'a ope_state_scheme \<Rightarrow> 'a ope_state_scheme option" where
  "free_operand ptr st =
     (case ptr of
       None \<Rightarrow> Some st
     | Some p \<Rightarrow> do { _ \<leftarrow> opes st p; Some (st\<lparr>opes := (opes st)(p := None)\<rparr>) })"

definition is_const :: "Operand_ \<Rightarrow> bool" where
  "is_const ope \<longleftrightarrow> ope_type ope = OPE_INTEGER \<or> ope_type ope = OPE_FLOAT"

definition is_tmp :: "Operand_ option \<Rightarrow> bool" where
  "is_tmp ope =
     (case ope of
       None \<Rightarrow> False
     | Some ope \<Rightarrow> ope_type ope = OPE_ADDR \<or> ope_type ope = OPE_TEMP)"

text \<open>The characters \<open>print_operand\<close> writes, and the bound of its static buffer.\<close>

fun operand_text :: "Ope_Type \<Rightarrow> Operand_ \<Rightarrow> string" where
  "operand_text OPE_VAR ope = ''v'' @ dec_nat (ope_index ope)"
| "operand_text OPE_REF ope = ''r'' @ dec_nat (ope_index ope) @ ''_'' @ dec_cint (ope_size ope)"
| "operand_text OPE_BOOL ope = ''b'' @ dec_nat (ope_index ope)"
| "operand_text OPE_FUNC ope = ope_name ope"
| "operand_text OPE_TEMP ope = ''t'' @ dec_nat (ope_index ope)"
| "operand_text OPE_ADDR ope = ''a'' @ dec_nat (ope_index ope)"
| "operand_text OPE_DEREF ope = ''*a'' @ dec_nat (ope_index ope)"
| "operand_text OPE_FLOAT ope = ''#'' @ print_f (ope_real ope)"
| "operand_text OPE_LABEL ope = ''L'' @ dec_nat (ope_label ope)"
| "operand_text OPE_INTEGER ope = ''#'' @ dec_cint (ope_integer ope)"
| "operand_text OPE_REFADDR ope = ''&r'' @ dec_nat (ope_index ope)"
| "operand_text _ ope = []"

definition print_operand :: "'a ope_state_scheme \<Rightarrow> nat option \<Rightarrow> string option" where
  "print_operand st ptr =
     (case ptr of
       None \<Rightarrow> sprintf_buf NAME_LEN []
     | Some p \<Rightarrow> do { ope \<leftarrow> opes st p; sprintf_buf NAME_LEN (operand_text (ope_type ope) ope) })"

text \<open>Folding of two constants of one type with one of the four operators.\<close>

fun calc_integer :: "IR_Type \<Rightarrow> cint \<Rightarrow> cint \<Rightarrow> cint option" where
  "calc_integer IR_ADD a b = cadd a b"
| "calc_integer IR_SUB a b = csub a b"
| "calc_integer IR_MUL a b = cmul a b"
| "calc_integer IR_DIV a b = cdiv a b"
| "calc_integer _ a b = None"

fun calc_real :: "IR_Type \<Rightarrow> f32 \<Rightarrow> f32 \<Rightarrow> f32 option" where
  "calc_real IR_ADD a b = Some (f32_add a b)"
| "calc_real IR_SUB a b = Some (f32_sub a b)"
| "calc_real IR_MUL a b = Some (f32_mul a b)"
| "calc_real IR_DIV a b = Some (f32_div a b)"
| "calc_real _ a b = None"

definition calc_const ::
  "IR_Type \<Rightarrow> nat \<Rightarrow> nat \<Rightarrow> 'a ope_state_scheme \<Rightarrow> (nat \<times> 'a ope_state_scheme) option" where
  "calc_const op left right st =
     do {
       l \<leftarrow> opes st left;
       r \<leftarrow> opes st right;
       _ \<leftarrow> c_assert (ope_type l = ope_type r \<and> is_const l);
       _ \<leftarrow> c_assert (IR_ADD \<le> op \<and> op \<le> IR_DIV);
       let (rst, st) = new_operand (ope_type l) st
       in case ope_type l of
            OPE_INTEGER \<Rightarrow> do {
              v \<leftarrow> calc_integer op (ope_integer l) (ope_integer r);
              st \<leftarrow> update_ope rst (ope_integer_update (\<lambda>_. v)) st;
              Some (rst, st)
            }
          | OPE_FLOAT \<Rightarrow> do {
              v \<leftarrow> calc_real op (ope_real l) (ope_real r);
              st \<leftarrow> update_ope rst (ope_real_update (\<lambda>_. v)) st;
              Some (rst, st)
            }
          | _ \<Rightarrow> None
     }"

definition get_neg :: "nat \<Rightarrow> 'a ope_state_scheme \<Rightarrow> (nat \<times> 'a ope_state_scheme) option" where
  "get_neg ptr st =
     do {
       ope \<leftarrow> opes st ptr;
       if is_const ope then
         let (p, st) = new_operand (ope_type ope) st
         in if ope_type ope = OPE_INTEGER then do {
              v \<leftarrow> cneg (ope_integer ope);
              st \<leftarrow> update_ope p (ope_integer_update (\<lambda>_. v)) st;
              Some (p, st)
            }
            else if ope_type ope = OPE_FLOAT then do {
              st \<leftarrow> update_ope p (ope_real_update (\<lambda>_. f32_neg (ope_real ope))) st;
              Some (p, st)
            }
            else None
       else None
     }"

text \<open>\<open>cmp_operand\<close> on two non-null pointers.\<close>

definition cmp_operand :: "'a ope_state_scheme \<Rightarrow> nat \<Rightarrow> nat \<Rightarrow> bool option" where
  "cmp_operand st first second =
     (if first = second then Some True
      else do {
        f \<leftarrow> opes st first;
        s \<leftarrow> opes st second;
        if is_const f \<and> is_const s \<and> ope_type f = ope_type s then
          Some (case ope_type f of
                  OPE_INTEGER \<Rightarrow> ope_integer f = ope_integer s
                | OPE_FLOAT \<Rightarrow> f32_eq (ope_real f) (ope_real s)
                | _ \<Rightarrow> False)
        else Some False
      })"

section \<open>The invariant: live operands have their own numbers\<close>

definition numbered :: "Ope_Type \<Rightarrow> bool" where
  "numbered t \<longleftrightarrow> t \<in> {OPE_VAR, OPE_REF, OPE_BOOL, OPE_TEMP, OPE_ADDR}"

definition ope_wf :: "'a ope_state_scheme \<Rightarrow> bool" where
  "ope_wf st \<longleftrightarrow>
     (\<forall>p ope. opes st p = Some ope \<longrightarrow> p < next_ope st \<and>
        (numbered (ope_type ope) \<longrightarrow> ope_index ope < nr_ope st) \<and>
        (ope_type ope = OPE_LABEL \<longrightarrow> ope_label ope < nr_label st)) \<and>
     (\<forall>p q a b. opes st p = Some a \<longrightarrow> opes st q = Some b \<longrightarrow> p \<noteq> q \<longrightarrow>
        (numbered (ope_type a) \<longrightarrow> numbered (ope_type b) \<longrightarrow> ope_index a \<noteq> ope_index b) \<and>
        (ope_type a = OPE_LABEL \<longrightarrow> ope_type b = OPE_LABEL \<longrightarrow> ope_label a \<noteq> ope_label b))"

text \<open>The life of the operands: creation, release, and stores that keep kind and number.\<close>

definition keeps_number :: "(Operand_ \<Rightarrow> Operand_) \<Rightarrow> bool" where
  "keeps_number f \<longleftrightarrow>
     (\<forall>x. ope_type (f x) = ope_type x \<and> ope_index (f x) = ope_index x \<and> ope_label (f x) = ope_label x)"

inductive ope_step :: "'a ope_state_scheme \<Rightarrow> 'a ope_state_scheme \<Rightarrow> bool" where
  create: "new_operand t st = (p, st') \<Longrightarrow> ope_step st st'"
| release: "free_operand ptr st = Some st' \<Longrightarrow> ope_step st st'"
| store: "update_ope p f st = Some st' \<Longrightarrow> keeps_number f \<Longrightarrow> ope_step st st'"

lemma ope_start_wf: "ope_wf ope_start"
  by (simp add: ope_wf_def ope_start_def)

lemma new_operand_fields:
  assumes "new_operand t st = (p, st')"
  shows "p = next_ope st" "next_ope st' = Suc (next_ope st)" "ope_state.more st' = ope_state.more st"
    "\<exists>ope. opes st' = (opes st)(p \<mapsto> ope) \<and> ope_type ope = t \<and>
       (numbered t \<longrightarrow> ope_index ope = nr_ope st \<and> nr_ope st' = Suc (nr_ope st)) \<and>
       (t = OPE_LABEL \<longrightarrow> ope_label ope = nr_label st \<and> nr_label st' = Suc (nr_label st)) \<and>
       nr_ope st \<le> nr_ope st' \<and> nr_label st \<le> nr_label st'"
  using assms
  by (cases t; auto simp: new_operand_def memset_operand_def numbered_def)+

lemma new_operand_wf:
  assumes "ope_wf st" and "new_operand t st = (p, st')"
  shows "ope_wf st'"
proof -
  from new_operand_fields [OF assms(2)] obtain ope where
    *: "p = next_ope st" "next_ope st' = Suc (next_ope st)" "opes st' = (opes st)(p \<mapsto> ope)"
      "ope_type ope = t" "numbered t \<Longrightarrow> ope_index ope = nr_ope st \<and> nr_ope st' = Suc (nr_ope st)"
      "t = OPE_LABEL \<Longrightarrow> ope_label ope = nr_label st \<and> nr_label st' = Suc (nr_label st)"
      "nr_ope st \<le> nr_ope st'" "nr_label st \<le> nr_label st'"
    by blast
  have old: "q < next_ope st \<and> (numbered (ope_type a) \<longrightarrow> ope_index a < nr_ope st) \<and>
      (ope_type a = OPE_LABEL \<longrightarrow> ope_label a < nr_label st)" if "opes st q = Some a" for q a
    using assms(1) that by (simp add: ope_wf_def)
  have dist: "(numbered (ope_type a) \<longrightarrow> numbered (ope_type b) \<longrightarrow> ope_index a \<noteq> ope_index b) \<and>
      (ope_type a = OPE_LABEL \<longrightarrow> ope_type b = OPE_LABEL \<longrightarrow> ope_label a \<noteq> ope_label b)"
    if "opes st q = Some a" "opes st r = Some b" "q \<noteq> r" for q r a b
    using assms(1) that unfolding ope_wf_def by blast
  have cases: "(q = p \<and> a = ope) \<or> (q \<noteq> p \<and> opes st q = Some a)" if "opes st' q = Some a" for q a
    using that *(3) by (auto split: if_splits)
  show ?thesis
    unfolding ope_wf_def
  proof (intro conjI [OF allI [OF allI [OF impI]] allI [OF allI [OF allI [OF allI [OF impI [OF impI [OF impI]]]]]]], goal_cases)
    case (1 q a)
    then show ?case using cases [of q a] old [of q a] * by auto
  next
    case (2 q r a b)
    from cases [OF 2(1)] cases [OF 2(2)] 2(3) show ?case
      using old [of q a] old [of r b] dist [of q a r b] * by auto
  qed
qed

lemma ope_wf_transfer:
  assumes wf: "ope_wf st"
    and old: "\<And>p a. opes st' p = Some a \<Longrightarrow> \<exists>b. opes st p = Some b \<and> ope_type a = ope_type b \<and>
      ope_index a = ope_index b \<and> ope_label a = ope_label b"
    and "next_ope st' = next_ope st" "nr_ope st' = nr_ope st" "nr_label st' = nr_label st"
  shows "ope_wf st'"
  unfolding ope_wf_def assms(3-5)
proof (intro conjI [OF allI [OF allI [OF impI]] allI [OF allI [OF allI [OF allI [OF impI [OF impI [OF impI]]]]]]], goal_cases)
  case (1 p a)
  from old [OF 1] wf show ?case by (auto simp: ope_wf_def)
next
  case (2 p q a b)
  from old [OF 2(1)] obtain a' where a: "opes st p = Some a'" "ope_type a = ope_type a'"
    "ope_index a = ope_index a'" "ope_label a = ope_label a'" by blast
  from old [OF 2(2)] obtain b' where b: "opes st q = Some b'" "ope_type b = ope_type b'"
    "ope_index b = ope_index b'" "ope_label b = ope_label b'" by blast
  from wf a(1) b(1) 2(3) show ?case unfolding a(2-) b(2-) ope_wf_def by blast
qed

lemma ope_step_wf: "ope_step st st' \<Longrightarrow> ope_wf st \<Longrightarrow> ope_wf st'"
proof (induction rule: ope_step.induct)
  case (create t st p st')
  then show ?case by (blast intro: new_operand_wf)
next
  case (release ptr st st')
  then show ?case
    by (intro ope_wf_transfer [of st st'])
       (auto simp: free_operand_def bind_Some_iff split: option.splits if_splits)
next
  case (store p f st st')
  then show ?case
    by (intro ope_wf_transfer [of st st'])
       (auto simp: update_ope_def keeps_number_def bind_Some_iff split: if_splits)
qed

lemma ope_steps_wf: "ope_step\<^sup>*\<^sup>* st st' \<Longrightarrow> ope_wf st \<Longrightarrow> ope_wf st'"
  by (induction rule: rtranclp_induct) (auto intro: ope_step_wf)

lemma label_text_inject:
  "ope_type a = OPE_LABEL \<Longrightarrow> ope_type b = OPE_LABEL \<Longrightarrow>
     operand_text (ope_type a) a = operand_text (ope_type b) b \<longleftrightarrow> ope_label a = ope_label b"
  by simp

lemma dec_nat_split:
  assumes "dec_nat m @ CHR ''_'' # xs = dec_nat n @ CHR ''_'' # ys"
  shows "m = n"
proof -
  have *: "CHR ''_'' \<notin> set (dec_nat k)" for k
    using dec_nat_digits [of "CHR ''_''" k] by auto
  have "takeWhile (\<lambda>c. c \<noteq> CHR ''_'') (dec_nat k @ CHR ''_'' # zs) = dec_nat k" for k zs
    using * [of k] by (subst takeWhile_append2) auto
  with arg_cong [OF assms, of "takeWhile (\<lambda>c. c \<noteq> CHR ''_'')"] show ?thesis by simp
qed

text \<open>Two live numbered operands print differently.\<close>

lemma numbered_text_inject:
  assumes "numbered (ope_type a)" and "numbered (ope_type b)"
    and "operand_text (ope_type a) a = operand_text (ope_type b) b"
  shows "ope_index a = ope_index b"
  using assms by (auto simp: numbered_def dest: dec_nat_split)

section \<open>Printing stays in the buffer\<close>

lemma f32_decode_bounds: "f32_decode w = FFin s m e \<Longrightarrow> m < 2 ^ 24 \<and> e \<le> 104"
proof -
  have "unat (take_bit 23 w) < 2 ^ 23" "unat (take_bit 8 (drop_bit 23 w)) < 2 ^ 8"
    by (metis nat_take_bit_eq take_bit_nat_less_exp unsigned_take_bit_eq)+
  moreover define m' e' where "m' = unat (take_bit 23 w)" and "e' = unat (take_bit 8 (drop_bit 23 w))"
  ultimately have "m' < 2 ^ 23" "e' < 2 ^ 8" by simp_all
  then show "f32_decode w = FFin s m e \<Longrightarrow> m < 2 ^ 24 \<and> e \<le> 104"
    unfolding f32_decode_def m'_def [symmetric] e'_def [symmetric]
    by (auto simp: Let_def split: if_splits)
qed

lemma round_div_le: "0 < d \<Longrightarrow> round_div n d \<le> n div d + 1"
  by (simp add: round_div_def Let_def)

lemma length_print_f: "length (print_f w) \<le> 48"
proof (cases "f32_decode w")
  case (FFin s m e)
  define q where "q = round_div (m * 10 ^ 6 * 2 ^ nat e) (2 ^ nat (- e))"
  from f32_decode_bounds [OF FFin] have m: "m < 2 ^ 24" "nat e \<le> 104" by auto
  have "q \<le> m * 10 ^ 6 * 2 ^ nat e div 2 ^ nat (- e) + 1"
    unfolding q_def by (rule round_div_le) simp
  also have "\<dots> \<le> m * 10 ^ 6 * 2 ^ nat e + 1" by simp
  also have "m * 10 ^ 6 * 2 ^ nat e \<le> (2 ^ 24 - 1) * 10 ^ 6 * 2 ^ 104"
    using m by (intro mult_mono power_increasing) auto
  finally have "q div 10 ^ 6 < 10 ^ 39" by (simp add: div_less_iff_less_mult)
  then have "length (dec_nat (q div 10 ^ 6)) \<le> 39" by (intro length_dec_nat_le) simp_all
  moreover have "length (dec_nat (q mod 10 ^ 6)) \<le> 6" by (intro length_dec_nat_le) simp_all
  moreover have "print_f w = (if bit w 31 then ''-'' else []) @ dec_nat (q div 10 ^ 6) @ ''.'' @
      pad6 (dec_nat (q mod 10 ^ 6))"
    by (simp add: print_f_def FFin q_def Let_def)
  ultimately show ?thesis by (simp add: pad6_def)
qed (simp_all add: print_f_def)

lemma operand_text_length:
  assumes "ope_type ope = OPE_FUNC \<Longrightarrow> length (ope_name ope) < n" and "50 \<le> n"
    and "ope_index ope < 10 ^ 10" and "ope_label ope < 10 ^ 10"
  shows "length (operand_text (ope_type ope) ope) < n"
proof -
  have "length (dec_nat (ope_index ope)) \<le> 10" "length (dec_nat (ope_label ope)) \<le> 10"
    using assms(3,4) by (auto intro: length_dec_nat_le)
  moreover note length_dec_cint [of "ope_size ope"] length_dec_cint [of "ope_integer ope"]
    length_print_f [of "ope_real ope"]
  ultimately show ?thesis
    using assms(1,2) by (cases "ope_type ope") simp_all
qed

section \<open>Properties\<close>



text \<open>
  C26: printing an operand fits its 120-byte buffer, whatever its kind and values (the longest
  \<open>%f\<close> included), unless it is a function whose name has 120 characters or more: then the
  buffer overflows.
\<close>

theorem print_operand_fits:
  assumes "opes st p = Some ope" and "ope_index ope < 10 ^ 10" and "ope_label ope < 10 ^ 10"
  shows "print_operand st (Some p) = None \<longleftrightarrow> ope_type ope = OPE_FUNC \<and> 120 \<le> length (ope_name ope)"
  using assms operand_text_length [of ope 120]
  by (cases "ope_type ope = OPE_FUNC \<and> 120 \<le> length (ope_name ope)")
     (auto simp: print_operand_def sprintf_buf_def NAME_LEN_def)

lemma print_operand_fits_witness:
  "print_operand (snd (new_operand OPE_LABEL ope_start)) (Some 0) \<noteq> None"
  using print_operand_fits [of "snd (new_operand OPE_LABEL ope_start)" 0 "memset_operand\<lparr>ope_type := OPE_LABEL, ope_liveness := True\<rparr>"]
  by (simp add: new_operand_def ope_start_def memset_operand_def)

fun int_op :: "IR_Type \<Rightarrow> int \<Rightarrow> int \<Rightarrow> int" where
  "int_op IR_ADD a b = a + b"
| "int_op IR_SUB a b = a - b"
| "int_op IR_MUL a b = a * b"
| "int_op IR_DIV a b = a sdiv b"
| "int_op _ a b = 0"

lemma calc_integer_spec:
  assumes "op \<in> {IR_ADD, IR_SUB, IR_MUL, IR_DIV}"
  shows "calc_integer op a b =
    (if op = IR_DIV \<and> b = 0 then None else to_cint (int_op op (sint a) (sint b)))"
  using assms by (auto simp: carith_defs)

text \<open>
  C27: folding two integer constants is defined exactly when the divisor is not zero and the
  mathematical result (truncating division included) is an \<open>int\<close>, and then the new operand is
  an integer constant with that value.
\<close>

theorem calc_const_integer:
  assumes "opes st l = Some a" and "opes st r = Some b"
    and "ope_type a = OPE_INTEGER" and "ope_type b = OPE_INTEGER"
    and "op \<in> {IR_ADD, IR_SUB, IR_MUL, IR_DIV}"
  shows "case calc_const op l r st of
      None \<Rightarrow> (op = IR_DIV \<and> ope_integer b = 0) \<or>
        \<not> int_range (int_op op (sint (ope_integer a)) (sint (ope_integer b)))
    | Some (p, st') \<Rightarrow> \<not> (op = IR_DIV \<and> ope_integer b = 0) \<and>
        (\<exists>c. opes st' p = Some c \<and> ope_type c = OPE_INTEGER \<and>
           sint (ope_integer c) = int_op op (sint (ope_integer a)) (sint (ope_integer b)))"
proof -
  let ?v = "calc_integer op (ope_integer a) (ope_integer b)"
  have "IR_ADD \<le> op \<and> op \<le> IR_DIV"
    using assms(5) by (auto simp: less_eq_IR_Type_def)
  with assms have "calc_const op l r st =
     do { v \<leftarrow> ?v; st' \<leftarrow> update_ope (next_ope st) (ope_integer_update (\<lambda>_. v)) (snd (new_operand OPE_INTEGER st));
          Some (next_ope st, st') }"
    by (simp add: calc_const_def is_const_def new_operand_def)
  moreover have "opes (snd (new_operand OPE_INTEGER st)) (next_ope st) = Some (memset_operand\<lparr>ope_type := OPE_INTEGER\<rparr>)"
    by (simp add: new_operand_def)
  ultimately have calc: "calc_const op l r st = do { v \<leftarrow> ?v; Some (next_ope st, (snd (new_operand OPE_INTEGER st))
      \<lparr>opes := (opes (snd (new_operand OPE_INTEGER st)))(next_ope st \<mapsto>
         memset_operand\<lparr>ope_type := OPE_INTEGER, ope_integer := v\<rparr>)\<rparr>) }"
    by (simp add: update_ope_def memset_operand_def)
  show ?thesis
  proof (cases ?v)
    case None
    with calc show ?thesis
      by (auto simp: calc_integer_spec [OF assms(5)] to_cint_eq_None split: if_splits)
  next
    case (Some v)
    then have "\<not> (op = IR_DIV \<and> ope_integer b = 0)"
      "sint v = int_op op (sint (ope_integer a)) (sint (ope_integer b))"
      by (auto simp: calc_integer_spec [OF assms(5)] to_cint_eq_Some split: if_splits)
    with calc Some show ?thesis by simp
  qed
qed

lemma calc_const_integer_witness:
  "case calc_const IR_DIV 0 1 (ope_start\<lparr>opes := [0 \<mapsto> memset_operand\<lparr>ope_type := OPE_INTEGER, ope_integer := 7\<rparr>,
       1 \<mapsto> memset_operand\<lparr>ope_type := OPE_INTEGER\<rparr>]\<rparr>) of
     None \<Rightarrow> True | Some _ \<Rightarrow> False"
  using calc_const_integer [of "ope_start\<lparr>opes := [0 \<mapsto> memset_operand\<lparr>ope_type := OPE_INTEGER, ope_integer := 7\<rparr>,
       1 \<mapsto> memset_operand\<lparr>ope_type := OPE_INTEGER\<rparr>]\<rparr>" 0 "memset_operand\<lparr>ope_type := OPE_INTEGER, ope_integer := 7\<rparr>"
     1 "memset_operand\<lparr>ope_type := OPE_INTEGER\<rparr>" IR_DIV]
  by (simp add: memset_operand_def split: option.splits prod.splits)

end
