(* ===== verification/IR.thy ===== *)
theory IR
  imports Operand
begin

text \<open>
  The instruction buffer of \<open>ir.h\<close> and \<open>ir.c\<close> and the passes over it: printing, frame
  layout (\<open>in_func_check\<close>), operand replacement, the peephole pass \<open>preprocess_ir\<close> and the
  liveness annotation of a block. The buffer is the list of its first \<open>nr_instr\<close> cells.
\<close>

record OptimizeInfo =
  info_liveness :: bool
  info_next_use :: int

record IR =
  ir_type :: IR_Type
  ir_rd :: "nat option"
  ir_rs :: "nat option"
  ir_rt :: "nat option"
  ir_block :: int
  rd_info :: OptimizeInfo
  rs_info :: OptimizeInfo
  rt_info :: OptimizeInfo

record ir_state = ope_state +
  instr_buffer :: "IR list"

abbreviation nr_instr :: "'a ir_state_scheme \<Rightarrow> nat" where
  "nr_instr st \<equiv> length (instr_buffer st)"

definition no_info :: OptimizeInfo where
  "no_info = \<lparr>info_liveness = False, info_next_use = 0\<rparr>"

text \<open>The view \<open>operand[3]\<close> of the union.\<close>

definition ir_operands :: "IR \<Rightarrow> nat option list" where
  "ir_operands ir = [ir_rd ir, ir_rs ir, ir_rt ir]"

section \<open>Construction and printing\<close>

definition mk_instr :: "IR_Type \<Rightarrow> nat option \<Rightarrow> nat option \<Rightarrow> nat option \<Rightarrow> IR" where
  "mk_instr type rs rt rd =
     \<lparr>ir_type = type, ir_rd = rd, ir_rs = rs, ir_rt = rt, ir_block = 0,
      rd_info = no_info, rs_info = no_info, rt_info = no_info\<rparr>"

definition new_instr ::
  "IR_Type \<Rightarrow> nat option \<Rightarrow> nat option \<Rightarrow> nat option \<Rightarrow> 'a ir_state_scheme \<Rightarrow> (nat \<times> 'a ir_state_scheme) option" where
  "new_instr type rs rt rd st =
     do {
       _ \<leftarrow> c_assert (nr_instr st < MAX_LINE);
       Some (nr_instr st, st\<lparr>instr_buffer := instr_buffer st @ [mk_instr type rs rt rd]\<rparr>)
     }"

definition relop_dict :: "(IR_Type \<times> string \<times> IR_Type) list" where
  "relop_dict =
     [(IR_BEQ, ''=='', IR_BNE),
      (IR_BLT, ''<'', IR_BGE),
      (IR_BLE, ''<='', IR_BGT),
      (IR_BGT, ''>'', IR_BLE),
      (IR_BGE, ''>='', IR_BLT),
      (IR_BNE, ''!='', IR_BEQ)]"

definition get_relop_symbol :: "IR_Type \<Rightarrow> string option" where
  "get_relop_symbol relop = map_option (fst \<circ> snd) (List.find (\<lambda>e. fst e = relop) relop_dict)"

definition get_relop_anti :: "IR_Type \<Rightarrow> IR_Type" where
  "get_relop_anti relop =
     (case List.find (\<lambda>e. fst e = relop) relop_dict of
       Some e \<Rightarrow> snd (snd e)
     | None \<Rightarrow> IR_NOP)"

definition get_relop :: "string \<Rightarrow> IR_Type" where
  "get_relop s =
     (case List.find (\<lambda>e. fst (snd e) = s) relop_dict of
       Some e \<Rightarrow> fst e
     | None \<Rightarrow> IR_NOP)"

definition is_branch :: "IR \<Rightarrow> bool" where
  "is_branch ir \<longleftrightarrow> IR_BEQ \<le> ir_type ir \<and> ir_type ir \<le> IR_BNE"

definition can_jump :: "IR \<Rightarrow> bool" where
  "can_jump ir = (if is_branch ir then True else if ir_type ir = IR_JMP then True else False)"

text \<open>\<open>ir_format\<close> applied to the three arguments of the \<open>sprintf\<close>, in their order.\<close>

fun ir_format :: "IR_Type \<Rightarrow> string \<Rightarrow> string \<Rightarrow> string \<Rightarrow> string" where
  "ir_format IR_NOP a b c = []"
| "ir_format IR_LABEL a b c = a @ ''LABEL '' @ b @ '' :''"
| "ir_format IR_FUNC a b c = a @ ''FUNCTION '' @ b @ '' :''"
| "ir_format IR_ASSIGN a b c = a @ '' := '' @ b"
| "ir_format IR_ADD a b c = a @ '' := '' @ b @ '' + '' @ c"
| "ir_format IR_SUB a b c = a @ '' := '' @ b @ '' - '' @ c"
| "ir_format IR_MUL a b c = a @ '' := '' @ b @ '' * '' @ c"
| "ir_format IR_DIV a b c = a @ '' := '' @ b @ '' / '' @ c"
| "ir_format IR_ADDR a b c = a @ '' := &'' @ b"
| "ir_format IR_DEREF_R a b c = a @ '' := *'' @ b"
| "ir_format IR_DEREF_L a b c = a @ ''*'' @ b @ '' := '' @ c"
| "ir_format IR_JMP a b c = a @ ''GOTO '' @ b"
| "ir_format IR_BEQ a b c = ''IF '' @ a @ '' == '' @ b @ '' GOTO '' @ c"
| "ir_format IR_BLT a b c = ''IF '' @ a @ '' < '' @ b @ '' GOTO '' @ c"
| "ir_format IR_BLE a b c = ''IF '' @ a @ '' <= '' @ b @ '' GOTO '' @ c"
| "ir_format IR_BGT a b c = ''IF '' @ a @ '' > '' @ b @ '' GOTO '' @ c"
| "ir_format IR_BGE a b c = ''IF '' @ a @ '' >= '' @ b @ '' GOTO '' @ c"
| "ir_format IR_BNE a b c = ''IF '' @ a @ '' != '' @ b @ '' GOTO '' @ c"
| "ir_format IR_RET a b c = a @ ''RETURN '' @ b"
| "ir_format IR_DEC a b c = a @ ''DEC '' @ b @ '' '' @ c"
| "ir_format IR_ARG a b c = a @ ''ARG '' @ b"
| "ir_format IR_CALL a b c = a @ '' := CALL '' @ b"
| "ir_format IR_PARAM a b c = a @ ''PARAM '' @ b"
| "ir_format IR_READ a b c = ''READ '' @ a"
| "ir_format IR_WRITE a b c = a @ ''WRITE '' @ b"

text \<open>\<open>rt_s + 1\<close> skips the \<open>#\<close> of a constant; on an empty string it leaves the buffer's text.\<close>

definition ir_to_s :: "'a ope_state_scheme \<Rightarrow> IR \<Rightarrow> string option" where
  "ir_to_s st ir =
     do {
       rd_s \<leftarrow> print_operand st (ir_rd ir);
       rs_s \<leftarrow> print_operand st (ir_rs ir);
       rt_s \<leftarrow> print_operand st (ir_rt ir);
       if IR_BEQ \<le> ir_type ir \<and> ir_type ir \<le> IR_BNE then
         sprintf_buf 120 (ir_format (ir_type ir) rs_s rt_s rd_s)
       else if ir_type ir = IR_DEC then
         (if rt_s = [] then None else sprintf_buf 120 (ir_format (ir_type ir) rd_s rs_s (tl rt_s)))
       else
         sprintf_buf 120 (ir_format (ir_type ir) rd_s rs_s rt_s)
     }"

definition print_single_instr :: "'a ope_state_scheme \<Rightarrow> IR \<Rightarrow> string option" where
  "print_single_instr st ir =
     do {
       s \<leftarrow> ir_to_s st ir;
       Some (s @ (if ir_type ir \<noteq> IR_NOP then [CHR 0x0A] else []))
     }"

section \<open>Frame layout\<close>

definition MAP_SIZE :: nat where
  "MAP_SIZE = 4096"

fun frame_kind :: "Ope_Type \<Rightarrow> bool" where
  "frame_kind OPE_VAR = True"
| "frame_kind OPE_REF = True"
| "frame_kind OPE_TEMP = True"
| "frame_kind OPE_BOOL = True"
| "frame_kind OPE_ADDR = True"
| "frame_kind _ = False"

text \<open>
  One round of the loop over the three operands; \<open>cur\<close> is the operand of the function's
  \<open>IR_FUNC\<close> instruction, \<open>ex\<close> the static array \<open>exists\<close>.
\<close>

definition place_operand ::
  "nat option \<Rightarrow> nat option \<Rightarrow> (nat \<Rightarrow> bool) \<times> 'a ope_state_scheme \<Rightarrow> ((nat \<Rightarrow> bool) \<times> 'a ope_state_scheme) option" where
  "place_operand cur ptr s =
     (case ptr of
       None \<Rightarrow> Some s
     | Some p \<Rightarrow>
         (case s of (ex, st) \<Rightarrow>
           do {
             ope \<leftarrow> opes st p;
             if frame_kind (ope_type ope) then
               (if ope_index ope < MAP_SIZE then
                  (if \<not> ex (ope_index ope) then
                     do {
                       c \<leftarrow> cur;
                       f \<leftarrow> opes st c;
                       size \<leftarrow> cadd (ope_size f) (ope_size ope);
                       st \<leftarrow> update_ope c (ope_size_update (\<lambda>_. size)) st;
                       st \<leftarrow> update_ope p (ope_address_update (\<lambda>_. size)) st;
                       Some (ex(ope_index ope := True), st)
                     }
                   else Some (ex, st))
                else None)
             else Some (ex, st)
           }))"

fun place_operands ::
  "nat option \<Rightarrow> nat option list \<Rightarrow> (nat \<Rightarrow> bool) \<times> 'a ope_state_scheme \<Rightarrow> ((nat \<Rightarrow> bool) \<times> 'a ope_state_scheme) option" where
  "place_operands cur [] s = Some s"
| "place_operands cur (ptr # ptrs) s = do { s \<leftarrow> place_operand cur ptr s; place_operands cur ptrs s }"

definition param_check ::
  "IR \<Rightarrow> (nat \<Rightarrow> bool) \<Rightarrow> nat option \<Rightarrow> cint \<Rightarrow> 'a ope_state_scheme \<Rightarrow> ((nat \<Rightarrow> bool) \<times> cint \<times> 'a ope_state_scheme) option" where
  "param_check ir ex cur param_size st =
     do {
       c \<leftarrow> cur;
       f \<leftarrow> opes st c;
       n \<leftarrow> cadd (ope_nr_arg f) 1;
       st \<leftarrow> update_ope c (ope_nr_arg_update (\<lambda>_. n)) st;
       p \<leftarrow> ir_rs ir;
       a \<leftarrow> cneg param_size;
       st \<leftarrow> update_ope p (\<lambda>ope. ope\<lparr>ope_is_param := True, ope_address := a\<rparr>) st;
       ps \<leftarrow> cadd param_size 4;
       ope \<leftarrow> opes st p;
       if ope_index ope < MAP_SIZE then Some (ex(ope_index ope := True), ps, st) else None
     }"

fun in_func_from ::
  "IR list \<Rightarrow> (nat \<Rightarrow> bool) \<Rightarrow> nat option \<Rightarrow> cint \<Rightarrow> 'a ope_state_scheme \<Rightarrow> 'a ope_state_scheme option" where
  "in_func_from [] ex cur param_size st = Some st"
| "in_func_from (ir # buf) ex cur param_size st =
     (if ir_type ir = IR_FUNC then
        do {
          rs \<leftarrow> ir_rs ir;
          st \<leftarrow> update_ope rs (ope_size_update (\<lambda>_. 0)) st;
          in_func_from buf (\<lambda>_. False) (Some rs) 0 st
        }
      else if ir_type ir \<noteq> IR_PARAM then
        do {
          (ex, st) \<leftarrow> place_operands cur (ir_operands ir) (ex, st);
          st \<leftarrow> (if ir_type ir = IR_CALL \<or> ir_type ir = IR_READ \<or> ir_type ir = IR_WRITE then
                  do { c \<leftarrow> cur; update_ope c (ope_has_subroutine_update (\<lambda>_. True)) st }
                else Some st);
          in_func_from buf ex cur param_size st
        }
      else
        do {
          (ex, param_size, st) \<leftarrow> param_check ir ex cur param_size st;
          in_func_from buf ex cur param_size st
        })"

definition in_func_check :: "'a ir_state_scheme \<Rightarrow> 'a ir_state_scheme option" where
  "in_func_check st =
     in_func_from (instr_buffer st) (\<lambda>_. False) None 0 st"

section \<open>Replacement of operands\<close>

text \<open>The bits of \<open>RepOpeMode\<close>: \<open>REP_SRC\<close>, \<open>REP_DST\<close>, \<open>REP_BLK\<close>.\<close>

definition REP_SRC :: nat where "REP_SRC = 0"
definition REP_DST :: nat where "REP_DST = 1"
definition REP_BLK :: nat where "REP_BLK = 2"

definition replace_in_instr :: "nat option \<Rightarrow> nat option \<Rightarrow> nat \<Rightarrow> IR \<Rightarrow> IR \<times> nat" where
  "replace_in_instr newbie old mode ir =
     (if ir_type ir = IR_NOP then (ir, 0)
      else
        let src = bit mode REP_SRC;
            dst = bit mode REP_DST;
            hit_rs = (ir_rs ir = old \<and> src);
            hit_rt = (ir_rt ir = old \<and> src);
            hit_rd = (ir_rd ir = old \<and> dst);
            ir = (if hit_rs then ir\<lparr>ir_rs := newbie\<rparr> else ir);
            ir = (if hit_rt then ir\<lparr>ir_rt := newbie\<rparr> else ir);
            ir = (if hit_rd then ir\<lparr>ir_rd := newbie\<rparr> else ir)
        in (ir, of_bool hit_rs + of_bool hit_rt + of_bool hit_rd))"

definition replace_operand ::
  "nat option \<Rightarrow> nat option \<Rightarrow> nat \<Rightarrow> 'a ir_state_scheme \<Rightarrow> nat \<times> 'a ir_state_scheme" where
  "replace_operand newbie old mode st =
     (let rs = map (replace_in_instr newbie old mode) (instr_buffer st)
      in (sum_list (map snd rs), st\<lparr>instr_buffer := map fst rs\<rparr>))"

definition replace_operand_global ::
  "nat option \<Rightarrow> nat option \<Rightarrow> 'a ir_state_scheme \<Rightarrow> nat \<times> 'a ir_state_scheme" where
  "replace_operand_global newbie old st =
     replace_operand newbie old (set_bit REP_SRC (set_bit REP_DST (set_bit REP_BLK 0))) st"

section \<open>The peephole pass\<close>

definition deref_label :: "nat \<Rightarrow> 'a ir_state_scheme \<Rightarrow> 'a ir_state_scheme option" where
  "deref_label i st =
     do {
       ir \<leftarrow> array_get (instr_buffer st) i;
       _ \<leftarrow> c_assert (ir_type ir = IR_LABEL);
       p \<leftarrow> ir_rs ir;
       st \<leftarrow> update_ope p (ope_label_ref_cnt_update (\<lambda>c. c - 1)) st;
       ope \<leftarrow> opes st p;
       if ope_label_ref_cnt ope = 0 then
         do {
           st \<leftarrow> free_operand (Some p) st;
           Some (st\<lparr>instr_buffer := (instr_buffer st)[i := ir\<lparr>ir_type := IR_NOP, ir_rs := None\<rparr>]\<rparr>)
         }
       else Some st
     }"

text \<open>\<open>compress_ir\<close>: the in-place loop over \<open>index\<close> with the write position \<open>size\<close>.\<close>

function compress_loop :: "IR list \<Rightarrow> nat \<Rightarrow> nat \<Rightarrow> nat \<Rightarrow> IR list \<times> nat" where
  "compress_loop buf n index sz =
     (if index < n then
        (if ir_type (buf ! index) \<noteq> IR_NOP
         then compress_loop (buf[sz := buf ! index]) n (Suc index) (Suc sz)
         else compress_loop buf n (Suc index) sz)
      else (buf, sz))"
  by pat_completeness auto
termination
  by (relation "measure (\<lambda>(buf, n, index, sz). n - index)") auto

declare compress_loop.simps [simp del]

definition compress_ir :: "IR list \<Rightarrow> nat \<Rightarrow> IR list \<times> nat" where
  "compress_ir buf n = compress_loop buf n 0 0"

text \<open>First loop of \<open>preprocess_ir\<close>: count the references to each label.\<close>

fun count_refs :: "IR list \<Rightarrow> 'a ope_state_scheme \<Rightarrow> 'a ope_state_scheme option" where
  "count_refs [] st = Some st"
| "count_refs (ir # irs) st =
     (if is_branch ir then
        do { p \<leftarrow> ir_rd ir; st \<leftarrow> update_ope p (ope_label_ref_cnt_update (\<lambda>c. c + 1)) st; count_refs irs st }
      else if ir_type ir = IR_JMP then
        do { p \<leftarrow> ir_rs ir; st \<leftarrow> update_ope p (ope_label_ref_cnt_update (\<lambda>c. c + 1)) st; count_refs irs st }
      else count_refs irs st)"

text \<open>
  Second loop: \<open>IF c GOTO L0; GOTO L1; LABEL L0\<close> becomes \<open>IF !c GOTO L1; NOP; LABEL L0\<close>,
  and \<open>GOTO L; LABEL L\<close> loses the jump. A label whose count drops to 0 is removed.
\<close>

definition peephole_at :: "nat \<Rightarrow> 'a ir_state_scheme \<Rightarrow> 'a ir_state_scheme option" where
  "peephole_at i st =
     do {
       a \<leftarrow> array_get (instr_buffer st) i;
       b \<leftarrow> array_get (instr_buffer st) (i + 1);
       c \<leftarrow> array_get (instr_buffer st) (i + 2);
       if is_branch a \<and> ir_type b = IR_JMP \<and> ir_type c = IR_LABEL \<and> ir_rd a = ir_rs c then
         do {
           let st = st\<lparr>instr_buffer := (instr_buffer st)[i := a\<lparr>ir_type := get_relop_anti (ir_type a)\<rparr>]\<rparr>;
           st \<leftarrow> deref_label (i + 2) st;
           let st = st\<lparr>instr_buffer := (instr_buffer st)
                 [i := a\<lparr>ir_type := get_relop_anti (ir_type a), ir_rd := ir_rs b\<rparr>]\<rparr>;
           Some (st\<lparr>instr_buffer := (instr_buffer st)[i + 1 := b\<lparr>ir_type := IR_NOP\<rparr>]\<rparr>)
         }
       else if ir_type a = IR_JMP \<and> ir_type b = IR_LABEL \<and> ir_rs b = ir_rs a then
         deref_label (i + 1) (st\<lparr>instr_buffer := (instr_buffer st)[i := a\<lparr>ir_type := IR_NOP\<rparr>]\<rparr>)
       else Some st
     }"

primrec peephole_loop :: "nat \<Rightarrow> nat \<Rightarrow> 'a ir_state_scheme \<Rightarrow> 'a ir_state_scheme option" where
  "peephole_loop 0 i st = Some st"
| "peephole_loop (Suc k) i st = do { st \<leftarrow> peephole_at i st; peephole_loop k (Suc i) st }"

text \<open>
  Third loop: a run of labels becomes its first one. \<open>pre\<close> is the position of \<open>preLabel\<close>.
\<close>

definition merge_at ::
  "nat \<Rightarrow> nat option \<Rightarrow> 'a ir_state_scheme \<Rightarrow> (nat option \<times> 'a ir_state_scheme) option" where
  "merge_at i pre st =
     do {
       ir \<leftarrow> array_get (instr_buffer st) i;
       if ir_type ir = IR_LABEL \<and> pre = None then Some (Some i, st)
       else if ir_type ir \<noteq> IR_LABEL then Some (None, st)
       else
         do {
           j \<leftarrow> pre;
           q \<leftarrow> ir_rs (instr_buffer st ! j);
           p \<leftarrow> ir_rs ir;
           ope \<leftarrow> opes st p;
           st \<leftarrow> update_ope q (ope_label_ref_cnt_update (\<lambda>c. c + ope_label_ref_cnt ope)) st;
           let st = snd (replace_operand_global (Some q) (Some p) st);
           Some (pre, st\<lparr>instr_buffer :=
             (instr_buffer st)[i := (instr_buffer st ! i)\<lparr>ir_type := IR_NOP, ir_rs := None\<rparr>]\<rparr>)
         }
     }"

primrec merge_loop :: "nat \<Rightarrow> nat \<Rightarrow> nat option \<Rightarrow> 'a ir_state_scheme \<Rightarrow> 'a ir_state_scheme option" where
  "merge_loop 0 i pre st = Some st"
| "merge_loop (Suc k) i pre st = do { (pre, st) \<leftarrow> merge_at i pre st; merge_loop k (Suc i) pre st }"

definition preprocess_ir :: "'a ir_state_scheme \<Rightarrow> 'a ir_state_scheme option" where
  "preprocess_ir st =
     do {
       st \<leftarrow> count_refs (instr_buffer st) st;
       st \<leftarrow> peephole_loop (nr_instr st - 2) 0 st;
       st \<leftarrow> merge_loop (nr_instr st) 0 None st;
       let (buf, n) = compress_ir (instr_buffer st) (nr_instr st);
       Some (st\<lparr>instr_buffer := take n buf\<rparr>)
     }"

section \<open>Liveness in a block\<close>

text \<open>The first loop of \<open>optimize_liveness\<close>, one operand.\<close>

definition init_liveness :: "nat option \<Rightarrow> 'a ope_state_scheme \<Rightarrow> 'a ope_state_scheme option" where
  "init_liveness ptr st =
     (case ptr of
       None \<Rightarrow> Some st
     | Some p \<Rightarrow>
         update_ope p (\<lambda>ope. ope\<lparr>ope_liveness := ope_type ope = OPE_VAR \<or> ope_type ope = OPE_BOOL,
           ope_next_use := int MAX_LINE\<rparr>) st)"

fun init_all :: "nat option list \<Rightarrow> 'a ope_state_scheme \<Rightarrow> 'a ope_state_scheme option" where
  "init_all [] st = Some st"
| "init_all (ptr # ptrs) st = do { st \<leftarrow> init_liveness ptr st; init_all ptrs st }"

fun init_loop :: "nat list \<Rightarrow> 'a ir_state_scheme \<Rightarrow> 'a ir_state_scheme option" where
  "init_loop [] st = Some st"
| "init_loop (i # is) st =
     do {
       ir \<leftarrow> array_get (instr_buffer st) i;
       st \<leftarrow> init_all (ir_operands ir) st;
       init_loop is st
     }"

text \<open>The second loop: save the current state of the operands, then update it backwards.\<close>

definition save_info :: "'a ope_state_scheme \<Rightarrow> nat option \<Rightarrow> OptimizeInfo \<Rightarrow> OptimizeInfo option" where
  "save_info st ptr info =
     (case ptr of
       None \<Rightarrow> Some info
     | Some p \<Rightarrow>
         do { ope \<leftarrow> opes st p;
              Some \<lparr>info_liveness = ope_liveness ope, info_next_use = ope_next_use ope\<rparr> })"

definition mark_tmp :: "nat option \<Rightarrow> bool \<Rightarrow> int \<Rightarrow> 'a ope_state_scheme \<Rightarrow> 'a ope_state_scheme option" where
  "mark_tmp ptr live use st =
     (case ptr of
       None \<Rightarrow> Some st
     | Some p \<Rightarrow>
         do {
           ope \<leftarrow> opes st p;
           if is_tmp (Some ope)
           then update_ope p (\<lambda>ope. ope\<lparr>ope_liveness := live, ope_next_use := use\<rparr>) st
           else Some st
         })"

definition NO_USE :: int where
  "NO_USE = - 1"

definition liveness_at :: "nat \<Rightarrow> 'a ir_state_scheme \<Rightarrow> 'a ir_state_scheme option" where
  "liveness_at i st =
     do {
       ir \<leftarrow> array_get (instr_buffer st) i;
       rd \<leftarrow> save_info st (ir_rd ir) (rd_info ir);
       rs \<leftarrow> save_info st (ir_rs ir) (rs_info ir);
       rt \<leftarrow> save_info st (ir_rt ir) (rt_info ir);
       let st = st\<lparr>instr_buffer := (instr_buffer st)[i := ir\<lparr>rd_info := rd, rs_info := rs, rt_info := rt\<rparr>]\<rparr>;
       st \<leftarrow> mark_tmp (ir_rd ir) False NO_USE st;
       st \<leftarrow> mark_tmp (ir_rs ir) True (int i) st;
       mark_tmp (ir_rt ir) True (int i) st
     }"

fun liveness_loop :: "nat list \<Rightarrow> 'a ir_state_scheme \<Rightarrow> 'a ir_state_scheme option" where
  "liveness_loop [] st = Some st"
| "liveness_loop (i # is) st = do { st \<leftarrow> liveness_at i st; liveness_loop is st }"

definition optimize_liveness :: "nat \<Rightarrow> nat \<Rightarrow> 'a ir_state_scheme \<Rightarrow> 'a ir_state_scheme option" where
  "optimize_liveness start stop st =
     do {
       st \<leftarrow> init_loop (rev [start..<stop]) st;
       liveness_loop (rev [start..<stop]) st
     }"

end
