(* ===== verification/Frame.thy ===== *)
theory Frame
  imports IR
begin

text \<open>
  What \<open>in_func_check\<close> computes: the slots of the operands in the frame of a function. The
  parameters lie above the frame pointer in their order, four bytes each; every other operand of
  the function has a slot of its own inside the frame.
\<close>

section \<open>Updates of one operand\<close>

lemma update_ope_Some:
  "update_ope p f st = Some st' \<longleftrightarrow> (\<exists>a. opes st p = Some a \<and> st' = st\<lparr>opes := (opes st)(p \<mapsto> f a)\<rparr>)"
  by (auto simp: update_ope_def bind_Some_iff)

lemma cadd_sint: "cadd a b = Some c \<Longrightarrow> sint c = sint a + sint b"
  by (simp add: cadd_eq_Some)

lemma frame_kind_numbered: "frame_kind t \<longleftrightarrow> numbered t"
  by (cases t) (auto simp: numbered_def)

text \<open>Two live numbered operands with one index are the same.\<close>

lemma ope_wf_index:
  assumes "ope_wf st" and "opes st p = Some a" and "opes st q = Some b"
    and "frame_kind (ope_type a)" and "frame_kind (ope_type b)" and "ope_index a = ope_index b"
  shows "p = q"
  using assms unfolding ope_wf_def frame_kind_numbered by blast

section \<open>The invariant of the pass over a function\<close>

definition disjoint_slots :: "Operand_ \<Rightarrow> Operand_ \<Rightarrow> bool" where
  "disjoint_slots a b \<longleftrightarrow>
     sint (ope_address a) \<le> sint (ope_address b) - sint (ope_size b) \<or>
     sint (ope_address b) \<le> sint (ope_address a) - sint (ope_size a)"

definition in_frame :: "Operand_ \<Rightarrow> Operand_ \<Rightarrow> bool" where
  "in_frame f a \<longleftrightarrow>
     0 \<le> sint (ope_size a) \<and> sint (ope_size a) \<le> sint (ope_address a) \<and>
     sint (ope_address a) \<le> sint (ope_size f)"

definition nonneg_sizes :: "'a ope_state_scheme \<Rightarrow> bool" where
  "nonneg_sizes st \<longleftrightarrow>
     (\<forall>p a. opes st p = Some a \<longrightarrow> frame_kind (ope_type a) \<longrightarrow> 0 \<le> sint (ope_size a))"

text \<open>\<open>P\<close> holds the parameters, \<open>Q\<close> the operands placed so far, \<open>c\<close> is the function.\<close>

record frame_view =
  fv_func :: nat
  fv_params :: "nat set"
  fv_locals :: "nat set"

definition frame_inv :: "frame_view \<Rightarrow> (nat \<Rightarrow> bool) \<Rightarrow> 'a ope_state_scheme \<Rightarrow> bool" where
  "frame_inv v ex st \<longleftrightarrow>
     ope_wf st \<and> nonneg_sizes st \<and> fv_params v \<inter> fv_locals v = {} \<and>
     (\<exists>f. opes st (fv_func v) = Some f \<and> ope_type f = OPE_FUNC \<and> 0 \<le> sint (ope_size f) \<and>
       (\<forall>p \<in> fv_locals v. \<forall>a. opes st p = Some a \<longrightarrow> in_frame f a)) \<and>
     (\<forall>p \<in> fv_locals v. \<forall>q \<in> fv_locals v. \<forall>a b. p \<noteq> q \<longrightarrow> opes st p = Some a \<longrightarrow> opes st q = Some b \<longrightarrow>
        disjoint_slots a b) \<and>
     (\<forall>p \<in> fv_params v \<union> fv_locals v. \<exists>a. opes st p = Some a \<and> frame_kind (ope_type a) \<and> ex (ope_index a)) \<and>
     (\<forall>i. ex i \<longrightarrow> (\<exists>p \<in> fv_params v \<union> fv_locals v. \<exists>a. opes st p = Some a \<and> ope_index a = i))"

lemma frame_inv_used:
  assumes "frame_inv v ex st" and "ex i"
  obtains p a where "p \<in> fv_params v \<union> fv_locals v" and "opes st p = Some a" and "ope_index a = i"
  using assms unfolding frame_inv_def by meson

lemma frame_inv_placed:
  assumes "frame_inv v ex st" and "p \<in> fv_params v \<union> fv_locals v"
  obtains a where "opes st p = Some a" and "frame_kind (ope_type a)" and "ex (ope_index a)"
  using assms unfolding frame_inv_def by meson

lemma frame_inv_func:
  assumes "frame_inv v ex st"
  obtains f where "opes st (fv_func v) = Some f" and "ope_type f = OPE_FUNC" and "0 \<le> sint (ope_size f)"
    and "\<And>p a. p \<in> fv_locals v \<Longrightarrow> opes st p = Some a \<Longrightarrow> in_frame f a"
  using assms unfolding frame_inv_def by meson

text \<open>The heap after a new slot: the function grows, the operand gets the new end.\<close>

lemma frame_inv_place:
  fixes st :: "'a ope_state_scheme"
  assumes inv: "frame_inv v ex st" and a: "opes st p = Some a" "frame_kind (ope_type a)" "\<not> ex (ope_index a)"
    and f: "opes st (fv_func v) = Some f" and sz: "cadd (ope_size f) (ope_size a) = Some sz"
  defines "st' \<equiv> st\<lparr>opes := (opes st)(fv_func v \<mapsto> f\<lparr>ope_size := sz\<rparr>, p \<mapsto> a\<lparr>ope_address := sz\<rparr>)\<rparr>"
  shows "frame_inv (v\<lparr>fv_locals := insert p (fv_locals v)\<rparr>) (ex(ope_index a := True)) st'"
proof -
  let ?c = "fv_func v"
  have f': "ope_type f = OPE_FUNC" "0 \<le> sint (ope_size f)"
    and fr: "\<And>q b. q \<in> fv_locals v \<Longrightarrow> opes st q = Some b \<Longrightarrow> in_frame f b"
    using inv f unfolding frame_inv_def by auto
  have ope: "\<exists>b. opes st q = Some b \<and> frame_kind (ope_type b) \<and> ex (ope_index b)"
    if "q \<in> fv_params v \<union> fv_locals v" for q
    using inv that unfolding frame_inv_def by blast
  have pc: "p \<noteq> ?c" using a f f' by auto
  have qc: "q \<noteq> ?c \<and> q \<noteq> p" if "q \<in> fv_params v \<union> fv_locals v" for q
    using ope [OF that] f f' a by auto
  have old: "opes st' q = opes st q" if "q \<in> fv_params v \<union> fv_locals v" for q
    using qc [OF that] by (simp add: st'_def)
  have new: "opes st' p = Some (a\<lparr>ope_address := sz\<rparr>)" "opes st' ?c = Some (f\<lparr>ope_size := sz\<rparr>)"
    using pc by (simp_all add: st'_def)
  have size_a: "0 \<le> sint (ope_size a)" using inv a by (auto simp: frame_inv_def nonneg_sizes_def)
  note sz' = cadd_sint [OF sz]
  have "ope_wf st'"
    using inv a f pc unfolding frame_inv_def
    by (intro ope_wf_transfer [of st st']) (auto simp: st'_def split: if_splits)
  moreover have "nonneg_sizes st'"
    using inv a f f' pc size_a unfolding frame_inv_def nonneg_sizes_def st'_def by (auto split: if_splits)
  moreover have "fv_params v \<inter> insert p (fv_locals v) = {}"
    using inv qc unfolding frame_inv_def by blast
  moreover have "in_frame (f\<lparr>ope_size := sz\<rparr>) b" if "q \<in> insert p (fv_locals v)" "opes st' q = Some b" for q b
    using that old [of q] fr [of q b] new(1) sz' size_a f' by (cases "q = p") (auto simp: in_frame_def)
  moreover have "disjoint_slots b d"
    if "q \<in> insert p (fv_locals v)" "r \<in> insert p (fv_locals v)" "q \<noteq> r" "opes st' q = Some b" "opes st' r = Some d" for q r b d
  proof -
    have out: "disjoint_slots x (a\<lparr>ope_address := sz\<rparr>)" "disjoint_slots (a\<lparr>ope_address := sz\<rparr>) x"
      if "w \<in> fv_locals v" "opes st w = Some x" for w x
      using fr [OF that] sz' by (auto simp: disjoint_slots_def in_frame_def)
    have "disjoint_slots b d" if "q \<in> fv_locals v" "r \<in> fv_locals v"
      using inv that \<open>q \<noteq> r\<close> \<open>opes st' q = Some b\<close> \<open>opes st' r = Some d\<close> old
      unfolding frame_inv_def by auto
    with that out old new(1) show ?thesis by (cases "q = p"; cases "r = p") auto
  qed
  moreover have "\<exists>b. opes st' q = Some b \<and> frame_kind (ope_type b) \<and> (ex(ope_index a := True)) (ope_index b)"
    if "q \<in> fv_params v \<union> insert p (fv_locals v)" for q
    using that ope [of q] old [of q] new(1) a(2) by (cases "q = p") auto
  moreover have "\<exists>q \<in> fv_params v \<union> insert p (fv_locals v). \<exists>b. opes st' q = Some b \<and> ope_index b = i"
    if "(ex(ope_index a := True)) i" for i
  proof (cases "i = ope_index a")
    case True
    with new(1) show ?thesis by auto
  next
    case False
    with that have "ex i" by simp
    with inv obtain q b where "q \<in> fv_params v \<union> fv_locals v" "opes st q = Some b" "ope_index b = i"
      by (rule frame_inv_used)
    with old show ?thesis by (auto intro!: bexI [of _ q])
  qed
  ultimately show ?thesis
    unfolding frame_inv_def using new(2) f' sz' size_a by auto
qed

lemma place_operand_inv:
  assumes inv: "frame_inv v ex st"
    and run: "place_operand (Some (fv_func v)) ptr (ex, st) = Some (ex', st')"
  obtains Q where "frame_inv (v\<lparr>fv_locals := Q\<rparr>) ex' st'" and "fv_locals v \<subseteq> Q"
    and "\<And>p a. ptr = Some p \<Longrightarrow> opes st p = Some a \<Longrightarrow> frame_kind (ope_type a) \<Longrightarrow> p \<in> fv_params v \<union> Q"
    and "\<And>p. p \<in> fv_params v \<Longrightarrow> opes st' p = opes st p"
    and "\<And>p. map_option ope_type (opes st' p) = map_option ope_type (opes st p)"
proof (cases "\<exists>p a. ptr = Some p \<and> opes st p = Some a \<and> frame_kind (ope_type a) \<and> \<not> ex (ope_index a)")
  case False
  then have "ex' = ex" "st' = st"
    using run by (auto simp: place_operand_def bind_Some_iff split: option.splits if_splits)
  moreover have "p \<in> fv_params v \<union> fv_locals v" if "ptr = Some p" "opes st p = Some a" "frame_kind (ope_type a)" for p a
  proof -
    from that False have "ex (ope_index a)" by auto
    with inv obtain q b where q: "q \<in> fv_params v \<union> fv_locals v" "opes st q = Some b" "ope_index b = ope_index a"
      by (rule frame_inv_used)
    have "frame_kind (ope_type b)" using frame_inv_placed [OF inv q(1)] q(2) by auto
    with q that ope_wf_index [of st q b p a] inv show ?thesis unfolding frame_inv_def by auto
  qed
  ultimately show ?thesis using inv by (intro that [of "fv_locals v"]) auto
next
  case True
  then obtain p a where a: "ptr = Some p" "opes st p = Some a" "frame_kind (ope_type a)" "\<not> ex (ope_index a)" by blast
  from inv obtain f where f: "opes st (fv_func v) = Some f" "ope_type f = OPE_FUNC" unfolding frame_inv_def by blast
  have pc: "p \<noteq> fv_func v" using a f by auto
  from run a f pc obtain sz where sz: "cadd (ope_size f) (ope_size a) = Some sz"
    and st': "st' = st\<lparr>opes := (opes st)(fv_func v \<mapsto> f\<lparr>ope_size := sz\<rparr>, p \<mapsto> a\<lparr>ope_address := sz\<rparr>)\<rparr>"
      "ex' = ex(ope_index a := True)"
    by (auto simp: place_operand_def bind_Some_iff update_ope_def split: if_splits)
  have par: "q \<noteq> fv_func v \<and> q \<noteq> p" if "q \<in> fv_params v" for q
    using frame_inv_placed [OF inv, of q] that a f by force
  from frame_inv_place [OF inv a(2-4) f(1) sz] st' a f par show ?thesis
    by (intro that [of "insert p (fv_locals v)"]) auto
qed

text \<open>
  What a piece of the pass establishes: the invariant with more locals, every operand of \<open>ptrs\<close>
  placed, the parameters untouched.
\<close>

definition placed :: "frame_view \<Rightarrow> 'a ope_state_scheme \<Rightarrow> nat option set \<Rightarrow> nat set \<Rightarrow> 'a ope_state_scheme \<Rightarrow> bool" where
  "placed v st ptrs Q st' \<longleftrightarrow>
     fv_locals v \<subseteq> Q \<and>
     (\<forall>p a. Some p \<in> ptrs \<longrightarrow> opes st p = Some a \<longrightarrow> frame_kind (ope_type a) \<longrightarrow> p \<in> fv_params v \<union> Q) \<and>
     (\<forall>p. p \<in> fv_params v \<longrightarrow> opes st' p = opes st p) \<and>
     (\<forall>p. map_option ope_type (opes st' p) = map_option ope_type (opes st p))"

lemma placed_refl: "placed v st {} (fv_locals v) st"
  by (simp add: placed_def)

lemma placed_trans:
  assumes 1: "placed v st A Q st1" and 2: "placed (v\<lparr>fv_locals := Q\<rparr>) st1 B R st2"
  shows "placed v st (A \<union> B) R st2"
proof -
  have "p \<in> fv_params v \<union> R" if p: "Some p \<in> A \<union> B" "opes st p = Some a" "frame_kind (ope_type a)" for p a
  proof -
    have "map_option ope_type (opes st1 p) = Some (ope_type a)" using 1 p(2) by (simp add: placed_def)
    then obtain b where "opes st1 p = Some b" "ope_type b = ope_type a" by auto
    with 1 2 p show ?thesis by (auto simp: placed_def)
  qed
  with 1 2 show ?thesis by (auto simp: placed_def)
qed

lemma placed_mono: "placed v st A Q st' \<Longrightarrow> B \<subseteq> A \<Longrightarrow> placed v st B Q st'"
  by (auto simp: placed_def)

lemma place_operand_placed:
  assumes "frame_inv v ex st" and "place_operand (Some (fv_func v)) ptr (ex, st) = Some (ex', st')"
  shows "\<exists>Q. frame_inv (v\<lparr>fv_locals := Q\<rparr>) ex' st' \<and> placed v st {ptr} Q st'"
  using assms by (rule place_operand_inv) (auto simp: placed_def)

lemma place_operands_placed:
  assumes "frame_inv v ex st" and "place_operands (Some (fv_func v)) ptrs (ex, st) = Some (ex', st')"
  shows "\<exists>Q. frame_inv (v\<lparr>fv_locals := Q\<rparr>) ex' st' \<and> placed v st (set ptrs) Q st'"
  using assms
proof (induction ptrs arbitrary: v ex st)
  case Nil
  have "v\<lparr>fv_locals := fv_locals v\<rparr> = v" by simp
  with Nil show ?case by (intro exI [of _ "fv_locals v"]) (simp add: placed_refl)
next
  case (Cons ptr ptrs)
  from Cons.prems(2) obtain ex1 st1 where
    1: "place_operand (Some (fv_func v)) ptr (ex, st) = Some (ex1, st1)" and
    2: "place_operands (Some (fv_func v)) ptrs (ex1, st1) = Some (ex', st')"
    by (auto simp: bind_Some_iff)
  from place_operand_placed [OF Cons.prems(1) 1] obtain Q where
    Q: "frame_inv (v\<lparr>fv_locals := Q\<rparr>) ex1 st1" "placed v st {ptr} Q st1" by blast
  from Cons.IH [OF Q(1)] 2 obtain R where
    R: "frame_inv (v\<lparr>fv_locals := R\<rparr>) ex' st'" "placed (v\<lparr>fv_locals := Q\<rparr>) st1 (set ptrs) R st'" by auto
  from placed_trans [OF Q(2) R(2)] R(1) show ?case by auto
qed

text \<open>A store to the function that keeps its kind and size changes nothing here.\<close>

lemma frame_inv_func_store:
  assumes inv: "frame_inv v ex st" and upd: "update_ope (fv_func v) g st = Some st'"
    and g: "\<And>x. ope_type (g x) = ope_type x \<and> ope_index (g x) = ope_index x \<and> ope_label (g x) = ope_label x \<and> ope_size (g x) = ope_size x"
  shows "frame_inv v ex st' \<and> placed v st {} (fv_locals v) st'"
proof -
  from upd obtain f where f: "opes st (fv_func v) = Some f" and st': "st' = st\<lparr>opes := (opes st)(fv_func v \<mapsto> g f)\<rparr>"
    by (auto simp: update_ope_Some)
  have ft: "ope_type f = OPE_FUNC" using inv f unfolding frame_inv_def by auto
  have ne: "p \<noteq> fv_func v" if "p \<in> fv_params v \<union> fv_locals v" for p
    using frame_inv_placed [OF inv that] f ft by force
  have old: "opes st' p = opes st p" if "p \<in> fv_params v \<union> fv_locals v" for p
    using ne [OF that] by (simp add: st')
  have "ope_wf st'"
    using inv f g unfolding frame_inv_def
    by (intro ope_wf_transfer [of st st']) (auto simp: st' split: if_splits)
  moreover have "nonneg_sizes st'"
    using inv f g ft unfolding frame_inv_def nonneg_sizes_def st' by (auto split: if_splits)
  moreover have "opes st' (fv_func v) = Some (g f)" "ope_type (g f) = OPE_FUNC" "ope_size (g f) = ope_size f"
    using g ft by (simp_all add: st')
  ultimately show ?thesis
    using inv f old g unfolding frame_inv_def placed_def by (auto simp: in_frame_def st')
qed

section \<open>The body of a function\<close>

definition body_operands :: "IR list \<Rightarrow> nat option set" where
  "body_operands body = (\<Union>ir \<in> set body. set (ir_operands ir))"

definition body_instr :: "IR \<Rightarrow> bool" where
  "body_instr ir \<longleftrightarrow> ir_type ir \<noteq> IR_FUNC \<and> ir_type ir \<noteq> IR_PARAM"

lemma body_placed:
  assumes "frame_inv v ex st" and "\<forall>ir\<in>set body. body_instr ir"
    and "in_func_from body ex (Some (fv_func v)) ps st = Some st'"
  shows "\<exists>Q ex'. frame_inv (v\<lparr>fv_locals := Q\<rparr>) ex' st' \<and> placed v st (body_operands body) Q st'"
  using assms
proof (induction body arbitrary: v ex st)
  case Nil
  have "v\<lparr>fv_locals := fv_locals v\<rparr> = v" by simp
  with Nil show ?case
    by (intro exI [of _ "fv_locals v"] exI [of _ ex]) (simp add: placed_refl body_operands_def)
next
  case (Cons ir body)
  from Cons.prems(2,3) obtain ex1 st1 st2 where
    1: "place_operands (Some (fv_func v)) (ir_operands ir) (ex, st) = Some (ex1, st1)" and
    2: "st2 = st1 \<or> update_ope (fv_func v) (ope_has_subroutine_update (\<lambda>_. True)) st1 = Some st2" and
    3: "in_func_from body ex1 (Some (fv_func v)) ps st2 = Some st'"
    by (auto simp: body_instr_def bind_Some_iff split: if_splits)
  from place_operands_placed [OF Cons.prems(1) 1] obtain Q where
    Q: "frame_inv (v\<lparr>fv_locals := Q\<rparr>) ex1 st1" "placed v st (set (ir_operands ir)) Q st1" by blast
  have s2: "frame_inv (v\<lparr>fv_locals := Q\<rparr>) ex1 st2 \<and> placed (v\<lparr>fv_locals := Q\<rparr>) st1 {} Q st2"
    using 2 Q(1) frame_inv_func_store [OF Q(1)] placed_refl [of "v\<lparr>fv_locals := Q\<rparr>" st1] by auto
  from Cons.IH [of "v\<lparr>fv_locals := Q\<rparr>" ex1 st2] s2 3 Cons.prems(2) obtain R ex' where
    R: "frame_inv (v\<lparr>fv_locals := R\<rparr>) ex' st'" "placed (v\<lparr>fv_locals := Q\<rparr>) st2 (body_operands body) R st'"
    by auto
  have "placed (v\<lparr>fv_locals := Q\<rparr>) st1 (body_operands body) R st'"
    using placed_trans [of "v\<lparr>fv_locals := Q\<rparr>" st1 "{}" Q st2 "body_operands body" R st'] s2 R(2) by simp
  from placed_trans [OF Q(2) this] R(1) show ?case
    by (auto simp: body_operands_def)
qed

section \<open>The parameters\<close>

definition param_instr :: "IR \<Rightarrow> nat \<Rightarrow> bool" where
  "param_instr ir p \<longleftrightarrow> ir_type ir = IR_PARAM \<and> ir_rs ir = Some p"

text \<open>One \<open>PARAM\<close> instruction on an operand that is not yet in the frame.\<close>

lemma param_check_inv:
  fixes st :: "'a ope_state_scheme"
  assumes inv: "frame_inv v ex st" and loc: "fv_locals v = {}"
    and run: "param_check ir ex (Some (fv_func v)) ps st = Some (ex', ps', st')"
    and p: "ir_rs ir = Some p" "opes st p = Some a" "frame_kind (ope_type a)" "p \<notin> fv_params v"
  shows "frame_inv (v\<lparr>fv_params := insert p (fv_params v)\<rparr>) ex' st' \<and>
    sint ps' = sint ps + 4 \<and> (\<exists>b. opes st' p = Some b \<and> sint (ope_address b) = - sint ps \<and> ope_is_param b) \<and>
    (\<forall>q. q \<noteq> p \<longrightarrow> q \<noteq> fv_func v \<longrightarrow> opes st' q = opes st q) \<and>
    (\<forall>q. map_option ope_type (opes st' q) = map_option ope_type (opes st q))"
proof -
  from inv obtain f where f: "opes st (fv_func v) = Some f" "ope_type f = OPE_FUNC" "0 \<le> sint (ope_size f)"
    by (rule frame_inv_func)
  have pc: "p \<noteq> fv_func v" using p f by auto
  from run f p pc obtain n ad where n: "cadd (ope_nr_arg f) 1 = Some n" and ad: "cneg ps = Some ad"
    and ps': "cadd ps 4 = Some ps'" and ex': "ex' = ex(ope_index a := True)"
    and st': "st' = st\<lparr>opes := (opes st)(fv_func v \<mapsto> f\<lparr>ope_nr_arg := n\<rparr>, p \<mapsto> a\<lparr>ope_is_param := True, ope_address := ad\<rparr>)\<rparr>"
    by (auto simp: param_check_def bind_Some_iff update_ope_def split: if_splits)
  have ad': "sint ad = - sint ps" using ad by (simp add: cneg_def to_cint_eq_Some)
  have s4: "sint ps' = sint ps + 4" using cadd_sint [OF ps'] by simp
  have ne: "q \<noteq> fv_func v \<and> q \<noteq> p" if "q \<in> fv_params v" for q
    using frame_inv_placed [OF inv, of q] that f p by force
  have "ope_wf st'"
    using inv f p unfolding frame_inv_def
    by (intro ope_wf_transfer [of st st']) (auto simp: st' split: if_splits)
  moreover have "nonneg_sizes st'"
    using inv f p pc unfolding frame_inv_def nonneg_sizes_def st' by (auto split: if_splits)
  moreover have "\<exists>b. opes st' q = Some b \<and> frame_kind (ope_type b) \<and> ex' (ope_index b)"
    if "q \<in> insert p (fv_params v)" for q
  proof (cases "q = p")
    case True
    with p show ?thesis by (simp add: st' ex')
  next
    case False
    with that frame_inv_placed [OF inv, of q] ne [of q] show ?thesis by (auto simp: st' ex')
  qed
  moreover have "\<exists>q \<in> insert p (fv_params v). \<exists>b. opes st' q = Some b \<and> ope_index b = i" if "ex' i" for i
  proof (cases "i = ope_index a")
    case True
    then show ?thesis by (auto simp: st')
  next
    case False
    with that have "ex i" by (simp add: ex')
    from inv this obtain q b where "q \<in> fv_params v" "opes st q = Some b" "ope_index b = i"
      by (rule frame_inv_used) (auto simp: loc)
    with ne [of q] show ?thesis by (auto simp: st' intro!: bexI [of _ q])
  qed
  ultimately have "frame_inv (v\<lparr>fv_params := insert p (fv_params v)\<rparr>) ex' st'"
    using f pc loc unfolding frame_inv_def by (auto simp: st')
  with s4 ad' f p pc show ?thesis by (auto simp: st')
qed

text \<open>The \<open>i\<close>-th parameter is at \<open>- 4 * i\<close>, counting from \<open>k\<close>.\<close>

definition params_at :: "nat \<Rightarrow> nat list \<Rightarrow> 'a ope_state_scheme \<Rightarrow> bool" where
  "params_at k ps st \<longleftrightarrow>
     (\<forall>i < length ps. \<exists>a. opes st (ps ! i) = Some a \<and> ope_is_param a \<and> sint (ope_address a) = - 4 * int (k + i))"

lemma params_placed:
  assumes "frame_inv v ex st" and "fv_locals v = {}" and "list_all2 param_instr pars ps" and "distinct ps"
    and "set ps \<inter> fv_params v = {}"
    and "\<And>p. p \<in> set ps \<Longrightarrow> \<exists>a. opes st p = Some a \<and> frame_kind (ope_type a)"
    and "sint z = 4 * int k"
    and "in_func_from (pars @ body) ex (Some (fv_func v)) z st = Some st'"
  shows "\<exists>ex1 z1 st1. frame_inv (v\<lparr>fv_params := fv_params v \<union> set ps\<rparr>) ex1 st1 \<and> params_at k ps st1 \<and>
    in_func_from body ex1 (Some (fv_func v)) z1 st1 = Some st' \<and>
    (\<forall>q. q \<notin> set ps \<longrightarrow> q \<noteq> fv_func v \<longrightarrow> opes st1 q = opes st q) \<and>
    (\<forall>q. map_option ope_type (opes st1 q) = map_option ope_type (opes st q))"
  using assms(3,1,2,4-8)
proof (induction pars ps arbitrary: v ex z st k rule: list_all2_induct)
  case Nil
  have "v\<lparr>fv_params := fv_params v\<rparr> = v" by simp
  with Nil show ?case by (auto simp: params_at_def)
next
  case (Cons ir pars p ps)
  from Cons.hyps(1) have ir: "ir_type ir = IR_PARAM" "ir_rs ir = Some p" by (simp_all add: param_instr_def)
  from Cons.prems(7) ir obtain ex1 z1 st1 where
    1: "param_check ir ex (Some (fv_func v)) z st = Some (ex1, z1, st1)"
    and 2: "in_func_from (pars @ body) ex1 (Some (fv_func v)) z1 st1 = Some st'"
    by (auto simp: bind_Some_iff)
  from Cons.prems(5) [of p] obtain a where a: "opes st p = Some a" "frame_kind (ope_type a)" by auto
  let ?v = "v\<lparr>fv_params := insert p (fv_params v)\<rparr>"
  have inv1: "frame_inv ?v ex1 st1" and z1: "sint z1 = sint z + 4"
    and p1: "\<exists>b. opes st1 p = Some b \<and> sint (ope_address b) = - sint z \<and> ope_is_param b"
    and same: "\<And>q. q \<noteq> p \<Longrightarrow> q \<noteq> fv_func v \<Longrightarrow> opes st1 q = opes st q"
    and types: "\<And>q. map_option ope_type (opes st1 q) = map_option ope_type (opes st q)"
    using param_check_inv [OF Cons.prems(1,2) 1 ir(2) a] Cons.prems(4) by auto
  have fk: "\<exists>a. opes st1 q = Some a \<and> frame_kind (ope_type a)" if "q \<in> set ps" for q
    using Cons.prems(5) [of q] types [of q] that by (metis list.set_intros(2) map_option_eq_Some)
  have "\<exists>ex2 z2 st2. frame_inv (?v\<lparr>fv_params := fv_params ?v \<union> set ps\<rparr>) ex2 st2 \<and> params_at (Suc k) ps st2 \<and>
      in_func_from body ex2 (Some (fv_func ?v)) z2 st2 = Some st' \<and>
      (\<forall>q. q \<notin> set ps \<longrightarrow> q \<noteq> fv_func ?v \<longrightarrow> opes st2 q = opes st1 q) \<and>
      (\<forall>q. map_option ope_type (opes st2 q) = map_option ope_type (opes st1 q))"
    using Cons.prems inv1 z1 2 fk by (intro Cons.IH) auto
  then obtain ex2 z2 st2 where
    3: "frame_inv (?v\<lparr>fv_params := fv_params ?v \<union> set ps\<rparr>) ex2 st2" "params_at (Suc k) ps st2"
      "in_func_from body ex2 (Some (fv_func v)) z2 st2 = Some st'"
      "\<And>q. q \<notin> set ps \<Longrightarrow> q \<noteq> fv_func v \<Longrightarrow> opes st2 q = opes st1 q"
      "\<And>q. map_option ope_type (opes st2 q) = map_option ope_type (opes st1 q)" by auto
  have "p \<noteq> fv_func v" using Cons.prems(1) a by (auto elim!: frame_inv_func)
  with 3(4) [of p] Cons.prems(3) have "opes st2 p = opes st1 p" by auto
  with p1 Cons.prems(6) 3(2) have "params_at k (p # ps) st2"
    unfolding params_at_def by (auto simp: nth_Cons less_Suc_eq_0_disj split: nat.splits)
  moreover have "?v\<lparr>fv_params := fv_params ?v \<union> set ps\<rparr> = v\<lparr>fv_params := fv_params v \<union> set (p # ps)\<rparr>"
    by simp
  ultimately show ?case
    using 3 same types by (intro exI [of _ ex2] exI [of _ z2] exI [of _ st2]) auto
qed

section \<open>Properties\<close>

lemma frame_inv_start:
  assumes "ope_wf st" and "nonneg_sizes st" and "opes st c = Some f" and "ope_type f = OPE_FUNC"
    and "update_ope c (ope_size_update (\<lambda>_. 0)) st = Some st1"
  shows "frame_inv \<lparr>fv_func = c, fv_params = {}, fv_locals = {}\<rparr> (\<lambda>_. False) st1"
proof -
  have st1: "st1 = st\<lparr>opes := (opes st)(c \<mapsto> f\<lparr>ope_size := 0\<rparr>)\<rparr>"
    using assms(3,5) by (auto simp: update_ope_Some)
  have "ope_wf st1"
    using assms by (intro ope_wf_transfer [of st st1]) (auto simp: st1 split: if_splits)
  moreover have "nonneg_sizes st1"
    using assms(2,4) unfolding nonneg_sizes_def st1 by auto
  ultimately show ?thesis using assms(4) by (simp add: frame_inv_def st1)
qed

text \<open>
  C7: in the frame of a function the \<open>i\<close>-th parameter lies at \<open>4 * i\<close> bytes above the frame
  pointer, every other variable, temporary, boolean, array and address of the body lies inside the
  frame the function reserves, and no two of them overlap.
\<close>

theorem frame_layout:
  assumes "ope_wf st" and "nonneg_sizes st"
    and fn: "ir_type fn = IR_FUNC" "ir_rs fn = Some c" "opes st c = Some f" "ope_type f = OPE_FUNC"
    and pars: "list_all2 param_instr pars ps" "distinct ps"
      "\<forall>p\<in>set ps. \<exists>a. opes st p = Some a \<and> frame_kind (ope_type a)"
    and body: "\<forall>ir\<in>set body. body_instr ir"
    and run: "in_func_from (fn # pars @ body) ex cur z st = Some st'"
  shows "\<exists>f'. opes st' c = Some f' \<and>
    (\<forall>i<length ps. \<exists>a. opes st' (ps ! i) = Some a \<and> sint (ope_address a) = - 4 * int i) \<and>
    (\<forall>p a. Some p \<in> body_operands body \<longrightarrow> p \<notin> set ps \<longrightarrow> opes st' p = Some a \<longrightarrow> frame_kind (ope_type a) \<longrightarrow>
       in_frame f' a) \<and>
    (\<forall>p q a b. {Some p, Some q} \<subseteq> body_operands body \<longrightarrow> {p, q} \<inter> set ps = {} \<longrightarrow> p \<noteq> q \<longrightarrow>
       opes st' p = Some a \<longrightarrow> opes st' q = Some b \<longrightarrow> frame_kind (ope_type a) \<longrightarrow> frame_kind (ope_type b) \<longrightarrow>
       disjoint_slots a b)"
proof -
  from run fn obtain st1 where st1: "update_ope c (ope_size_update (\<lambda>_. 0)) st = Some st1"
    and run1: "in_func_from (pars @ body) (\<lambda>_. False) (Some c) 0 st1 = Some st'"
    by (auto simp: bind_Some_iff)
  let ?v = "\<lparr>fv_func = c, fv_params = {}, fv_locals = {}\<rparr>"
  have pars1: "\<exists>a. opes st1 p = Some a \<and> frame_kind (ope_type a)" if "p \<in> set ps" for p
    using bspec [OF pars(3) that] st1 by (auto simp: update_ope_Some)
  from params_placed [of ?v "\<lambda>_. False" st1 pars ps 0 0 body st'] frame_inv_start [OF assms(1,2) fn(3,4) st1]
    pars(1,2) pars1 run1
  obtain ex2 z2 st2 where
    2: "frame_inv \<lparr>fv_func = c, fv_params = set ps, fv_locals = {}\<rparr> ex2 st2" "params_at 0 ps st2"
      "in_func_from body ex2 (Some c) z2 st2 = Some st'"
    by auto
  let ?v2 = "\<lparr>fv_func = c, fv_params = set ps, fv_locals = {}\<rparr>"
  from body_placed [OF 2(1) body, of z2 st'] 2(3) obtain Q ex3 where
    3: "frame_inv (?v2\<lparr>fv_locals := Q\<rparr>) ex3 st'" "placed ?v2 st2 (body_operands body) Q st'" by auto
  from 3(1) obtain f' where f': "opes st' c = Some f'"
    "\<And>p a. p \<in> Q \<Longrightarrow> opes st' p = Some a \<Longrightarrow> in_frame f' a"
    by (rule frame_inv_func) auto
  have loc: "p \<in> Q" if "Some p \<in> body_operands body" "p \<notin> set ps" "opes st' p = Some a" "frame_kind (ope_type a)" for p a
  proof -
    have "map_option ope_type (opes st2 p) = map_option ope_type (opes st' p)"
      using 3(2) unfolding placed_def by auto
    with that(3) obtain b where "opes st2 p = Some b" "ope_type b = ope_type a" by auto
    with 3(2) that show ?thesis by (auto simp: placed_def)
  qed
  have "\<exists>a. opes st' (ps ! i) = Some a \<and> sint (ope_address a) = - 4 * int i" if "i < length ps" for i
    using 2(2) 3(2) that by (auto simp: params_at_def placed_def)
  moreover have "in_frame f' a"
    if "Some p \<in> body_operands body" "p \<notin> set ps" "opes st' p = Some a" "frame_kind (ope_type a)" for p a
    using f'(2) [OF loc [OF that] that(3)] .
  moreover have "disjoint_slots a b"
    if "{Some p, Some q} \<subseteq> body_operands body" "{p, q} \<inter> set ps = {}" "p \<noteq> q" "opes st' p = Some a"
      "opes st' q = Some b" "frame_kind (ope_type a)" "frame_kind (ope_type b)" for p q a b
    using 3(1) that loc [of p a] loc [of q b] unfolding frame_inv_def by simp
  ultimately show ?thesis using f'(1) by blast
qed

definition demo_frame :: ope_state where
  "demo_frame =
     \<lparr>opes =
        [0 \<mapsto> memset_operand\<lparr>ope_type := OPE_FUNC\<rparr>,
         1 \<mapsto> memset_operand\<lparr>ope_type := OPE_VAR, ope_size := 4\<rparr>,
         2 \<mapsto> memset_operand\<lparr>ope_type := OPE_REF, ope_index := 1, ope_size := 8\<rparr>,
         3 \<mapsto> memset_operand\<lparr>ope_type := OPE_ADDR, ope_index := 2, ope_size := 4\<rparr>],
      next_ope = 4, nr_ope = 3, nr_label = 0\<rparr>"

lemma demo_frame_wf: "ope_wf demo_frame" "nonneg_sizes demo_frame"
  by (auto simp: ope_wf_def nonneg_sizes_def demo_frame_def memset_operand_def numbered_def split: if_splits)

definition demo_body :: "IR list" where
  "demo_body = [mk_instr IR_ADDR (Some 2) None (Some 3)]"

lemma demo_frame_run:
  "\<exists>st' a b. in_func_from (mk_instr IR_FUNC (Some 0) None None # [mk_instr IR_PARAM (Some 1) None None] @ demo_body)
       ex cur z demo_frame = Some st' \<and>
     opes st' 2 = Some a \<and> opes st' 3 = Some b \<and> frame_kind (ope_type a) \<and> frame_kind (ope_type b)"
  by (simp add: demo_body_def mk_instr_def demo_frame_def memset_operand_def update_ope_def param_check_def
      ir_operands_def place_operand_def MAP_SIZE_def cadd_def cneg_def to_cint_def int_range_def)

lemma frame_layout_witness:
  "\<exists>st' f' a b. in_func_from (mk_instr IR_FUNC (Some 0) None None # [mk_instr IR_PARAM (Some 1) None None] @ demo_body)
       (\<lambda>_. False) None 0 demo_frame = Some st' \<and>
     opes st' 0 = Some f' \<and> opes st' 2 = Some a \<and> opes st' 3 = Some b \<and> in_frame f' a \<and> disjoint_slots a b"
proof -
  obtain st' a b where run: "in_func_from (mk_instr IR_FUNC (Some 0) None None #
      [mk_instr IR_PARAM (Some 1) None None] @ demo_body) (\<lambda>_. False) None 0 demo_frame = Some st'"
    and ab: "opes st' 2 = Some a" "opes st' 3 = Some b" "frame_kind (ope_type a)" "frame_kind (ope_type b)"
    using demo_frame_run by blast
  have ops: "Some 2 \<in> body_operands demo_body" "Some 3 \<in> body_operands demo_body"
    by (simp_all add: body_operands_def demo_body_def mk_instr_def ir_operands_def)
  have "\<exists>f'. opes st' 0 = Some f' \<and> in_frame f' a \<and> disjoint_slots a b"
    using frame_layout [OF demo_frame_wf _ _ _ _ _ _ _ _ run, where ps = "[1]" and c = 0 and
        f = "memset_operand\<lparr>ope_type := OPE_FUNC\<rparr>"] ab ops
    by (auto simp: mk_instr_def param_instr_def demo_frame_def memset_operand_def demo_body_def body_instr_def)
  with run ab show ?thesis by blast
qed

end
