(* ===== verification/Liveness.thy ===== *)
theory Liveness
  imports IR
begin

text \<open>
  What \<open>optimize_liveness\<close> computes: the annotation of an operand at an instruction is the
  answer of a forward search through the rest of the block.
\<close>

section \<open>The reference\<close>

definition reads :: "IR \<Rightarrow> nat \<Rightarrow> bool" where
  "reads ir p \<longleftrightarrow> ir_rs ir = Some p \<or> ir_rt ir = Some p"

definition writes :: "IR \<Rightarrow> nat \<Rightarrow> bool" where
  "writes ir p \<longleftrightarrow> ir_rd ir = Some p"

text \<open>The next mention of a temporary: a read makes it live, a write kills it.\<close>

fun next_mention :: "nat \<Rightarrow> (nat \<times> IR) list \<Rightarrow> bool \<times> int" where
  "next_mention p [] = (False, int MAX_LINE)"
| "next_mention p ((j, ir) # rest) =
     (if reads ir p then (True, int j)
      else if writes ir p then (False, NO_USE)
      else next_mention p rest)"

fun tmp_type :: "Ope_Type \<Rightarrow> bool" where
  "tmp_type OPE_ADDR = True"
| "tmp_type OPE_TEMP = True"
| "tmp_type _ = False"

definition state_of :: "Ope_Type \<Rightarrow> nat \<Rightarrow> (nat \<times> IR) list \<Rightarrow> bool \<times> int" where
  "state_of t p rest =
     (if tmp_type t then next_mention p rest else (t = OPE_VAR \<or> t = OPE_BOOL, int MAX_LINE))"

definition block_rest :: "IR list \<Rightarrow> nat \<Rightarrow> nat \<Rightarrow> (nat \<times> IR) list" where
  "block_rest buf i stop = map (\<lambda>j. (j, buf ! j)) [i..<stop]"

definition to_info :: "bool \<times> int \<Rightarrow> OptimizeInfo" where
  "to_info x = \<lparr>info_liveness = fst x, info_next_use = snd x\<rparr>"

section \<open>Closed forms of the loops\<close>

lemma is_tmp_type: "is_tmp (Some ope) = tmp_type (ope_type ope)"
  by (cases "ope_type ope") (simp_all add: is_tmp_def)

definition heap_map :: "nat option \<Rightarrow> (Operand_ \<Rightarrow> Operand_) \<Rightarrow> 'a ope_state_scheme \<Rightarrow> 'a ope_state_scheme" where
  "heap_map ptr f st = st\<lparr>opes := \<lambda>p. if ptr = Some p then map_option f (opes st p) else opes st p\<rparr>"

definition init_ope :: "Operand_ \<Rightarrow> Operand_" where
  "init_ope ope = ope\<lparr>ope_liveness := ope_type ope = OPE_VAR \<or> ope_type ope = OPE_BOOL, ope_next_use := int MAX_LINE\<rparr>"

definition mark_ope :: "bool \<Rightarrow> int \<Rightarrow> Operand_ \<Rightarrow> Operand_" where
  "mark_ope live use ope =
     (if tmp_type (ope_type ope) then ope\<lparr>ope_liveness := live, ope_next_use := use\<rparr> else ope)"

definition allocated :: "'a ope_state_scheme \<Rightarrow> nat option \<Rightarrow> bool" where
  "allocated st ptr \<longleftrightarrow> (\<forall>p. ptr = Some p \<longrightarrow> opes st p \<noteq> None)"

lemma allocated_heap_map [simp]: "allocated (heap_map ptr f st) ptr' = allocated st ptr'"
  by (auto simp: allocated_def heap_map_def)

lemma heap_map_upd:
  assumes "opes st p = Some a"
  shows "heap_map (Some p) f st = st\<lparr>opes := (opes st)(p \<mapsto> f a)\<rparr>"
proof -
  have "(\<lambda>q. if Some p = Some q then map_option f (opes st q) else opes st q) = (opes st)(p \<mapsto> f a)"
    using assms by auto
  then show ?thesis by (simp add: heap_map_def)
qed

lemma heap_map_None [simp]: "heap_map None f st = st"
  by (simp add: heap_map_def)

lemma init_liveness_eq:
  assumes "allocated st ptr"
  shows "init_liveness ptr st = Some (heap_map ptr init_ope st)"
proof (cases ptr)
  case (Some p)
  with assms obtain a where a: "opes st p = Some a" by (auto simp: allocated_def)
  with Some show ?thesis by (simp add: init_liveness_def update_ope_def heap_map_upd [OF a] init_ope_def)
qed (simp add: init_liveness_def)

lemma mark_tmp_eq:
  assumes "allocated st ptr"
  shows "mark_tmp ptr live use st = Some (heap_map ptr (mark_ope live use) st)"
proof (cases ptr)
  case (Some p)
  with assms obtain a where a: "opes st p = Some a" by (auto simp: allocated_def)
  moreover have "st\<lparr>opes := (opes st)(p \<mapsto> a)\<rparr> = st" using a by (simp add: fun_upd_idem)
  ultimately show ?thesis
    using Some by (simp add: mark_tmp_def update_ope_def is_tmp_type mark_ope_def heap_map_upd)
qed (simp add: mark_tmp_def)

lemma heap_map_buffer [simp]: "instr_buffer (heap_map ptr f st) = instr_buffer st"
  by (simp add: heap_map_def)

section \<open>The loops against the reference\<close>

definition block_allocated :: "'a ir_state_scheme \<Rightarrow> nat \<Rightarrow> nat \<Rightarrow> bool" where
  "block_allocated st i stop \<longleftrightarrow>
     (\<forall>j. i \<le> j \<and> j < stop \<longrightarrow> (\<forall>ptr \<in> set (ir_operands (instr_buffer st ! j)). allocated st ptr))"

definition block_opes :: "IR list \<Rightarrow> nat \<Rightarrow> nat \<Rightarrow> nat set" where
  "block_opes buf i stop = {p. \<exists>j. i \<le> j \<and> j < stop \<and> Some p \<in> set (ir_operands (buf ! j))}"

lemma init_all_eq:
  "\<forall>ptr\<in>set ptrs. allocated st ptr \<Longrightarrow> init_all ptrs st = Some (fold (\<lambda>ptr. heap_map ptr init_ope) ptrs st)"
  by (induction ptrs arbitrary: st) (simp_all add: init_liveness_eq)

lemma init_ope_idem [simp]: "init_ope (init_ope a) = init_ope a"
  by (simp add: init_ope_def)

lemma fold_init_opes:
  "opes (fold (\<lambda>ptr. heap_map ptr init_ope) ptrs st) p =
     (if Some p \<in> set ptrs then map_option init_ope (opes st p) else opes st p)"
  by (induction ptrs arbitrary: st) (auto simp: heap_map_def option.map_comp comp_def)

lemma fold_init_buffer: "instr_buffer (fold (\<lambda>ptr. heap_map ptr init_ope) ptrs st) = instr_buffer st"
  by (induction ptrs arbitrary: st) simp_all

lemma init_loop_spec:
  assumes "\<And>j. j \<in> set is \<Longrightarrow> j < nr_instr st \<and> (\<forall>ptr \<in> set (ir_operands (instr_buffer st ! j)). allocated st ptr)"
  shows "\<exists>st'. init_loop is st = Some st' \<and> instr_buffer st' = instr_buffer st \<and>
    (\<forall>p. opes st' p = (if \<exists>j\<in>set is. Some p \<in> set (ir_operands (instr_buffer st ! j))
       then map_option init_ope (opes st p) else opes st p))"
  using assms
proof (induction "is" arbitrary: st)
  case (Cons i "is")
  let ?st = "fold (\<lambda>ptr. heap_map ptr init_ope) (ir_operands (instr_buffer st ! i)) st"
  have 1: "init_all (ir_operands (instr_buffer st ! i)) st = Some ?st" and i: "i < nr_instr st"
    using Cons.prems [of i] by (simp_all add: init_all_eq)
  have "\<exists>st'. init_loop is ?st = Some st' \<and> instr_buffer st' = instr_buffer ?st \<and>
    (\<forall>p. opes st' p = (if \<exists>j\<in>set is. Some p \<in> set (ir_operands (instr_buffer ?st ! j))
       then map_option init_ope (opes ?st p) else opes ?st p))"
    using Cons.prems by (intro Cons.IH) (auto simp: fold_init_buffer allocated_def fold_init_opes)
  then show ?case
    using 1 i by (auto simp: fold_init_buffer fold_init_opes option.map_comp comp_def)
qed simp

text \<open>The heap agrees with the reference for the rest of the block.\<close>

definition agrees :: "nat set \<Rightarrow> (nat \<Rightarrow> Ope_Type) \<Rightarrow> (nat \<times> IR) list \<Rightarrow> 'a ope_state_scheme \<Rightarrow> bool" where
  "agrees M ty rest st \<longleftrightarrow>
     (\<forall>p\<in>M. \<exists>a. opes st p = Some a \<and> ope_type a = ty p \<and>
        (ope_liveness a, ope_next_use a) = state_of (ty p) p rest)"

lemma agrees_save:
  assumes "agrees M ty rest st" and "\<And>p. ptr = Some p \<Longrightarrow> p \<in> M"
  shows "save_info st ptr info = Some (case ptr of None \<Rightarrow> info | Some p \<Rightarrow> to_info (state_of (ty p) p rest))"
proof (cases ptr)
  case (Some p)
  with assms obtain a where "opes st p = Some a" "(ope_liveness a, ope_next_use a) = state_of (ty p) p rest"
    by (auto simp: agrees_def)
  with Some show ?thesis by (simp add: save_info_def to_info_def flip: \<open>_ = state_of (ty p) p rest\<close>)
qed (simp add: save_info_def)

lemma agrees_step:
  assumes "agrees M ty rest st"
  shows "agrees M ty ((i, ir) # rest)
    (heap_map (ir_rt ir) (mark_ope True (int i)) (heap_map (ir_rs ir) (mark_ope True (int i))
      (heap_map (ir_rd ir) (mark_ope False NO_USE) st)))"
  unfolding agrees_def
proof
  fix p
  assume "p \<in> M"
  with assms obtain a where a: "opes st p = Some a" "ope_type a = ty p"
    "(ope_liveness a, ope_next_use a) = state_of (ty p) p rest" by (auto simp: agrees_def)
  then show "\<exists>a. opes (heap_map (ir_rt ir) (mark_ope True (int i)) (heap_map (ir_rs ir) (mark_ope True (int i))
      (heap_map (ir_rd ir) (mark_ope False NO_USE) st))) p = Some a \<and> ope_type a = ty p \<and>
      (ope_liveness a, ope_next_use a) = state_of (ty p) p ((i, ir) # rest)"
    by (cases "tmp_type (ty p)")
       (auto simp: heap_map_def mark_ope_def state_of_def reads_def writes_def)
qed

definition saved :: "(nat \<Rightarrow> Ope_Type) \<Rightarrow> (nat \<times> IR) list \<Rightarrow> nat option \<Rightarrow> OptimizeInfo \<Rightarrow> OptimizeInfo" where
  "saved ty rest ptr info = (case ptr of None \<Rightarrow> info | Some p \<Rightarrow> to_info (state_of (ty p) p rest))"

definition annotated :: "(nat \<Rightarrow> Ope_Type) \<Rightarrow> (nat \<times> IR) list \<Rightarrow> IR \<Rightarrow> IR" where
  "annotated ty rest ir =
     ir\<lparr>rd_info := saved ty rest (ir_rd ir) (rd_info ir),
        rs_info := saved ty rest (ir_rs ir) (rs_info ir),
        rt_info := saved ty rest (ir_rt ir) (rt_info ir)\<rparr>"

lemma liveness_at_spec:
  assumes ag: "agrees M ty rest st" and i: "i < nr_instr st"
    and M: "\<And>p. Some p \<in> set (ir_operands (instr_buffer st ! i)) \<Longrightarrow> p \<in> M"
  shows "\<exists>st'. liveness_at i st = Some st' \<and>
    instr_buffer st' = (instr_buffer st)[i := annotated ty rest (instr_buffer st ! i)] \<and>
    agrees M ty ((i, instr_buffer st ! i) # rest) st'"
proof -
  let ?ir = "instr_buffer st ! i"
  let ?st = "st\<lparr>instr_buffer := (instr_buffer st)[i := annotated ty rest ?ir]\<rparr>"
  have ptrs: "\<And>p. ir_rd ?ir = Some p \<Longrightarrow> p \<in> M" "\<And>p. ir_rs ?ir = Some p \<Longrightarrow> p \<in> M" "\<And>p. ir_rt ?ir = Some p \<Longrightarrow> p \<in> M"
    using M by (auto simp: ir_operands_def)
  have al: "allocated ?st ptr" if "\<And>p. ptr = Some p \<Longrightarrow> p \<in> M" for ptr
    using ag that by (force simp: allocated_def agrees_def)
  note [simp] = al [OF ptrs(1)] al [OF ptrs(2)] al [OF ptrs(3)]
  have "liveness_at i st = do { st \<leftarrow> mark_tmp (ir_rd ?ir) False NO_USE ?st;
      st \<leftarrow> mark_tmp (ir_rs ?ir) True (int i) st; mark_tmp (ir_rt ?ir) True (int i) st }"
    using i by (simp add: liveness_at_def agrees_save [OF ag ptrs(1)] agrees_save [OF ag ptrs(2)]
        agrees_save [OF ag ptrs(3)] annotated_def saved_def)
  also have "\<dots> = Some (heap_map (ir_rt ?ir) (mark_ope True (int i)) (heap_map (ir_rs ?ir) (mark_ope True (int i))
      (heap_map (ir_rd ?ir) (mark_ope False NO_USE) ?st)))"
    by (simp add: mark_tmp_eq)
  finally show ?thesis
    using agrees_step [of M ty rest ?st i ?ir] ag by (auto simp: agrees_def)
qed

lemma annotated_operands [simp]:
  "ir_rd (annotated ty rest ir) = ir_rd ir" "ir_rs (annotated ty rest ir) = ir_rs ir"
  "ir_rt (annotated ty rest ir) = ir_rt ir" "ir_type (annotated ty rest ir) = ir_type ir"
  "ir_operands (annotated ty rest ir) = ir_operands ir"
  by (simp_all add: annotated_def ir_operands_def)

lemma block_rest_Cons: "i < stop \<Longrightarrow> block_rest buf i stop = (i, buf ! i) # block_rest buf (Suc i) stop"
  by (simp add: block_rest_def upt_conv_Cons)

lemma liveness_loop_spec:
  assumes "start \<le> m" and "m \<le> stop" and "stop \<le> length buf"
    and "agrees M ty (block_rest buf m stop) st"
    and "nr_instr st = length buf" and "\<And>j. j < m \<Longrightarrow> instr_buffer st ! j = buf ! j"
    and M: "\<And>j p. start \<le> j \<Longrightarrow> j < m \<Longrightarrow> Some p \<in> set (ir_operands (buf ! j)) \<Longrightarrow> p \<in> M"
  shows "\<exists>st'. liveness_loop (rev [start..<m]) st = Some st' \<and> nr_instr st' = length buf \<and>
    (\<forall>j. start \<le> j \<and> j < m \<longrightarrow> instr_buffer st' ! j = annotated ty (block_rest buf (Suc j) stop) (buf ! j)) \<and>
    (\<forall>j. j < start \<or> m \<le> j \<longrightarrow> instr_buffer st' ! j = instr_buffer st ! j)"
  using assms(1,2,4-7)
proof (induction m arbitrary: st)
  case 0
  then show ?case by simp
next
  case (Suc m)
  show ?case
  proof (cases "start = Suc m")
    case True
    then show ?thesis using Suc.prems by auto
  next
    case False
    then have sm: "start \<le> m" using Suc.prems by simp
    have m: "instr_buffer st ! m = buf ! m" "m < nr_instr st" using Suc.prems assms(3) by simp_all
    from liveness_at_spec [OF Suc.prems(3) m(2)] m Suc.prems(6) [of m] sm obtain st1 where
      1: "liveness_at m st = Some st1"
        "instr_buffer st1 = (instr_buffer st)[m := annotated ty (block_rest buf (Suc m) stop) (buf ! m)]"
        "agrees M ty ((m, buf ! m) # block_rest buf (Suc m) stop) st1" by auto
    from 1(3) have "agrees M ty (block_rest buf m stop) st1"
      using Suc.prems(2) by (simp add: block_rest_Cons [of m])
    moreover have "\<And>j. j < m \<Longrightarrow> instr_buffer st1 ! j = buf ! j" using Suc.prems(5) by (simp add: 1(2))
    moreover have "nr_instr st1 = length buf" using Suc.prems(4) by (simp add: 1(2))
    ultimately have "\<exists>st'. liveness_loop (rev [start..<m]) st1 = Some st' \<and> nr_instr st' = length buf \<and>
        (\<forall>j. start \<le> j \<and> j < m \<longrightarrow> instr_buffer st' ! j = annotated ty (block_rest buf (Suc j) stop) (buf ! j)) \<and>
        (\<forall>j. j < start \<or> m \<le> j \<longrightarrow> instr_buffer st' ! j = instr_buffer st1 ! j)"
      using Suc.prems sm by (intro Suc.IH) auto
    then obtain st2 where 2: "liveness_loop (rev [start..<m]) st1 = Some st2" "nr_instr st2 = length buf"
        "\<And>j. start \<le> j \<Longrightarrow> j < m \<Longrightarrow> instr_buffer st2 ! j = annotated ty (block_rest buf (Suc j) stop) (buf ! j)"
        "\<And>j. j < start \<or> m \<le> j \<Longrightarrow> instr_buffer st2 ! j = instr_buffer st1 ! j"
      by blast
    have "liveness_loop (rev [start..<Suc m]) st = Some st2"
      using sm 1(1) 2(1) by simp
    moreover have "instr_buffer st2 ! m = annotated ty (block_rest buf (Suc m) stop) (buf ! m)"
      using 2(4) [of m] m by (simp add: 1(2))
    moreover have "instr_buffer st2 ! j = instr_buffer st ! j" if "j < start \<or> Suc m \<le> j" for j
      using 2(4) [of j] that sm by (auto simp: 1(2))
    ultimately show ?thesis using 2(2,3) by (auto simp: less_Suc_eq)
  qed
qed

section \<open>Properties\<close>

definition type_at :: "'a ope_state_scheme \<Rightarrow> nat \<Rightarrow> Ope_Type" where
  "type_at st p = (case opes st p of None \<Rightarrow> OPE_NOT_USED | Some a \<Rightarrow> ope_type a)"

text \<open>
  C6: on a block whose operands are allocated \<open>optimize_liveness\<close> returns, and the liveness and
  next use it stores at an instruction are those of the reference: a temporary or address is live
  at \<open>j\<close> when \<open>j\<close> is the first later instruction of the block that mentions it and it reads it;
  variables and booleans are always live. Instructions outside the block are untouched.
\<close>

theorem optimize_liveness_spec:
  assumes "start \<le> stop" and "stop \<le> nr_instr st" and "block_allocated st start stop"
  shows "\<exists>st'. optimize_liveness start stop st = Some st' \<and> nr_instr st' = nr_instr st \<and>
    (\<forall>i. instr_buffer st' ! i =
      (if start \<le> i \<and> i < stop
       then annotated (type_at st) (block_rest (instr_buffer st) (Suc i) stop) (instr_buffer st ! i)
       else instr_buffer st ! i))"
proof -
  let ?buf = "instr_buffer st" and ?M = "block_opes (instr_buffer st) start stop"
  have "\<exists>st1. init_loop (rev [start..<stop]) st = Some st1 \<and> instr_buffer st1 = ?buf \<and>
    (\<forall>p. opes st1 p = (if \<exists>j\<in>set (rev [start..<stop]). Some p \<in> set (ir_operands (?buf ! j))
       then map_option init_ope (opes st p) else opes st p))"
    using assms by (intro init_loop_spec) (auto simp: block_allocated_def)
  then obtain st1 where 1: "init_loop (rev [start..<stop]) st = Some st1" "instr_buffer st1 = ?buf"
    "\<And>p. opes st1 p = (if \<exists>j\<in>set (rev [start..<stop]). Some p \<in> set (ir_operands (?buf ! j))
       then map_option init_ope (opes st p) else opes st p)"
    by blast
  have init: "opes st1 p = map_option init_ope (opes st p)" if "p \<in> ?M" for p
    using that unfolding 1(3) by (auto simp: block_opes_def)
  have "agrees ?M (type_at st) (block_rest ?buf stop stop) st1"
    unfolding agrees_def
  proof
    fix p
    assume p: "p \<in> ?M"
    with assms(3) have "opes st p \<noteq> None"
      unfolding block_opes_def block_allocated_def allocated_def by blast
    then obtain a where a: "opes st p = Some a" by blast
    then show "\<exists>a. opes st1 p = Some a \<and> ope_type a = type_at st p \<and>
        (ope_liveness a, ope_next_use a) = state_of (type_at st p) p (block_rest ?buf stop stop)"
      using init [OF p] by (cases "ope_type a") (simp_all add: type_at_def state_of_def block_rest_def init_ope_def)
  qed
  with assms 1(2) have "\<exists>st'. liveness_loop (rev [start..<stop]) st1 = Some st' \<and> nr_instr st' = length ?buf \<and>
    (\<forall>j. start \<le> j \<and> j < stop \<longrightarrow> instr_buffer st' ! j = annotated (type_at st) (block_rest ?buf (Suc j) stop) (?buf ! j)) \<and>
    (\<forall>j. j < start \<or> stop \<le> j \<longrightarrow> instr_buffer st' ! j = instr_buffer st1 ! j)"
    by (intro liveness_loop_spec [where M = ?M]) (auto simp: block_opes_def)
  then show ?thesis using 1 by (auto simp: optimize_liveness_def not_le not_less)
qed

definition demo_block :: ir_state where
  "demo_block =
     \<lparr>opes = [0 \<mapsto> memset_operand\<lparr>ope_type := OPE_TEMP\<rparr>, 1 \<mapsto> memset_operand\<lparr>ope_type := OPE_VAR\<rparr>],
      next_ope = 2, nr_ope = 2, nr_label = 0,
      instr_buffer =
        [mk_instr IR_ADD (Some 1) (Some 1) (Some 0),
         mk_instr IR_ASSIGN (Some 0) None (Some 1)]\<rparr>"

lemma optimize_liveness_spec_witness:
  "\<exists>st'. optimize_liveness 0 2 demo_block = Some st' \<and>
     rd_info (instr_buffer st' ! 0) = \<lparr>info_liveness = True, info_next_use = 1\<rparr> \<and>
     rs_info (instr_buffer st' ! 1) = \<lparr>info_liveness = False, info_next_use = 4096\<rparr>"
proof -
  have "block_allocated demo_block 0 2"
    by (auto simp: block_allocated_def demo_block_def mk_instr_def ir_operands_def allocated_def less_2_cases_iff)
  with optimize_liveness_spec [of 0 2 demo_block] obtain st' where
    st': "optimize_liveness 0 2 demo_block = Some st'"
      "\<And>i. instr_buffer st' ! i = (if 0 \<le> i \<and> i < 2 then annotated (type_at demo_block)
         (block_rest (instr_buffer demo_block) (Suc i) 2) (instr_buffer demo_block ! i) else instr_buffer demo_block ! i)"
    by (auto simp: demo_block_def)
  show ?thesis
    by (intro exI [of _ st'] conjI st'(1))
       (simp_all add: st'(2) annotated_def saved_def demo_block_def mk_instr_def type_at_def state_of_def
          to_info_def block_rest_def upt_conv_Cons reads_def memset_operand_def MAX_LINE_def)
qed

end
