(* ===== verification/BasicBlock.thy ===== *)
theory BasicBlock
  imports IR
begin

text \<open>
  Basic blocks: \<open>basic-block.c\<close> and \<open>optimize_in_block\<close> of \<open>ir.c\<close>. A block array is the
  list of its cells; a store outside it is undefined.
\<close>

record Block =
  blk_index :: nat
  blk_start :: nat
  blk_end :: nat
  blk_follow :: int
  blk_branch :: int

definition zero_block :: Block where
  "zero_block = \<lparr>blk_index = 0, blk_start = 0, blk_end = 0, blk_follow = 0, blk_branch = 0\<rparr>"

definition reset_block :: "Block list \<Rightarrow> nat \<Rightarrow> Block list option" where
  "reset_block block nr_block =
     (if nr_block \<le> length block then Some (replicate nr_block zero_block @ drop nr_block block) else None)"

definition update_block :: "Block list \<Rightarrow> nat \<Rightarrow> (Block \<Rightarrow> Block) \<Rightarrow> Block list option" where
  "update_block block i f = do { b \<leftarrow> array_get block i; array_set block i (f b) }"

section \<open>Partition\<close>

definition is_leader :: "IR list \<Rightarrow> nat \<Rightarrow> bool" where
  "is_leader instr i \<longleftrightarrow>
     i = 0 \<or> ir_type (instr ! i) = IR_LABEL \<or> ir_type (instr ! i) = IR_FUNC \<or> can_jump (instr ! (i - 1))"

definition partition_at ::
  "nat \<Rightarrow> nat \<times> Block list \<times> IR list \<Rightarrow> (nat \<times> Block list \<times> IR list) option" where
  "partition_at i s =
     (case s of (count, block, instr) \<Rightarrow>
       do {
         (count, block) \<leftarrow>
           (if is_leader instr i then
              do {
                block \<leftarrow> update_block block count (\<lambda>b. b\<lparr>blk_start := i\<rparr>);
                block \<leftarrow> update_block block count (\<lambda>b. b\<lparr>blk_index := count\<rparr>);
                block \<leftarrow> (if 0 < count then update_block block (count - 1) (\<lambda>b. b\<lparr>blk_end := i\<rparr>) else Some block);
                Some (count + 1, block)
              }
            else Some (count, block));
         Some (count, block, instr[i := (instr ! i)\<lparr>ir_block := int count - 1\<rparr>])
       })"

fun partition_loop ::
  "nat list \<Rightarrow> nat \<times> Block list \<times> IR list \<Rightarrow> (nat \<times> Block list \<times> IR list) option" where
  "partition_loop [] s = Some s"
| "partition_loop (i # is) s = do { s \<leftarrow> partition_at i s; partition_loop is s }"

definition block_partition :: "Block list \<Rightarrow> IR list \<Rightarrow> nat \<Rightarrow> (nat \<times> Block list \<times> IR list) option" where
  "block_partition block instr n =
     do {
       (count, block, instr) \<leftarrow> partition_loop [0..<n] (0, block, instr);
       if count = 0 then None
       else do {
         block \<leftarrow> update_block block (count - 1) (\<lambda>b. b\<lparr>blk_end := n\<rparr>);
         Some (count, block, instr)
       }
     }"

section \<open>The control-flow graph\<close>

fun find_label_loop :: "'a ope_state_scheme \<Rightarrow> nat \<Rightarrow> IR list \<Rightarrow> nat \<Rightarrow> nat option" where
  "find_label_loop st label [] i = Some i"
| "find_label_loop st label (ir # irs) i =
     (if ir_type ir = IR_LABEL then
        do {
          rs \<leftarrow> ir_rs ir;
          eq \<leftarrow> cmp_operand st rs label;
          if eq then Some i else find_label_loop st label irs (Suc i)
        }
      else find_label_loop st label irs (Suc i))"

definition find_label :: "'a ope_state_scheme \<Rightarrow> nat option \<Rightarrow> IR list \<Rightarrow> nat option" where
  "find_label st label instr =
     (case label of None \<Rightarrow> Some (length instr) | Some l \<Rightarrow> find_label_loop st l instr 0)"

definition has_return :: "IR list \<Rightarrow> Block \<Rightarrow> bool" where
  "has_return instr blk = list_ex (\<lambda>i. ir_type (instr ! i) = IR_RET) (rev [blk_start blk..<blk_end blk])"

definition cfg_at :: "'a ope_state_scheme \<Rightarrow> IR list \<Rightarrow> nat \<Rightarrow> Block \<Rightarrow> Block option" where
  "cfg_at st instr idx blk =
     (if has_return instr blk then Some (blk\<lparr>blk_follow := - 1, blk_branch := - 1\<rparr>)
      else
        let blk = blk\<lparr>blk_follow := int idx + 1, blk_branch := int idx + 1\<rparr> in
        if blk_end blk = 0 then None
        else do {
          ir \<leftarrow> array_get instr (blk_end blk - 1);
          let label = (if is_branch ir then ir_rd ir else if ir_type ir = IR_JMP then ir_rs ir else None);
          idx_label \<leftarrow> find_label st label instr;
          if idx_label < length instr then
            let blk = blk\<lparr>blk_branch := ir_block (instr ! idx_label)\<rparr>
            in Some (if ir_type ir = IR_JMP then blk\<lparr>blk_follow := blk_branch blk\<rparr> else blk)
          else Some blk
        })"

primrec construct_cfg_from ::
  "'a ope_state_scheme \<Rightarrow> IR list \<Rightarrow> nat \<Rightarrow> nat \<Rightarrow> Block list \<Rightarrow> Block list option" where
  "construct_cfg_from st instr 0 idx block = Some block"
| "construct_cfg_from st instr (Suc k) idx block =
     do {
       b \<leftarrow> array_get block idx;
       b \<leftarrow> cfg_at st instr idx b;
       block \<leftarrow> array_set block idx b;
       construct_cfg_from st instr k (Suc idx) block
     }"

definition construct_cfg :: "'a ope_state_scheme \<Rightarrow> Block list \<Rightarrow> nat \<Rightarrow> IR list \<Rightarrow> Block list option" where
  "construct_cfg st block nr_block instr = construct_cfg_from st instr nr_block 0 block"

text \<open>The text \<open>cfg_to_dot\<close> writes; a line break is the character 10, a quote 34.\<close>

definition dot_node :: "Block \<Rightarrow> string" where
  "dot_node blk =
     ''    b'' @ dec_nat (blk_index blk) @ '' [label='' @ [CHR 0x22] @ ''Block '' @ dec_nat (blk_index blk) @
     '' from '' @ dec_nat (blk_start blk + 1) @ '' to '' @ dec_nat (blk_end blk) @ [CHR 0x22] @ ''];'' @ [CHR 0x0A]"

definition dot_edge :: "nat \<Rightarrow> int \<Rightarrow> string" where
  "dot_edge a b = ''    b'' @ dec_nat a @ '' -> b'' @ dec_int b @ '';'' @ [CHR 0x0A]"

definition dot_edges :: "Block \<Rightarrow> string" where
  "dot_edges blk =
     (if blk_follow blk = - 1 then []
      else dot_edge (blk_index blk) (blk_follow blk) @
        (if blk_follow blk \<noteq> blk_branch blk then dot_edge (blk_index blk) (blk_branch blk) else []))"

definition cfg_to_dot :: "Block list \<Rightarrow> nat \<Rightarrow> string option" where
  "cfg_to_dot block nr_block =
     (if nr_block \<le> length block then
        Some (''digraph cfg {'' @ [CHR 0x0A] @ concat (map dot_node (take nr_block block)) @
          concat (map dot_edges (take nr_block block)) @ ''}'' @ [CHR 0x0A])
      else None)"

section \<open>Annotation of all blocks\<close>

fun optimize_blocks :: "Block list \<Rightarrow> 'a ir_state_scheme \<Rightarrow> 'a ir_state_scheme option" where
  "optimize_blocks [] st = Some st"
| "optimize_blocks (b # bs) st = do { st \<leftarrow> optimize_liveness (blk_start b) (blk_end b) st; optimize_blocks bs st }"

definition optimize_in_block ::
  "Block list \<Rightarrow> 'a ir_state_scheme \<Rightarrow> (nat \<times> Block list \<times> 'a ir_state_scheme) option" where
  "optimize_in_block blk_buf st =
     do {
       (nr_blk, blk_buf, instr) \<leftarrow> block_partition blk_buf (instr_buffer st) (nr_instr st);
       st \<leftarrow> optimize_blocks (take nr_blk blk_buf) (st\<lparr>instr_buffer := instr\<rparr>);
       Some (nr_blk, blk_buf, st)
     }"

section \<open>Correctness of the partition\<close>

definition leaders :: "IR list \<Rightarrow> nat \<Rightarrow> nat list" where
  "leaders instr n = filter (is_leader instr) [0..<n]"

definition set_block :: "IR list \<Rightarrow> nat \<Rightarrow> nat \<Rightarrow> IR" where
  "set_block instr i k =
     (if k < i then (instr ! k)\<lparr>ir_block := int (length (leaders instr (Suc k))) - 1\<rparr> else instr ! k)"

lemma leaders_Suc: "leaders instr (Suc i) = leaders instr i @ (if is_leader instr i then [i] else [])"
  by (simp add: leaders_def)

lemma leaders_0 [simp]: "leaders instr 0 = []"
  by (simp add: leaders_def)

lemma length_leaders: "length (leaders instr i) \<le> i"
  using length_filter_le [of "is_leader instr" "[0..<i]"] by (simp add: leaders_def)

lemma leaders_split: "i \<le> n \<Longrightarrow> leaders instr n = leaders instr i @ filter (is_leader instr) [i..<n]"
  unfolding leaders_def by (metis filter_append le_Suc_ex upt_add_eq_append zero_le)

lemma is_leader_set_block:
  assumes "k < length instr" and "i \<le> length instr"
  shows "is_leader (map (set_block instr i) [0..<length instr]) k = is_leader instr k"
proof -
  have "ir_type (set_block instr i j) = ir_type (instr ! j)" for j by (simp add: set_block_def)
  then show ?thesis using assms by (simp add: is_leader_def can_jump_def is_branch_def)
qed

lemma map_set_block_Suc:
  assumes "i < length instr"
  shows "(map (set_block instr i) [0..<length instr])
      [i := (instr ! i)\<lparr>ir_block := int (length (leaders instr (Suc i))) - 1\<rparr>] =
    map (set_block instr (Suc i)) [0..<length instr]"
  by (rule nth_equalityI) (use assms in \<open>auto simp: nth_list_update set_block_def\<close>)

text \<open>The loop invariant.\<close>

definition part_inv :: "Block list \<Rightarrow> IR list \<Rightarrow> nat \<Rightarrow> nat \<times> Block list \<times> IR list \<Rightarrow> bool" where
  "part_inv block0 instr i s \<longleftrightarrow>
     (case s of (count, block, instr') \<Rightarrow>
       count = length (leaders instr i) \<and> length block = length block0 \<and>
       (\<forall>j<count. blk_start (block ! j) = leaders instr i ! j \<and> blk_index (block ! j) = j) \<and>
       (\<forall>j. Suc j < count \<longrightarrow> blk_end (block ! j) = leaders instr i ! Suc j) \<and>
       instr' = map (set_block instr i) [0..<length instr])"

lemma update_block_eq: "i < length block \<Longrightarrow> update_block block i f = Some (block[i := f (block ! i)])"
  by (simp add: update_block_def)

lemma partition_at_inv:
  assumes inv: "part_inv block0 instr i s" and i: "i < length instr" "i < length block0"
  shows "\<exists>s'. partition_at i s = Some s' \<and> part_inv block0 instr (Suc i) s'"
proof -
  obtain count block instr' where s: "s = (count, block, instr')" by (cases s)
  with inv have c: "count = length (leaders instr i)" and len: "length block = length block0"
    and start: "\<And>j. j < count \<Longrightarrow> blk_start (block ! j) = leaders instr i ! j \<and> blk_index (block ! j) = j"
    and stop: "\<And>j. Suc j < count \<Longrightarrow> blk_end (block ! j) = leaders instr i ! Suc j"
    and instr': "instr' = map (set_block instr i) [0..<length instr]"
    by (simp_all add: part_inv_def)
  have cl: "count < length block" using length_leaders [of instr i] i c len by simp
  have lead: "is_leader instr' i = is_leader instr i" using i by (simp add: instr' is_leader_set_block)
  have nth: "instr' ! i = instr ! i" using i by (simp add: instr' set_block_def)
  note upd = map_set_block_Suc [OF i(1), folded instr']
  show ?thesis
  proof (cases "is_leader instr i")
    case False
    then have "leaders instr (Suc i) = leaders instr i" by (simp add: leaders_Suc)
    with False upd c len start stop show ?thesis
      by (simp add: s partition_at_def lead nth part_inv_def)
  next
    case True
    then have ls: "leaders instr (Suc i) = leaders instr i @ [i]" by (simp add: leaders_Suc)
    define b1 where "b1 = block[count := (block ! count)\<lparr>blk_start := i, blk_index := count\<rparr>]"
    define b2 where "b2 = (if 0 < count then b1[count - 1 := (b1 ! (count - 1))\<lparr>blk_end := i\<rparr>] else b1)"
    have "partition_at i s = Some (Suc count, b2, map (set_block instr (Suc i)) [0..<length instr])"
      using True cl upd c ls by (simp add: s partition_at_def lead nth update_block_eq b1_def b2_def)
    moreover have "blk_start (b2 ! j) = (leaders instr i @ [i]) ! j \<and> blk_index (b2 ! j) = j" if "j < Suc count" for j
      using that cl start [of j] c by (auto simp: b2_def b1_def nth_list_update nth_append less_Suc_eq)
    moreover have "blk_end (b2 ! j) = (leaders instr i @ [i]) ! Suc j" if "Suc j < Suc count" for j
    proof (cases "Suc j = count")
      case True
      then have "count - 1 = j" "0 < count" by simp_all
      with cl c True show ?thesis by (simp add: b2_def b1_def nth_append)
    next
      case False
      with that cl stop [of j] c show ?thesis by (auto simp: b2_def b1_def nth_append)
    qed
    ultimately show ?thesis
      using c ls len by (auto simp: part_inv_def b2_def b1_def)
  qed
qed

lemma partition_loop_inv:
  assumes "n \<le> length instr" and "n \<le> length block0"
  shows "\<exists>s. partition_loop [0..<n] (0, block0, instr) = Some s \<and> part_inv block0 instr n s"
proof -
  have snoc: "partition_loop (is @ [i]) s = do { s \<leftarrow> partition_loop is s; partition_at i s }" for "is" i s
    by (induction "is" arbitrary: s) (auto split: bind_splits)
  show ?thesis
    using assms
  proof (induction n)
    case 0
    then show ?case by (simp add: part_inv_def set_block_def [abs_def] map_nth)
  next
    case (Suc n)
    then obtain s where "partition_loop [0..<n] (0, block0, instr) = Some s" "part_inv block0 instr n s" by auto
    with Suc partition_at_inv [of block0 instr n s] show ?case by (simp add: snoc)
  qed
qed

text \<open>The leaders are increasing, so the leaders up to a position of block \<open>j\<close> are \<open>j + 1\<close>.\<close>

lemma leaders_nth_less:
  "i \<le> n \<Longrightarrow> m < length (leaders instr n) \<Longrightarrow> leaders instr n ! m < i \<longleftrightarrow> m < length (leaders instr i)"
proof -
  assume "i \<le> n" "m < length (leaders instr n)"
  note split = leaders_split [OF this(1), of instr]
  show ?thesis
  proof (cases "m < length (leaders instr i)")
    case True
    then have "leaders instr i ! m \<in> set (leaders instr i)" by simp
    then have "leaders instr i ! m < i" by (simp add: leaders_def)
    with True show ?thesis by (simp add: split nth_append)
  next
    case False
    let ?r = "filter (is_leader instr) [i..<n]"
    have "m - length (leaders instr i) < length ?r"
      using False \<open>m < length (leaders instr n)\<close> by (simp add: split)
    then have "?r ! (m - length (leaders instr i)) \<in> set ?r" by (rule nth_mem)
    then have "i \<le> ?r ! (m - length (leaders instr i))" by simp
    with False show ?thesis by (simp add: split nth_append)
  qed
qed

lemma leaders_count:
  assumes "k < n" and "j < length (leaders instr n)" and "leaders instr n ! j \<le> k"
    and "Suc j < length (leaders instr n) \<Longrightarrow> k < leaders instr n ! Suc j"
  shows "length (leaders instr (Suc k)) = Suc j"
proof -
  have "j < length (leaders instr (Suc k))"
    using leaders_nth_less [of "Suc k" n j instr] assms(1-3) by simp
  moreover have "\<not> Suc j < length (leaders instr (Suc k))"
  proof
    assume *: "Suc j < length (leaders instr (Suc k))"
    then have "Suc j < length (leaders instr n)"
      using leaders_split [of "Suc k" n instr] assms(1) by simp
    with * leaders_nth_less [of "Suc k" n "Suc j" instr] assms(1,4) show False by simp
  qed
  ultimately show ?thesis by simp
qed

lemma leader_between:
  assumes "k < n" and "is_leader instr k"
  shows "\<exists>j < length (leaders instr n). leaders instr n ! j = k"
proof -
  have "k \<in> set (leaders instr n)" using assms by (simp add: leaders_def)
  then show ?thesis by (auto simp: in_set_conv_nth)
qed

lemma leaders_mono:
  assumes "i < j" and "j < length (leaders instr n)"
  shows "leaders instr n ! i < leaders instr n ! j"
proof -
  have "sorted_wrt (<) (leaders instr n)" unfolding leaders_def by (rule sorted_wrt_filter) simp
  with assms show ?thesis by (simp add: sorted_wrt_iff_nth_less)
qed

text \<open>The ends of the blocks: block \<open>j\<close> runs from its leader to the next one, or to \<open>n\<close>.\<close>

definition block_stop :: "IR list \<Rightarrow> nat \<Rightarrow> nat \<Rightarrow> nat" where
  "block_stop instr n j = (leaders instr n @ [n]) ! Suc j"

lemma leaders_first:
  assumes "0 < n"
  shows "leaders instr n ! 0 = 0" and "0 < length (leaders instr n)"
proof -
  from leader_between [of 0 n instr] assms obtain j where "j < length (leaders instr n)" "leaders instr n ! j = 0"
    by (auto simp: is_leader_def)
  with leaders_mono [of 0 j instr n] show "leaders instr n ! 0 = 0" "0 < length (leaders instr n)"
    by (cases "j = 0"; auto)+
qed

lemma block_stop_bounds:
  assumes "j < length (leaders instr n)"
  shows "leaders instr n ! j < block_stop instr n j" and "block_stop instr n j \<le> n"
proof -
  have mem: "leaders instr n ! i < n" if "i < length (leaders instr n)" for i
    using nth_mem [OF that] by (simp add: leaders_def)
  show "leaders instr n ! j < block_stop instr n j" "block_stop instr n j \<le> n"
    using leaders_mono [of j "Suc j" instr n] mem [OF assms] mem [of "Suc j"] assms
    by (cases "Suc j < length (leaders instr n)"; auto simp: block_stop_def nth_append intro: less_imp_le)+
qed

lemma block_inner:
  assumes "j < length (leaders instr n)" and "leaders instr n ! j < k" and "k < block_stop instr n j"
  shows "\<not> is_leader instr k"
proof
  assume "is_leader instr k"
  with leader_between [of k n instr] assms block_stop_bounds [OF assms(1)] obtain m where
    m: "m < length (leaders instr n)" "leaders instr n ! m = k" by auto
  have "\<not> m \<le> j" using leaders_mono [of m j instr n] assms m by (cases "m = j") auto
  moreover have "\<not> Suc j \<le> m"
    using leaders_mono [of "Suc j" m instr n] assms m
    by (cases "m = Suc j") (auto simp: block_stop_def nth_append split: if_splits)
  ultimately show False by simp
qed

lemma set_block_inner:
  assumes "j < length (leaders instr n)" and "leaders instr n ! j \<le> k" and "k < block_stop instr n j"
  shows "set_block instr n k = (instr ! k)\<lparr>ir_block := int j\<rparr>"
proof -
  have k: "k < n" using assms block_stop_bounds [OF assms(1)] by simp
  have "length (leaders instr (Suc k)) = Suc j"
  proof (rule leaders_count [OF k assms(1,2)])
    show "k < leaders instr n ! Suc j" if "Suc j < length (leaders instr n)"
      using that assms(3) by (simp add: block_stop_def nth_append)
  qed
  with k show ?thesis by (simp add: set_block_def)
qed

section \<open>Properties\<close>

text \<open>The blocks of a non-empty buffer, in closed form.\<close>

lemma block_partition_closed:
  assumes "0 < n" and "n = length instr" and "n \<le> length block0"
  obtains block where "block_partition block0 instr n =
      Some (length (leaders instr n), block, map (set_block instr n) [0..<n])"
    and "length block = length block0" and "0 < length (leaders instr n)"
    and "\<And>j. j < length (leaders instr n) \<Longrightarrow> blk_start (block ! j) = leaders instr n ! j \<and> blk_index (block ! j) = j"
    and "\<And>j. j < length (leaders instr n) \<Longrightarrow> blk_end (block ! j) = block_stop instr n j"
proof -
  let ?ls = "leaders instr n" and ?c = "length (leaders instr n)"
  from partition_loop_inv [of n instr block0] assms obtain count block instr' where
    run: "partition_loop [0..<n] (0, block0, instr) = Some (count, block, instr')"
    and inv: "part_inv block0 instr n (count, block, instr')" by auto
  have "0 \<in> set ?ls" using assms(1) by (simp add: leaders_def is_leader_def)
  then have c: "0 < ?c" by (cases ?ls) auto
  have cl: "?c \<le> length block" using length_leaders [of instr n] assms inv by (simp add: part_inv_def)
  let ?block = "block[?c - 1 := (block ! (?c - 1))\<lparr>blk_end := n\<rparr>]"
  have "block_partition block0 instr n = Some (?c, ?block, map (set_block instr n) [0..<n])"
  proof -
    have "?c - 1 < length block" using c cl by linarith
    note upd = update_block_eq [OF this, of "\<lambda>b. b\<lparr>blk_end := n\<rparr>"]
    have "count = ?c" "instr' = map (set_block instr n) [0..<n]" using inv assms(2) by (simp_all add: part_inv_def)
    with run c upd show ?thesis by (simp add: block_partition_def)
  qed
  moreover have "blk_start (?block ! j) = ?ls ! j \<and> blk_index (?block ! j) = j" if "j < ?c" for j
    using that inv cl by (auto simp: part_inv_def nth_list_update)
  moreover have "blk_end (?block ! j) = block_stop instr n j" if "j < ?c" for j
  proof (cases "Suc j = ?c")
    case True
    then have "?c - 1 = j" by simp
    with True cl show ?thesis by (simp add: block_stop_def nth_append)
  next
    case False
    with that inv show ?thesis by (auto simp: part_inv_def block_stop_def nth_append)
  qed
  ultimately show thesis using that c inv by (simp add: part_inv_def)
qed



end
