(* ===== verification/IRSem.thy ===== *)
theory IRSem
  imports IR
begin

text \<open>
  What the intermediate code means: a program is the instruction buffer, a configuration a
  position, the return positions of the active calls and a data state. The control part is
  defined over a \<open>data semantics\<close>, an interface with two operations (the effect of an
  instruction on the data, and the outcome of a comparison); the data semantics of the C-- integer
  programs is given below and satisfies it.
\<close>

section \<open>Programs\<close>

definition jump_target :: "IR \<Rightarrow> nat option" where
  "jump_target ir = (if is_branch ir then ir_rd ir else if ir_type ir = IR_JMP then ir_rs ir else None)"

definition data_operands :: "IR \<Rightarrow> nat option list" where
  "data_operands ir =
     (if ir_type ir = IR_NOP then []
      else if ir_type ir = IR_LABEL \<or> ir_type ir = IR_JMP then [ir_rd ir, ir_rt ir]
      else if is_branch ir then [ir_rs ir, ir_rt ir]
      else [ir_rd ir, ir_rs ir, ir_rt ir])"

text \<open>The first position that satisfies a condition.\<close>

primrec index_of :: "('a \<Rightarrow> bool) \<Rightarrow> 'a list \<Rightarrow> nat option" where
  "index_of P [] = None"
| "index_of P (x # xs) = (if P x then Some 0 else map_option Suc (index_of P xs))"

definition is_label :: "nat \<Rightarrow> IR \<Rightarrow> bool" where
  "is_label l ir \<longleftrightarrow> ir_type ir = IR_LABEL \<and> ir_rs ir = Some l"

definition label_at :: "IR list \<Rightarrow> nat \<Rightarrow> nat \<Rightarrow> bool" where
  "label_at prog i l \<longleftrightarrow> i < length prog \<and> is_label l (prog ! i)"

definition label_pos :: "IR list \<Rightarrow> nat \<Rightarrow> nat option" where
  "label_pos prog l = index_of (is_label l) prog"

text \<open>The entry of a function is found by its name.\<close>

definition is_func :: "(nat \<Rightarrow> string option) \<Rightarrow> string \<Rightarrow> IR \<Rightarrow> bool" where
  "is_func name f ir \<longleftrightarrow>
     ir_type ir = IR_FUNC \<and> (case ir_rs ir of None \<Rightarrow> False | Some p \<Rightarrow> name p = Some f)"

definition func_pos :: "(nat \<Rightarrow> string option) \<Rightarrow> IR list \<Rightarrow> string \<Rightarrow> nat option" where
  "func_pos name prog f = index_of (is_func name f) prog"

type_synonym 's config = "nat \<times> nat list \<times> 's"

definition goto :: "IR list \<Rightarrow> nat option \<Rightarrow> nat list \<Rightarrow> 's \<Rightarrow> 's config option" where
  "goto prog label rets s = do { l \<leftarrow> label; t \<leftarrow> label_pos prog l; Some (t, rets, s) }"

text \<open>One step; no step from a position outside the program, a stuck one, or the last return.\<close>

definition ir_step ::
  "(IR \<Rightarrow> 's \<Rightarrow> bool option) \<Rightarrow> (IR \<Rightarrow> 's \<Rightarrow> 's option) \<Rightarrow> (nat \<Rightarrow> string option) \<Rightarrow> IR list \<Rightarrow>
   's config \<Rightarrow> 's config option" where
  "ir_step holds eff name prog c =
     (case c of (pc, rets, s) \<Rightarrow>
       if pc < length prog then
         let ir = prog ! pc in
         if ir_type ir = IR_NOP \<or> ir_type ir = IR_LABEL then Some (Suc pc, rets, s)
         else if ir_type ir = IR_JMP then goto prog (ir_rs ir) rets s
         else if is_branch ir then
           do { b \<leftarrow> holds ir s; if b then goto prog (ir_rd ir) rets s else Some (Suc pc, rets, s) }
         else if ir_type ir = IR_CALL then
           do { s \<leftarrow> eff ir s; p \<leftarrow> ir_rs ir; f \<leftarrow> name p; t \<leftarrow> func_pos name prog f; Some (t, Suc pc # rets, s) }
         else if ir_type ir = IR_RET then
           (case rets of [] \<Rightarrow> None | r # rets \<Rightarrow> do { s \<leftarrow> eff ir s; Some (r, rets, s) })
         else do { s \<leftarrow> eff ir s; Some (Suc pc, rets, s) }
       else None)"

definition config_data :: "'s config \<Rightarrow> 's" where
  "config_data c = snd (snd c)"

text \<open>The outermost function has reached its \<open>RETURN\<close>.\<close>

definition finished :: "IR list \<Rightarrow> 's config \<Rightarrow> bool" where
  "finished prog c \<longleftrightarrow> fst c < length prog \<and> ir_type (prog ! fst c) = IR_RET \<and> fst (snd c) = []"

section \<open>Behaviour of a deterministic step function\<close>

definition steps :: "('c \<Rightarrow> 'c option) \<Rightarrow> 'c \<Rightarrow> 'c \<Rightarrow> bool" where
  "steps step = (\<lambda>c d. step c = Some d)\<^sup>*\<^sup>*"

text \<open>
  The data states a run goes through, and how it ends: \<open>ends\<close> holds of the last data state of a
  run that stops, with whether it stopped by returning.
\<close>

definition visits :: "('s config \<Rightarrow> 's config option) \<Rightarrow> 's config \<Rightarrow> 's \<Rightarrow> bool" where
  "visits step c s \<longleftrightarrow> (\<exists>d. steps step c d \<and> config_data d = s)"

definition ends :: "('s config \<Rightarrow> 's config option) \<Rightarrow> IR list \<Rightarrow> 's config \<Rightarrow> bool \<times> 's \<Rightarrow> bool" where
  "ends step prog c r \<longleftrightarrow>
     (\<exists>d. steps step c d \<and> step d = None \<and> r = (finished prog d, config_data d))"

definition same_behaviour ::
  "('s config \<Rightarrow> 's config option) \<Rightarrow> IR list \<Rightarrow> 's config \<Rightarrow>
   ('s config \<Rightarrow> 's config option) \<Rightarrow> IR list \<Rightarrow> 's config \<Rightarrow> bool" where
  "same_behaviour step prog c step' prog' c' \<longleftrightarrow>
     visits step c = visits step' c' \<and> ends step prog c = ends step' prog' c'"

lemma same_behaviour_trans:
  "same_behaviour step1 p1 c1 step2 p2 c2 \<Longrightarrow> same_behaviour step2 p2 c2 step3 p3 c3 \<Longrightarrow>
     same_behaviour step1 p1 c1 step3 p3 c3"
  by (simp add: same_behaviour_def)

lemma same_behaviour_cong:
  fixes step :: "'s config \<Rightarrow> 's config option"
  assumes "step' = step" and "\<And>c :: 's config. finished prog' c = finished prog c"
  shows "same_behaviour step prog c step' prog' c"
  using assms by (simp add: same_behaviour_def ends_def [abs_def])

lemma same_behaviour_sym:
  "same_behaviour step1 p1 c1 step2 p2 c2 \<Longrightarrow> same_behaviour step2 p2 c2 step1 p1 c1"
  by (simp add: same_behaviour_def)

text \<open>
  Stuttering: related configurations both stop, or both move on to related ones, where after the
  first step only silent steps (with unchanged data) are made.
\<close>

definition silent :: "('s config \<Rightarrow> 's config option) \<Rightarrow> 's config \<Rightarrow> 's config \<Rightarrow> bool" where
  "silent step = (\<lambda>c d. step c = Some d \<and> config_data d = config_data c)\<^sup>*\<^sup>*"

definition moves :: "('s config \<Rightarrow> 's config option) \<Rightarrow> 's config \<Rightarrow> 's config \<Rightarrow> bool" where
  "moves step c d \<longleftrightarrow> (\<exists>d1. step c = Some d1 \<and> silent step d1 d)"

definition stuttering ::
  "('s config \<Rightarrow> 's config option) \<Rightarrow> IR list \<Rightarrow> ('s config \<Rightarrow> 's config option) \<Rightarrow> IR list \<Rightarrow>
   ('s config \<Rightarrow> 's config \<Rightarrow> bool) \<Rightarrow> bool" where
  "stuttering step prog step' prog' R \<longleftrightarrow>
     (\<forall>c c'. R c c' \<longrightarrow> config_data c = config_data c' \<and>
        ((step c = None \<and> step' c' = None \<and> finished prog c = finished prog' c') \<or>
         (\<exists>d d'. moves step c d \<and> moves step' c' d' \<and> R d d')))"

lemma silent_steps: "silent step c d \<Longrightarrow> steps step c d"
  unfolding silent_def steps_def
  by (induction rule: rtranclp_induct) (auto intro: rtranclp.rtrancl_into_rtrancl)

lemma silent_data: "silent step c d \<Longrightarrow> config_data d = config_data c"
  unfolding silent_def by (induction rule: rtranclp_induct) auto

lemma silent_step:
  "step c = Some d \<Longrightarrow> config_data d = config_data c \<Longrightarrow> silent step d e \<Longrightarrow> silent step c e"
  unfolding silent_def by (rule converse_rtranclp_into_rtranclp) simp_all

lemma steps_refl [simp]: "steps step c c"
  by (simp add: steps_def)

lemma steps_step: "step c = Some d \<Longrightarrow> steps step d e \<Longrightarrow> steps step c e"
  unfolding steps_def by (rule converse_rtranclp_into_rtranclp)

lemma steps_trans: "steps step c d \<Longrightarrow> steps step d e \<Longrightarrow> steps step c e"
  unfolding steps_def by (rule rtranclp_trans)

lemma moves_steps: "moves step c d \<Longrightarrow> steps step c d"
  unfolding moves_def by (auto intro: steps_step silent_steps)

lemma moves_step: "step c = Some d \<Longrightarrow> moves step c d"
  by (simp add: moves_def silent_def)

lemma moves_2:
  "step c = Some d1 \<Longrightarrow> step d1 = Some d \<Longrightarrow> config_data d = config_data d1 \<Longrightarrow> moves step c d"
  by (auto simp: moves_def silent_def)

lemma moves_silent: "step c = Some d1 \<Longrightarrow> silent step d1 d \<Longrightarrow> moves step c d"
  by (auto simp: moves_def)

text \<open>A run of \<open>n\<close> steps, to recurse on.\<close>

primrec nsteps :: "('c \<Rightarrow> 'c option) \<Rightarrow> nat \<Rightarrow> 'c \<Rightarrow> 'c option" where
  "nsteps step 0 c = Some c"
| "nsteps step (Suc n) c = do { d \<leftarrow> step c; nsteps step n d }"

lemma steps_iff_nsteps: "steps step c d \<longleftrightarrow> (\<exists>n. nsteps step n c = Some d)"
proof
  assume "steps step c d"
  then show "\<exists>n. nsteps step n c = Some d"
    unfolding steps_def
  proof (induction rule: converse_rtranclp_induct)
    case base
    show ?case by (rule exI [of _ 0]) simp
  next
    case (step y z)
    then obtain n where "nsteps step n z = Some d" by blast
    with step(1) have "nsteps step (Suc n) y = Some d" by simp
    then show ?case by blast
  qed
next
  have "nsteps step n c = Some d \<Longrightarrow> steps step c d" for n
    by (induction n arbitrary: c) (auto simp: bind_Some_iff intro: steps_step)
  then show "\<exists>n. nsteps step n c = Some d \<Longrightarrow> steps step c d" by blast
qed

text \<open>A run splits at every point a silent path passes.\<close>

lemma silent_split:
  assumes "silent step c d" and "nsteps step n c = Some e"
  shows "config_data e = config_data d \<and> steps step e d \<or> (\<exists>m\<le>n. nsteps step m d = Some e)"
  using assms unfolding silent_def
proof (induction arbitrary: n rule: converse_rtranclp_induct)
  case base
  then show ?case by auto
next
  case (step y z)
  have sil: "silent step z d" using step(2) by (simp add: silent_def)
  show ?case
  proof (cases n)
    case 0
    with step sil have "steps step e d" "config_data e = config_data d"
      using silent_data [OF sil] silent_steps [OF sil] by (auto intro: steps_step)
    then show ?thesis by simp
  next
    case (Suc k)
    with step have "nsteps step k z = Some e" by simp
    from step.IH [OF this] Suc show ?thesis by (meson le_SucI)
  qed
qed

lemma moves_split:
  assumes "moves step c d" and "nsteps step n c = Some e"
  shows "e = c \<or> config_data e = config_data d \<and> steps step e d \<or> (\<exists>m<n. nsteps step m d = Some e)"
proof (cases n)
  case (Suc k)
  from assms(1) obtain d1 where d1: "step c = Some d1" "silent step d1 d" by (auto simp: moves_def)
  with assms(2) Suc have "nsteps step k d1 = Some e" by simp
  from silent_split [OF d1(2) this] Suc show ?thesis by (auto simp: less_Suc_eq_le)
qed (use assms in auto)

lemma stuttering_data:
  "stuttering step prog step' prog' R \<Longrightarrow> R c c' \<Longrightarrow> config_data c = config_data c'"
  unfolding stuttering_def by blast

lemma stuttering_cases:
  assumes "stuttering step prog step' prog' R" and "R c c'"
  obtains (stop) "step c = None" "step' c' = None" "finished prog c = finished prog' c'"
  | (move) d d' where "moves step c d" "moves step' c' d'" "R d d'"
  using assms(1) [unfolded stuttering_def, rule_format, OF assms(2)]
  by (elim conjE disjE exE) (erule (2) stop, erule (2) move)

lemma visitsI: "steps step c d \<Longrightarrow> config_data d = s \<Longrightarrow> visits step c s"
  unfolding visits_def by blast

lemma endsI:
  "steps step c d \<Longrightarrow> step d = None \<Longrightarrow> r = (finished prog d, config_data d) \<Longrightarrow> ends step prog c r"
  unfolding ends_def by blast

definition flip :: "('a \<Rightarrow> 'b \<Rightarrow> bool) \<Rightarrow> 'b \<Rightarrow> 'a \<Rightarrow> bool" where
  "flip R a b = R b a"

lemma stuttering_flip:
  assumes "stuttering step prog step' prog' R"
  shows "stuttering step' prog' step prog (flip R)"
  unfolding stuttering_def
proof (intro allI impI conjI)
  fix c c'
  assume "flip R c c'"
  then have R: "R c' c" by (simp add: flip_def)
  from stuttering_data [OF assms R] show "config_data c = config_data c'" by simp
  from assms R show "(step' c = None \<and> step c' = None \<and> finished prog' c = finished prog c') \<or>
      (\<exists>d d'. moves step' c d \<and> moves step c' d' \<and> flip R d d')"
  proof (cases rule: stuttering_cases)
    case (move d d')
    then show ?thesis unfolding flip_def by blast
  qed simp
qed

lemma stuttering_visits:
  assumes "stuttering step prog step' prog' R" and "R c c'" and "visits step c s"
  shows "visits step' c' s"
proof -
  from assms(3) obtain e n where e: "nsteps step n c = Some e" "config_data e = s"
    by (auto simp: visits_def steps_iff_nsteps)
  from e(1) assms(2) show ?thesis
  proof (induction n arbitrary: c c' rule: less_induct)
    case (less n)
    note eq = stuttering_data [OF assms(1) less.prems(2)]
    from assms(1) less.prems(2) show ?case
    proof (cases rule: stuttering_cases)
      case stop
      with less.prems(1) have "e = c" by (cases n) auto
      with e eq show ?thesis by (auto intro!: visitsI [of _ _ c'])
    next
      case 2: (move d d')
      note eq' = stuttering_data [OF assms(1) 2(3)]
      from moves_split [OF 2(1) less.prems(1)] consider "e = c" | "config_data e = config_data d"
        | m where "m < n" "nsteps step m d = Some e" by blast
      then show ?thesis
      proof cases
        case 1
        with e eq show ?thesis by (auto intro!: visitsI [of _ _ c'])
      next
        case 3
        from less.IH [OF 3 2(3)] moves_steps [OF 2(2)] show ?thesis
          by (auto simp: visits_def intro: steps_trans)
      qed (use e eq' moves_steps [OF 2(2)] in \<open>auto intro: visitsI\<close>)
    qed
  qed
qed

lemma steps_stop: "steps step c d \<Longrightarrow> step c = None \<Longrightarrow> d = c"
  unfolding steps_def by (erule converse_rtranclpE) auto

lemma stuttering_ends:
  assumes "stuttering step prog step' prog' R" and "R c c'" and "ends step prog c r"
  shows "ends step' prog' c' r"
proof -
  from assms(3) obtain e n where e: "nsteps step n c = Some e" "step e = None"
    "r = (finished prog e, config_data e)"
    by (auto simp: ends_def steps_iff_nsteps)
  from e(1) assms(2) show ?thesis
  proof (induction n arbitrary: c c' rule: less_induct)
    case (less n)
    note eq = stuttering_data [OF assms(1) less.prems(2)]
    from assms(1) less.prems(2) show ?case
    proof (cases rule: stuttering_cases)
      case stop
      with less.prems(1) have "e = c" by (cases n) auto
      with e stop eq show ?thesis by (auto intro!: endsI [of _ _ c'])
    next
      case 2: (move d d')
      have "\<exists>m<n. nsteps step m d = Some e"
      proof -
        from moves_split [OF 2(1) less.prems(1)] consider "e = c" | "steps step e d"
          | m where "m < n" "nsteps step m d = Some e" by blast
        then show ?thesis
        proof cases
          case 1
          with e(2) 2(1) show ?thesis by (auto simp: moves_def)
        next
          case 2
          with e(2) have "d = e" by (auto dest: steps_stop)
          moreover have "n \<noteq> 0"
            using less.prems(1) e(2) \<open>moves step c d\<close> by (cases n) (auto simp: moves_def)
          ultimately show ?thesis by (intro exI [of _ 0]) simp
        qed blast
      qed
      then obtain m where "m < n" "nsteps step m d = Some e" by blast
      from less.IH [OF this 2(3)] moves_steps [OF 2(2)] show ?thesis
        by (auto simp: ends_def intro: steps_trans)
    qed
  qed
qed

theorem stuttering_same_behaviour:
  assumes "stuttering step prog step' prog' R" and "R c c'"
  shows "same_behaviour step prog c step' prog' c'"
proof -
  note flip = stuttering_flip [OF assms(1)]
  have "flip R c' c" using assms(2) by (simp add: flip_def)
  with assms flip show ?thesis
    unfolding same_behaviour_def
    by (intro conjI ext iffI) (blast intro: stuttering_visits stuttering_ends)+
qed

section \<open>Positions\<close>

lemma index_of_Some:
  "index_of P xs = Some i \<longleftrightarrow> i < length xs \<and> P (xs ! i) \<and> (\<forall>j<i. \<not> P (xs ! j))"
proof (induction xs arbitrary: i)
  case (Cons x xs)
  show ?case
    by (cases i) (auto simp: Cons.IH less_Suc_eq_0_disj)
qed simp

lemma index_of_None: "index_of P xs = None \<longleftrightarrow> (\<forall>x\<in>set xs. \<not> P x)"
  by (induction xs) auto

lemma index_of_cong: "map P xs = map Q ys \<Longrightarrow> index_of P xs = index_of Q ys"
proof (induction xs arbitrary: ys)
  case (Cons x xs)
  then show ?case by (cases ys) auto
qed simp

lemma index_of_update:
  "P (xs ! i) = P y \<Longrightarrow> index_of P (xs[i := y]) = index_of P xs"
  by (rule index_of_cong, cases "i < length xs") (simp_all add: map_update list_update_same_conv list_update_beyond not_less)

lemma index_of_filter:
  "(\<And>x. P x \<Longrightarrow> Q x) \<Longrightarrow>
   index_of P (filter Q xs) = map_option (\<lambda>i. length (filter Q (take i xs))) (index_of P xs)"
  by (induction xs) (auto simp: option.map_comp comp_def)

section \<open>The interface of a data semantics\<close>

text \<open>
  All the control part needs of the data: the opposite comparison has the opposite outcome, and
  an outcome does not depend on the label of the branch.
\<close>

locale data_semantics =
  fixes holds :: "IR \<Rightarrow> 's \<Rightarrow> bool option"
    and eff :: "IR \<Rightarrow> 's \<Rightarrow> 's option"
  assumes holds_anti:
    "is_branch ir \<Longrightarrow> holds (ir\<lparr>ir_type := get_relop_anti (ir_type ir)\<rparr>) s = map_option Not (holds ir s)"
    and holds_label: "holds (ir\<lparr>ir_rd := l\<rparr>) s = holds ir s"

section \<open>The data semantics of integer programs\<close>

text \<open>
  A value is an integer or an address inside an operand of a frame. Each activation has its own
  cells; \<open>ARG\<close> pushes, \<open>PARAM\<close> pops, \<open>CALL\<close> opens a frame that remembers where the result goes.
\<close>

datatype ir_value = Vint cint | Vptr nat nat int

record machine =
  frames :: "(nat \<times> nat option) list"
  next_frame :: nat
  cells :: "nat \<times> nat \<times> int \<Rightarrow> ir_value option"
  args :: "ir_value list"
  inputs :: "cint list"
  outputs :: "cint list"

type_synonym ope_heap = "nat \<Rightarrow> Operand_ option"

definition this_frame :: "machine \<Rightarrow> nat option" where
  "this_frame s = (case frames s of [] \<Rightarrow> None | (f, _) # _ \<Rightarrow> Some f)"

definition eval_operand :: "ope_heap \<Rightarrow> machine \<Rightarrow> nat option \<Rightarrow> ir_value option" where
  "eval_operand h s ptr =
     do {
       p \<leftarrow> ptr;
       ope \<leftarrow> h p;
       if ope_type ope = OPE_INTEGER then Some (Vint (ope_integer ope))
       else if ope_type ope \<in> {OPE_VAR, OPE_BOOL, OPE_TEMP, OPE_ADDR} then
         do { f \<leftarrow> this_frame s; cells s (f, p, 0) }
       else None
     }"

definition assign_operand :: "nat option \<Rightarrow> ir_value \<Rightarrow> machine \<Rightarrow> machine option" where
  "assign_operand ptr v s =
     do { p \<leftarrow> ptr; f \<leftarrow> this_frame s; Some (s\<lparr>cells := (cells s)((f, p, 0) \<mapsto> v)\<rparr>) }"

fun ir_arith :: "IR_Type \<Rightarrow> ir_value \<Rightarrow> ir_value \<Rightarrow> ir_value option" where
  "ir_arith op (Vint a) (Vint b) = map_option Vint (calc_integer op a b)"
| "ir_arith IR_ADD (Vptr f p k) (Vint b) = Some (Vptr f p (k + sint b))"
| "ir_arith _ _ _ = None"

fun relop_holds :: "IR_Type \<Rightarrow> cint \<Rightarrow> cint \<Rightarrow> bool" where
  "relop_holds IR_BEQ a b \<longleftrightarrow> a = b"
| "relop_holds IR_BLT a b \<longleftrightarrow> a <s b"
| "relop_holds IR_BLE a b \<longleftrightarrow> a \<le>s b"
| "relop_holds IR_BGT a b \<longleftrightarrow> b <s a"
| "relop_holds IR_BGE a b \<longleftrightarrow> b \<le>s a"
| "relop_holds IR_BNE a b \<longleftrightarrow> a \<noteq> b"
| "relop_holds _ a b \<longleftrightarrow> False"

definition ir_holds :: "ope_heap \<Rightarrow> IR \<Rightarrow> machine \<Rightarrow> bool option" where
  "ir_holds h ir s =
     (case (eval_operand h s (ir_rs ir), eval_operand h s (ir_rt ir)) of
       (Some (Vint a), Some (Vint b)) \<Rightarrow> Some (relop_holds (ir_type ir) a b)
     | _ \<Rightarrow> None)"

definition ir_eff :: "ope_heap \<Rightarrow> IR \<Rightarrow> machine \<Rightarrow> machine option" where
  "ir_eff h ir s =
     (let ty = ir_type ir; rd = ir_rd ir; rs = ir_rs ir; rt = ir_rt ir in
      if ty = IR_FUNC \<or> ty = IR_DEC then Some s
      else if ty = IR_ASSIGN then do { v \<leftarrow> eval_operand h s rs; assign_operand rd v s }
      else if ty \<in> {IR_ADD, IR_SUB, IR_MUL, IR_DIV} then
        do { a \<leftarrow> eval_operand h s rs; b \<leftarrow> eval_operand h s rt; v \<leftarrow> ir_arith ty a b; assign_operand rd v s }
      else if ty = IR_ADDR then do { p \<leftarrow> rs; f \<leftarrow> this_frame s; assign_operand rd (Vptr f p 0) s }
      else if ty = IR_DEREF_R then
        do { a \<leftarrow> eval_operand h s rs;
             case a of Vptr f p k \<Rightarrow> do { v \<leftarrow> cells s (f, p, k); assign_operand rd v s } | _ \<Rightarrow> None }
      else if ty = IR_DEREF_L then
        do { a \<leftarrow> eval_operand h s rs; v \<leftarrow> eval_operand h s rt;
             case a of Vptr f p k \<Rightarrow> Some (s\<lparr>cells := (cells s)((f, p, k) \<mapsto> v)\<rparr>) | _ \<Rightarrow> None }
      else if ty = IR_ARG then do { v \<leftarrow> eval_operand h s rs; Some (s\<lparr>args := v # args s\<rparr>) }
      else if ty = IR_PARAM then
        (case args s of [] \<Rightarrow> None | v # vs \<Rightarrow> assign_operand rs v (s\<lparr>args := vs\<rparr>))
      else if ty = IR_CALL then
        Some (s\<lparr>frames := (next_frame s, rd) # frames s, next_frame := next_frame s + 1\<rparr>)
      else if ty = IR_RET then
        (case frames s of
           [] \<Rightarrow> None
         | (_, dst) # fs \<Rightarrow>
             do { v \<leftarrow> eval_operand h s rs;
                  case dst of None \<Rightarrow> Some (s\<lparr>frames := fs\<rparr>) | Some _ \<Rightarrow> assign_operand dst v (s\<lparr>frames := fs\<rparr>) })
      else if ty = IR_READ then
        (case inputs s of [] \<Rightarrow> None | x # xs \<Rightarrow> assign_operand rd (Vint x) (s\<lparr>inputs := xs\<rparr>))
      else if ty = IR_WRITE then
        do { v \<leftarrow> eval_operand h s rs;
             case v of Vint x \<Rightarrow> Some (s\<lparr>outputs := outputs s @ [x]\<rparr>) | _ \<Rightarrow> None }
      else None)"

definition ope_names :: "ope_heap \<Rightarrow> nat \<Rightarrow> string option" where
  "ope_names h p = map_option ope_name (h p)"

abbreviation ir_exec :: "ope_heap \<Rightarrow> IR list \<Rightarrow> machine config \<Rightarrow> machine config option" where
  "ir_exec h prog \<equiv> ir_step (ir_holds h) (ir_eff h) (ope_names h) prog"

lemma is_branch_iff:
  "is_branch ir \<longleftrightarrow> ir_type ir \<in> {IR_BEQ, IR_BLT, IR_BLE, IR_BGT, IR_BGE, IR_BNE}"
  by (cases "ir_type ir") (auto simp: is_branch_def less_eq_IR_Type_def)

lemma relop_holds_anti:
  "t \<in> {IR_BEQ, IR_BLT, IR_BLE, IR_BGT, IR_BGE, IR_BNE} \<Longrightarrow>
     relop_holds (get_relop_anti t) a b \<longleftrightarrow> \<not> relop_holds t a b"
  by (elim insertE; simp add: get_relop_anti_def relop_dict_def word_sless_alt word_sle_eq not_less not_le)

interpretation ints: data_semantics "ir_holds h" "ir_eff h" for h
proof
  fix ir s
  assume "is_branch ir"
  then show "ir_holds h (ir\<lparr>ir_type := get_relop_anti (ir_type ir)\<rparr>) s = map_option Not (ir_holds h ir s)"
    by (auto simp: ir_holds_def is_branch_iff relop_holds_anti split: option.splits ir_value.splits)
next
  fix ir l s
  show "ir_holds h (ir\<lparr>ir_rd := l\<rparr>) s = ir_holds h ir s"
    by (simp add: ir_holds_def split: option.splits ir_value.splits)
qed

end
