(* ===== verification/Preprocess.thy ===== *)
theory Preprocess
  imports IRSem
begin

text \<open>
  Correctness of \<open>preprocess_ir\<close>: it is defined on every well-formed buffer, its label counts
  are the numbers of references, and the rewritten program behaves like the original one. The
  pass is decomposed into four elementary rewritings and the final compression.
\<close>

section \<open>Well-formed programs\<close>

definition refs :: "IR list \<Rightarrow> nat \<Rightarrow> nat" where
  "refs prog l = length (filter (\<lambda>ir. jump_target ir = Some l) prog)"

text \<open>
  \<open>L\<close> is the set of label operands. Labels are defined once, every jump has its label, and
  label operands stand at label positions only.
\<close>

definition prog_wf :: "nat set \<Rightarrow> IR list \<Rightarrow> bool" where
  "prog_wf L prog \<longleftrightarrow>
     (\<forall>i < length prog. ir_type (prog ! i) = IR_LABEL \<longrightarrow> (\<exists>l\<in>L. ir_rs (prog ! i) = Some l)) \<and>
     (\<forall>i j l. label_at prog i l \<longrightarrow> label_at prog j l \<longrightarrow> i = j) \<and>
     (\<forall>i < length prog. can_jump (prog ! i) \<longrightarrow> (\<exists>l j. jump_target (prog ! i) = Some l \<and> label_at prog j l)) \<and>
     (\<forall>i < length prog. \<forall>p\<in>L. Some p \<notin> set (data_operands (prog ! i)))"

lemma prog_wf_label: "prog_wf L prog \<Longrightarrow> label_at prog i l \<Longrightarrow> l \<in> L"
  unfolding prog_wf_def label_at_def is_label_def by (metis option.inject)

lemma prog_wf_label_ex:
  "prog_wf L prog \<Longrightarrow> i < length prog \<Longrightarrow> ir_type (prog ! i) = IR_LABEL \<Longrightarrow>
     \<exists>l. ir_rs (prog ! i) = Some l \<and> label_at prog i l"
  unfolding prog_wf_def label_at_def is_label_def by blast

lemma prog_wf_unique: "prog_wf L prog \<Longrightarrow> label_at prog i l \<Longrightarrow> label_at prog j l \<Longrightarrow> i = j"
  unfolding prog_wf_def by blast

lemma prog_wf_jump:
  "prog_wf L prog \<Longrightarrow> i < length prog \<Longrightarrow> can_jump (prog ! i) \<Longrightarrow>
     \<exists>l j. jump_target (prog ! i) = Some l \<and> label_at prog j l"
  unfolding prog_wf_def by blast

lemma prog_wf_data:
  "prog_wf L prog \<Longrightarrow> i < length prog \<Longrightarrow> p \<in> L \<Longrightarrow> Some p \<notin> set (data_operands (prog ! i))"
  unfolding prog_wf_def by blast

lemma prog_wfI:
  assumes "\<And>i. i < length prog \<Longrightarrow> ir_type (prog ! i) = IR_LABEL \<Longrightarrow> \<exists>l\<in>L. ir_rs (prog ! i) = Some l"
    and "\<And>i j l. label_at prog i l \<Longrightarrow> label_at prog j l \<Longrightarrow> i = j"
    and "\<And>i. i < length prog \<Longrightarrow> can_jump (prog ! i) \<Longrightarrow> \<exists>l j. jump_target (prog ! i) = Some l \<and> label_at prog j l"
    and "\<And>i p. i < length prog \<Longrightarrow> p \<in> L \<Longrightarrow> Some p \<notin> set (data_operands (prog ! i))"
  shows "prog_wf L prog"
  unfolding prog_wf_def by (intro conjI allI impI ballI; rule assms; assumption)

lemma label_pos_at:
  assumes "prog_wf L prog" and "label_at prog i l"
  shows "label_pos prog l = Some i"
proof -
  have "\<not> is_label l (prog ! j)" if "j < i" for j
    using prog_wf_unique [OF assms, of j] assms(2) that by (auto simp: label_at_def)
  with assms(2) show ?thesis by (simp add: label_pos_def index_of_Some label_at_def)
qed

lemma can_jump_iff: "can_jump ir \<longleftrightarrow> is_branch ir \<or> ir_type ir = IR_JMP"
  by (simp add: can_jump_def)

section \<open>The elementary rewritings\<close>

definition nop :: "IR \<Rightarrow> IR" where
  "nop ir = ir\<lparr>ir_type := IR_NOP\<rparr>"

definition redirect :: "nat \<Rightarrow> nat \<Rightarrow> IR \<Rightarrow> IR" where
  "redirect q p ir = fst (replace_in_instr (Some q) (Some p) 7 ir)"

inductive ir_rewrite :: "IR list \<Rightarrow> IR list \<Rightarrow> bool" where
  drop_jump: "Suc i < length prog \<Longrightarrow> ir_type (prog ! i) = IR_JMP \<Longrightarrow> ir_rs (prog ! i) = Some l \<Longrightarrow>
    label_at prog (Suc i) l \<Longrightarrow> ir_rewrite prog (prog[i := nop (prog ! i)])"
| drop_label: "label_at prog i l \<Longrightarrow> refs prog l = 0 \<Longrightarrow>
    ir_rewrite prog (prog[i := (prog ! i)\<lparr>ir_type := IR_NOP, ir_rs := None\<rparr>])"
| invert: "i + 2 < length prog \<Longrightarrow> is_branch (prog ! i) \<Longrightarrow> ir_rd (prog ! i) = Some l \<Longrightarrow>
    ir_type (prog ! (i + 1)) = IR_JMP \<Longrightarrow> label_at prog (i + 2) l \<Longrightarrow>
    ir_rewrite prog (prog[i := (prog ! i)\<lparr>ir_type := get_relop_anti (ir_type (prog ! i)), ir_rd := ir_rs (prog ! (i + 1))\<rparr>,
      i + 1 := nop (prog ! (i + 1))])"
| merge: "label_at prog j q \<Longrightarrow> label_at prog i p \<Longrightarrow> j < i \<Longrightarrow>
    (\<forall>k. j < k \<and> k < i \<longrightarrow> ir_type (prog ! k) = IR_NOP) \<Longrightarrow>
    ir_rewrite prog ((map (redirect q p) prog)[i := (redirect q p (prog ! i))\<lparr>ir_type := IR_NOP, ir_rs := None\<rparr>])"

lemma ir_rewrite_length: "ir_rewrite prog prog' \<Longrightarrow> length prog' = length prog"
  by (induction rule: ir_rewrite.induct) simp_all

lemma nop_type [simp]: "ir_type (nop ir) = IR_NOP"
  by (simp add: nop_def)

lemma is_label_nop [simp]: "ir_type ir = IR_NOP \<Longrightarrow> \<not> is_label l ir"
  by (simp add: is_label_def)

lemma can_jump_nop [simp]: "ir_type ir = IR_NOP \<Longrightarrow> \<not> can_jump ir"
  by (simp add: can_jump_iff is_branch_iff)

lemma data_operands_nop [simp]: "ir_type ir = IR_NOP \<Longrightarrow> data_operands ir = []"
  by (simp add: data_operands_def)

lemma label_at_type: "label_at prog i l \<Longrightarrow> ir_type (prog ! i) = IR_LABEL \<and> ir_rs (prog ! i) = Some l \<and> i < length prog"
  by (simp add: label_at_def is_label_def)

lemma label_at_update:
  "(\<And>l. is_label l (prog ! i) = is_label l ir) \<Longrightarrow> label_at (prog[i := ir]) k l = label_at prog k l"
  by (cases "k = i") (auto simp: label_at_def nth_list_update)

text \<open>An update that keeps the labels and does not add jumps or label operands.\<close>

lemma prog_wf_update:
  assumes wf: "prog_wf L prog"
    and lab: "\<And>l. is_label l (prog ! i) = is_label l ir"
    and "ir_type ir \<noteq> IR_LABEL"
    and "can_jump ir \<Longrightarrow> \<exists>l j. jump_target ir = Some l \<and> label_at prog j l"
    and "\<And>p. p \<in> L \<Longrightarrow> Some p \<notin> set (data_operands ir)"
  shows "prog_wf L (prog[i := ir])"
proof (rule prog_wfI)
  fix k
  assume "k < length (prog[i := ir])" "ir_type (prog[i := ir] ! k) = IR_LABEL"
  with assms(3) wf show "\<exists>l\<in>L. ir_rs (prog[i := ir] ! k) = Some l"
    by (cases "k = i") (auto simp: prog_wf_def)
next
  fix k j l
  assume "label_at (prog[i := ir]) k l" "label_at (prog[i := ir]) j l"
  with prog_wf_unique [OF wf] show "k = j" by (simp add: label_at_update [OF lab])
next
  fix k
  assume "k < length (prog[i := ir])" "can_jump (prog[i := ir] ! k)"
  with assms(4) prog_wf_jump [OF wf, of k]
  show "\<exists>l j. jump_target (prog[i := ir] ! k) = Some l \<and> label_at (prog[i := ir]) j l"
    by (cases "k = i") (auto simp: label_at_update [OF lab])
next
  fix k p
  assume "k < length (prog[i := ir])" "p \<in> L"
  with assms(5) prog_wf_data [OF wf] show "Some p \<notin> set (data_operands (prog[i := ir] ! k))"
    by (cases "k = i") auto
qed

lemma prog_wf_drop_jump:
  assumes "prog_wf L prog" and "ir_type (prog ! i) = IR_JMP"
  shows "prog_wf L (prog[i := nop (prog ! i)])"
  using assms by (intro prog_wf_update) (auto simp: is_label_def)

lemma refs_0:
  "refs prog l = 0 \<Longrightarrow> k < length prog \<Longrightarrow> jump_target (prog ! k) \<noteq> Some l"
  by (auto simp: refs_def filter_empty_conv)

lemma label_at_drop:
  "ir_type ir = IR_NOP \<Longrightarrow> label_at (prog[i := ir]) k l \<longleftrightarrow> label_at prog k l \<and> k \<noteq> i"
  by (cases "k = i") (auto simp: label_at_def)

lemma prog_wf_drop_label:
  assumes wf: "prog_wf L prog" and l: "label_at prog i l" "refs prog l = 0" and ir: "ir_type ir = IR_NOP"
  shows "prog_wf L (prog[i := ir])"
proof (rule prog_wfI)
  fix k
  assume "k < length (prog[i := ir])" "ir_type (prog[i := ir] ! k) = IR_LABEL"
  with ir wf show "\<exists>l\<in>L. ir_rs (prog[i := ir] ! k) = Some l"
    by (cases "k = i") (auto simp: prog_wf_def)
next
  fix k j l
  assume "label_at (prog[i := ir]) k l" "label_at (prog[i := ir]) j l"
  with prog_wf_unique [OF wf, of k l j] show "k = j" by (simp add: label_at_drop [OF ir])
next
  fix k
  assume k: "k < length (prog[i := ir])" "can_jump (prog[i := ir] ! k)"
  then have "k \<noteq> i" using ir by auto
  with k prog_wf_jump [OF wf, of k] obtain m j where m: "jump_target (prog ! k) = Some m" "label_at prog j m"
    by auto
  moreover have "j \<noteq> i"
    using m l refs_0 [OF l(2), of k] k(1) by (auto simp: label_at_def is_label_def)
  ultimately show "\<exists>l j. jump_target (prog[i := ir] ! k) = Some l \<and> label_at (prog[i := ir]) j l"
    using \<open>k \<noteq> i\<close> by (auto simp: label_at_drop [OF ir])
next
  fix k p
  assume "k < length (prog[i := ir])" "p \<in> L"
  with ir prog_wf_data [OF wf] show "Some p \<notin> set (data_operands (prog[i := ir] ! k))"
    by (cases "k = i") auto
qed

lemma get_relop_anti_branch:
  "is_branch ir \<Longrightarrow> is_branch (ir\<lparr>ir_type := get_relop_anti (ir_type ir), ir_rd := l\<rparr>)"
  unfolding is_branch_iff by (auto simp: get_relop_anti_def relop_dict_def)

lemma is_branch_types: "is_branch ir \<Longrightarrow> ir_type ir \<notin> {IR_NOP, IR_LABEL, IR_FUNC, IR_JMP, IR_CALL, IR_RET}"
  by (auto simp: is_branch_iff)

definition inverted :: "IR list \<Rightarrow> nat \<Rightarrow> IR" where
  "inverted prog i = (prog ! i)\<lparr>ir_type := get_relop_anti (ir_type (prog ! i)), ir_rd := ir_rs (prog ! (i + 1))\<rparr>"

lemma inverted_branch: "is_branch (prog ! i) \<Longrightarrow> is_branch (inverted prog i)"
  by (simp add: inverted_def get_relop_anti_branch)

lemma inverted_target: "is_branch (prog ! i) \<Longrightarrow> jump_target (inverted prog i) = ir_rs (prog ! (i + 1))"
  using inverted_branch [of prog i] by (simp add: jump_target_def) (simp add: inverted_def)

lemma jump_target_JMP: "ir_type ir = IR_JMP \<Longrightarrow> jump_target ir = ir_rs ir \<and> can_jump ir"
  by (simp add: jump_target_def can_jump_iff is_branch_iff)

lemma prog_wf_invert:
  assumes wf: "prog_wf L prog" and "i + 2 < length prog" and br: "is_branch (prog ! i)"
    and jmp: "ir_type (prog ! (i + 1)) = IR_JMP"
  shows "prog_wf L (prog[i := inverted prog i, i + 1 := nop (prog ! (i + 1))])"
proof -
  have "prog_wf L (prog[i := inverted prog i])"
  proof (rule prog_wf_update [OF wf])
    show "is_label l (prog ! i) = is_label l (inverted prog i)" for l
      using is_branch_types [OF br] is_branch_types [OF inverted_branch [OF br]] by (simp add: is_label_def)
    show "ir_type (inverted prog i) \<noteq> IR_LABEL"
      using is_branch_types [OF inverted_branch [OF br]] by simp
    show "\<exists>l j. jump_target (inverted prog i) = Some l \<and> label_at prog j l"
      using prog_wf_jump [OF wf, of "i + 1"] jump_target_JMP [OF jmp] assms(2)
      by (simp add: inverted_target [OF br])
    show "Some p \<notin> set (data_operands (inverted prog i))" if "p \<in> L" for p
      using prog_wf_data [OF wf _ that, of i] assms(2) inverted_branch [OF br] br
        is_branch_types [OF br] is_branch_types [OF inverted_branch [OF br]]
      by (simp add: data_operands_def) (simp add: inverted_def)
  qed
  from prog_wf_drop_jump [OF this, of "i + 1"] jmp show ?thesis by simp
qed

lemma redirect_unfold:
  "redirect q p ir =
     (if ir_type ir = IR_NOP then ir
      else ir\<lparr>ir_rd := if ir_rd ir = Some p then Some q else ir_rd ir,
              ir_rs := if ir_rs ir = Some p then Some q else ir_rs ir,
              ir_rt := if ir_rt ir = Some p then Some q else ir_rt ir\<rparr>)"
proof -
  have "bit (7 :: nat) REP_SRC" "bit (7 :: nat) REP_DST"
    by (simp_all add: REP_SRC_def REP_DST_def bit_nat_def)
  then show ?thesis by (simp add: redirect_def replace_in_instr_def Let_def)
qed

lemma redirect_type [simp]: "ir_type (redirect q p ir) = ir_type ir"
  by (simp add: redirect_unfold)

lemma redirect_branch [simp]: "is_branch (redirect q p ir) = is_branch ir"
  by (simp add: is_branch_def)

text \<open>Where the label operands of an instruction stand.\<close>

lemma redirect_branch_eq:
  assumes "Some p \<notin> set (data_operands ir)" and "is_branch ir"
  shows "redirect q p ir = (if ir_rd ir = Some p then ir\<lparr>ir_rd := Some q\<rparr> else ir)"
proof -
  from assms is_branch_types [OF assms(2)]
  have "ir_rs ir \<noteq> Some p" "ir_rt ir \<noteq> Some p" "ir_type ir \<noteq> IR_NOP"
    by (auto simp: data_operands_def)
  then show ?thesis by (cases ir) (simp add: redirect_unfold)
qed

lemma redirect_rs_eq:
  assumes "Some p \<notin> set (data_operands ir)" and "ir_type ir = IR_LABEL \<or> ir_type ir = IR_JMP"
  shows "redirect q p ir = (if ir_rs ir = Some p then ir\<lparr>ir_rs := Some q\<rparr> else ir)"
proof -
  from assms have "ir_rd ir \<noteq> Some p" "ir_rt ir \<noteq> Some p" "ir_type ir \<noteq> IR_NOP"
    by (auto simp: data_operands_def)
  then show ?thesis by (cases ir) (simp add: redirect_unfold)
qed

lemma redirect_other_eq:
  assumes "Some p \<notin> set (data_operands ir)" and "\<not> is_branch ir"
    and "ir_type ir \<noteq> IR_LABEL" and "ir_type ir \<noteq> IR_JMP"
  shows "redirect q p ir = ir"
proof (cases "ir_type ir = IR_NOP")
  case False
  with assms have "ir_rd ir \<noteq> Some p" "ir_rs ir \<noteq> Some p" "ir_rt ir \<noteq> Some p"
    by (auto simp: data_operands_def)
  then show ?thesis by (cases ir) (simp add: redirect_unfold)
qed (simp add: redirect_unfold)

lemma is_branch_update [simp]:
  "is_branch (ir\<lparr>ir_rd := x\<rparr>) = is_branch ir" "is_branch (ir\<lparr>ir_rs := x\<rparr>) = is_branch ir"
  by (simp_all add: is_branch_def)

lemma redirect_hit:
  assumes "Some p \<notin> set (data_operands ir)" and "jump_target ir = Some p"
  shows "redirect q p ir = (if is_branch ir then ir\<lparr>ir_rd := Some q\<rparr> else ir\<lparr>ir_rs := Some q\<rparr>)"
proof (cases "is_branch ir")
  case True
  with assms show ?thesis by (simp add: redirect_branch_eq jump_target_def)
next
  case False
  with assms(2) have "ir_type ir = IR_JMP" "ir_rs ir = Some p" by (auto simp: jump_target_def split: if_splits)
  with assms(1) False show ?thesis by (simp add: redirect_rs_eq)
qed

lemma redirect_miss:
  assumes "Some p \<notin> set (data_operands ir)" and "jump_target ir \<noteq> Some p" and "\<not> is_label p ir"
  shows "redirect q p ir = ir"
proof -
  consider "is_branch ir" | "\<not> is_branch ir" "ir_type ir = IR_LABEL \<or> ir_type ir = IR_JMP"
    | "\<not> is_branch ir" "ir_type ir \<noteq> IR_LABEL" "ir_type ir \<noteq> IR_JMP" by blast
  then show ?thesis
  proof cases
    case 1
    with assms show ?thesis by (simp add: redirect_branch_eq jump_target_def)
  next
    case 2
    then have "ir_rs ir \<noteq> Some p" using assms(2,3) by (auto simp: jump_target_def is_label_def)
    with 2 assms(1) show ?thesis by (simp add: redirect_rs_eq)
  qed (simp add: redirect_other_eq [OF assms(1)])
qed

lemma redirect_target:
  assumes "Some p \<notin> set (data_operands ir)"
  shows "jump_target (redirect q p ir) = (if jump_target ir = Some p then Some q else jump_target ir)"
proof (cases "jump_target ir = Some p")
  case True
  with redirect_hit [OF assms True, of q] show ?thesis
    by (auto simp: jump_target_def split: if_splits)
next
  case False
  then show ?thesis
    using redirect_miss [OF assms False] redirect_rs_eq [OF assms]
    by (cases "is_label p ir") (auto simp: jump_target_def is_label_def is_branch_iff)
qed

lemma redirect_data:
  assumes "Some p \<notin> set (data_operands ir)"
  shows "data_operands (redirect q p ir) = data_operands ir"
proof -
  consider "is_branch ir" | "\<not> is_branch ir" "ir_type ir = IR_LABEL \<or> ir_type ir = IR_JMP"
    | "\<not> is_branch ir" "ir_type ir \<noteq> IR_LABEL" "ir_type ir \<noteq> IR_JMP" by blast
  then show ?thesis
  proof cases
    case 1
    with is_branch_types [OF 1] show ?thesis
      by (simp add: redirect_branch_eq [OF assms] data_operands_def)
  next
    case 2
    then show ?thesis by (auto simp: redirect_rs_eq [OF assms] data_operands_def)
  qed (simp add: redirect_other_eq [OF assms])
qed

definition merged :: "IR list \<Rightarrow> nat \<Rightarrow> nat \<Rightarrow> nat \<Rightarrow> IR list" where
  "merged prog q p i = (map (redirect q p) prog)[i := (redirect q p (prog ! i))\<lparr>ir_type := IR_NOP, ir_rs := None\<rparr>]"

lemma merged_length [simp]: "length (merged prog q p i) = length prog"
  by (simp add: merged_def)

lemma merged_nth:
  "k < length prog \<Longrightarrow> k \<noteq> i \<Longrightarrow> merged prog q p i ! k = redirect q p (prog ! k)"
  by (simp add: merged_def)

lemma merged_nop: "i < length prog \<Longrightarrow> ir_type (merged prog q p i ! i) = IR_NOP"
  by (simp add: merged_def)

lemma merged_label:
  assumes wf: "prog_wf L prog" and p: "label_at prog i p"
  shows "label_at (merged prog q p i) k l \<longleftrightarrow> label_at prog k l \<and> k \<noteq> i"
proof (cases "k = i \<or> k \<ge> length prog")
  case True
  with p merged_nop [of i prog q p] show ?thesis by (auto simp: label_at_def)
next
  case False
  then have nth: "merged prog q p i ! k = redirect q p (prog ! k)" by (simp add: merged_nth)
  have "\<not> is_label p (prog ! k)"
    using prog_wf_unique [OF wf p, of k] False by (auto simp: label_at_def)
  moreover have "Some p \<notin> set (data_operands (prog ! k))"
    using prog_wf_data [OF wf _ prog_wf_label [OF wf p]] False by simp
  ultimately have "jump_target (prog ! k) \<noteq> Some p \<Longrightarrow> redirect q p (prog ! k) = prog ! k"
    by (simp add: redirect_miss)
  moreover have "jump_target (prog ! k) = Some p \<Longrightarrow> ir_type (prog ! k) \<noteq> IR_LABEL"
    by (auto simp: jump_target_def is_branch_iff split: if_splits)
  ultimately show ?thesis using False nth
    by (cases "jump_target (prog ! k) = Some p") (auto simp: label_at_def is_label_def)
qed

lemma prog_wf_merge:
  assumes wf: "prog_wf L prog" and q: "label_at prog j q" and p: "label_at prog i p" and "j < i"
  shows "prog_wf L (merged prog q p i)"
proof (rule prog_wfI)
  note lab = merged_label [OF wf p, of q]
  have i: "i < length prog" using p by (simp add: label_at_def)
  have pL: "p \<in> L" by (rule prog_wf_label [OF wf p])
  fix k
  assume k: "k < length (merged prog q p i)"
  then have data: "Some p \<notin> set (data_operands (prog ! k))" using prog_wf_data [OF wf _ pL] by simp
  {
    assume *: "ir_type (merged prog q p i ! k) = IR_LABEL"
    with k i merged_nop have "k \<noteq> i" by auto
    with * k have "ir_type (prog ! k) = IR_LABEL" by (simp add: merged_nth)
    with k wf obtain l where "label_at prog k l" "l \<in> L"
      by (auto simp: prog_wf_def label_at_def is_label_def)
    with \<open>k \<noteq> i\<close> lab show "\<exists>l\<in>L. ir_rs (merged prog q p i ! k) = Some l"
      by (auto simp: label_at_def is_label_def intro!: bexI [of _ l])
  next
    assume *: "can_jump (merged prog q p i ! k)"
    with k i merged_nop [OF i] have "k \<noteq> i" by auto
    with * k have "can_jump (prog ! k)" by (simp add: merged_nth can_jump_iff)
    with prog_wf_jump [OF wf, of k] k obtain l m where l: "jump_target (prog ! k) = Some l" "label_at prog m l"
      by auto
    have "label_at (merged prog q p i) m l" if "l \<noteq> p"
      using l p that unfolding lab by (auto simp: label_at_def is_label_def)
    moreover have "label_at (merged prog q p i) j q"
      using q \<open>j < i\<close> by (simp add: lab)
    ultimately show "\<exists>l m. jump_target (merged prog q p i ! k) = Some l \<and> label_at (merged prog q p i) m l"
      using k \<open>k \<noteq> i\<close> l by (cases "l = p") (auto simp: merged_nth redirect_target [OF data])
  next
    fix r
    assume "r \<in> L"
    with prog_wf_data [OF wf] k have "Some r \<notin> set (data_operands (prog ! k))" by simp
    with k i show "Some r \<notin> set (data_operands (merged prog q p i ! k))"
      by (cases "k = i") (simp_all add: merged_nth merged_nop redirect_data [OF data])
  }
next
  fix k m l
  assume "label_at (merged prog q p i) k l" "label_at (merged prog q p i) m l"
  with prog_wf_unique [OF wf, of k l m] show "k = m" by (simp add: merged_label [OF wf p])
qed

lemma ir_rewrite_wf: "ir_rewrite prog prog' \<Longrightarrow> prog_wf L prog \<Longrightarrow> prog_wf L prog'"
proof (induction rule: ir_rewrite.induct)
  case (drop_jump i prog l)
  then show ?case by (intro prog_wf_drop_jump)
next
  case (drop_label prog i l)
  then show ?case by (intro prog_wf_drop_label) auto
next
  case (invert i prog l)
  then show ?case using prog_wf_invert [of L prog i] by (simp add: inverted_def)
next
  case (merge prog j q i p)
  then show ?case using prog_wf_merge [of L prog j q i p] by (simp add: merged_def)
qed

section \<open>The rewritings keep the behaviour\<close>

text \<open>A step depends on its instruction, the target of its jump and the entries of functions.\<close>

lemma ir_step_cong:
  assumes "length prog' = length prog" and "func_pos name prog' = func_pos name prog"
    and "pc < length prog \<Longrightarrow> prog' ! pc = prog ! pc"
    and "\<And>l. pc < length prog \<Longrightarrow> jump_target (prog ! pc) = Some l \<Longrightarrow> label_pos prog' l = label_pos prog l"
  shows "ir_step holds eff name prog' (pc, rets, s) = ir_step holds eff name prog (pc, rets, s)"
proof (cases "pc < length prog")
  case True
  note eqs = assms(1,2) assms(3) [OF True]
  have goto_eq: "goto prog' t rets s = goto prog t rets s" if "jump_target (prog ! pc) = t" for t
    using assms(4) [OF True] that by (cases t) (simp_all add: goto_def)
  show ?thesis
  proof (cases "is_branch (prog ! pc)")
    case br: True
    then have "goto prog' (ir_rd (prog ! pc)) rets s = goto prog (ir_rd (prog ! pc)) rets s"
      by (intro goto_eq) (simp add: jump_target_def)
    with br True show ?thesis
      using is_branch_types [OF br]
      by (cases "holds (prog ! pc) s") (simp_all add: ir_step_def Let_def eqs)
  next
    case br: False
    then have "ir_type (prog ! pc) = IR_JMP \<Longrightarrow> goto prog' (ir_rs (prog ! pc)) rets s = goto prog (ir_rs (prog ! pc)) rets s"
      by (intro goto_eq) (simp add: jump_target_def)
    with br True show ?thesis by (simp add: ir_step_def Let_def eqs)
  qed
qed (simp add: ir_step_def assms(1))

lemma ir_step_skip:
  "pc < length prog \<Longrightarrow> ir_type (prog ! pc) = IR_NOP \<or> ir_type (prog ! pc) = IR_LABEL \<Longrightarrow>
     ir_step holds eff name prog (pc, rets, s) = Some (Suc pc, rets, s)"
  by (auto simp: ir_step_def Let_def)

lemma ir_step_jump:
  "pc < length prog \<Longrightarrow> ir_type (prog ! pc) = IR_JMP \<Longrightarrow>
     ir_step holds eff name prog (pc, rets, s) = goto prog (ir_rs (prog ! pc)) rets s"
  by (simp add: ir_step_def Let_def)

lemma ir_step_branch:
  "pc < length prog \<Longrightarrow> is_branch (prog ! pc) \<Longrightarrow>
     ir_step holds eff name prog (pc, rets, s) =
       do { b \<leftarrow> holds (prog ! pc) s;
            if b then goto prog (ir_rd (prog ! pc)) rets s else Some (Suc pc, rets, s) }"
  using is_branch_types [of "prog ! pc"] by (simp add: ir_step_def Let_def)

lemma func_pos_update:
  "ir_type (prog ! i) \<noteq> IR_FUNC \<Longrightarrow> ir_type ir \<noteq> IR_FUNC \<Longrightarrow>
     func_pos name (prog[i := ir]) = func_pos name prog"
  by (rule ext) (simp add: func_pos_def index_of_update is_func_def)

lemma label_pos_update:
  "is_label l (prog ! i) = is_label l ir \<Longrightarrow> label_pos (prog[i := ir]) l = label_pos prog l"
  by (simp add: label_pos_def index_of_update)

lemma goto_label:
  "prog_wf L prog \<Longrightarrow> label_at prog i l \<Longrightarrow> goto prog (Some l) rets s = Some (i, rets, s)"
  by (simp add: goto_def label_pos_at)

lemma finished_update:
  "ir_type (prog ! i) \<noteq> IR_RET \<Longrightarrow> ir_type ir \<noteq> IR_RET \<Longrightarrow> finished (prog[i := ir]) c = finished prog c"
  by (cases "fst c = i") (auto simp: finished_def nth_list_update)

lemma drop_jump_step:
  assumes wf: "prog_wf L prog" and "Suc i < length prog" and jmp: "ir_type (prog ! i) = IR_JMP"
    and l: "ir_rs (prog ! i) = Some l" "label_at prog (Suc i) l"
  shows "ir_step holds eff name (prog[i := nop (prog ! i)]) c = ir_step holds eff name prog c"
proof -
  obtain pc rets s where c: "c = (pc, rets, s)" by (cases c)
  show ?thesis
  proof (cases "pc = i")
    case True
    with assms show ?thesis
      by (simp add: c ir_step_skip ir_step_jump goto_label [OF wf l(2)])
  next
    case False
    then show ?thesis unfolding c
      by (intro ir_step_cong) (auto simp: func_pos_update label_pos_update jmp is_label_def)
  qed
qed

lemma drop_label_step:
  assumes l: "label_at prog i l" "refs prog l = 0"
    and ir: "ir_type ir = IR_NOP"
  shows "ir_step holds eff name (prog[i := ir]) c = ir_step holds eff name prog c"
proof -
  obtain pc rets s where c: "c = (pc, rets, s)" by (cases c)
  note i = label_at_type [OF l(1)]
  show ?thesis
  proof (cases "pc = i")
    case True
    with i ir show ?thesis by (simp add: c ir_step_skip)
  next
    case False
    have "label_pos (prog[i := ir]) m = label_pos prog m" if "jump_target (prog ! pc) = Some m" "pc < length prog" for m
      using refs_0 [OF l(2) that(2)] that i ir by (intro label_pos_update) (auto simp: is_label_def)
    with False i ir show ?thesis unfolding c
      by (intro ir_step_cong) (auto simp: func_pos_update)
  qed
qed

lemma label_pos_type: "label_pos prog l = Some t \<Longrightarrow> t < length prog \<and> ir_type (prog ! t) = IR_LABEL"
  by (simp add: label_pos_def index_of_Some is_label_def)

lemma func_pos_type: "func_pos name prog f = Some t \<Longrightarrow> t < length prog \<and> ir_type (prog ! t) = IR_FUNC"
  by (simp add: func_pos_def index_of_Some is_func_def)

lemma goto_Some:
  "goto prog label rets s = Some (t, rets', s') \<Longrightarrow>
     rets' = rets \<and> s' = s \<and> t < length prog \<and> ir_type (prog ! t) = IR_LABEL"
  by (auto simp: goto_def bind_Some_iff dest: label_pos_type)

text \<open>A \<open>GOTO\<close> is entered from the instruction before it only.\<close>

lemma ir_step_avoids:
  assumes "ir_step holds eff name prog (pc, rets, s) = Some (pc', rets', s')"
    and "pc \<noteq> i" and "ir_type (prog ! Suc i) = IR_JMP" and "Suc i \<notin> set rets"
  shows "pc' \<noteq> Suc i \<and> Suc i \<notin> set rets'"
proof -
  have gt: "t \<noteq> Suc i \<and> rets'' = rets" if "goto prog label rets s = Some (t, rets'', s'')" for t label rets'' s''
    using goto_Some [OF that] assms(3) by auto
  have fn: "t \<noteq> Suc i" if "func_pos name prog f = Some t" for f t
    using func_pos_type [OF that] assms(3) by auto
  show ?thesis
    using assms(1,2,4)
    by (auto simp: ir_step_def Let_def bind_Some_iff split: if_splits list.splits dest!: gt dest: fn)
qed

lemma silent_skip:
  assumes "j \<le> i" and "i \<le> length prog"
    and "\<And>k. j \<le> k \<Longrightarrow> k < i \<Longrightarrow> ir_type (prog ! k) = IR_NOP \<or> ir_type (prog ! k) = IR_LABEL"
  shows "silent (ir_step holds eff name prog) (j, rets, s) (i, rets, s)"
  using assms
proof (induction i rule: dec_induct)
  case base
  then show ?case by (simp add: silent_def)
next
  case (step n)
  then have "silent (ir_step holds eff name prog) (j, rets, s) (n, rets, s)" by simp
  moreover have "ir_step holds eff name prog (n, rets, s) = Some (Suc n, rets, s)"
    using step.prems step.hyps by (intro ir_step_skip) auto
  ultimately show ?case
    unfolding silent_def by (auto simp: config_data_def intro: rtranclp.rtrancl_into_rtrancl)
qed

lemma stuttering_sameI:
  assumes "\<And>pc rets s. P (pc, rets, s) \<Longrightarrow>
      (step (pc, rets, s) = None \<and> step' (pc, rets, s) = None) \<or>
      (\<exists>d. moves step (pc, rets, s) d \<and> moves step' (pc, rets, s) d \<and> P d)"
    and "\<And>c. P c \<Longrightarrow> finished prog' c = finished prog c"
  shows "stuttering step prog step' prog' (\<lambda>c c'. c' = c \<and> P c)"
  unfolding stuttering_def
proof (intro allI impI conjI)
  fix c c' :: "'a config"
  assume R: "c' = c \<and> P c"
  then show "config_data c = config_data c'" by simp
  obtain pc rets s where c: "c = (pc, rets, s)" by (cases c)
  have "(step c = None \<and> step' c = None) \<or> (\<exists>d. moves step c d \<and> moves step' c d \<and> P d)"
    unfolding c by (rule assms(1)) (use R c in simp)
  with R assms(2) [of c]
  show "(step c = None \<and> step' c' = None \<and> finished prog c = finished prog' c') \<or>
      (\<exists>d d'. moves step c d \<and> moves step' c' d' \<and> d' = d \<and> P d)"
    by (simp del: split_paired_Ex)
qed

definition away_from :: "nat \<Rightarrow> 's config \<Rightarrow> bool" where
  "away_from i c \<longleftrightarrow> fst c \<noteq> i \<and> i \<notin> set (fst (snd c))"

lemma merged_same:
  assumes wf: "prog_wf L prog" and p: "label_at prog i p"
    and k: "k < length prog" "k \<noteq> i" "jump_target (prog ! k) \<noteq> Some p"
  shows "merged prog q p i ! k = prog ! k"
proof -
  have "\<not> is_label p (prog ! k)"
    using prog_wf_unique [OF wf p, of k] k by (auto simp: label_at_def)
  with k prog_wf_data [OF wf k(1) prog_wf_label [OF wf p]] show ?thesis
    by (simp add: merged_nth redirect_miss)
qed

lemma merged_type:
  "k < length prog \<Longrightarrow> k \<noteq> i \<Longrightarrow> ir_type (merged prog q p i ! k) = ir_type (prog ! k)"
  by (simp add: merged_nth)

lemma merged_finished:
  "label_at prog i p \<Longrightarrow> finished (merged prog q p i) c = finished prog c"
  using merged_nop [of i prog q p] merged_type [of "fst c" prog i q p] label_at_type [of prog i p]
  by (cases "fst c = i") (auto simp: finished_def)

lemma merged_func:
  assumes wf: "prog_wf L prog" and p: "label_at prog i p"
  shows "func_pos name (merged prog q p i) = func_pos name prog"
proof (rule ext, unfold func_pos_def, rule index_of_cong, rule nth_equalityI)
  fix f k
  assume "k < length (map (is_func name f) (merged prog q p i))"
  then have k: "k < length prog" by simp
  show "map (is_func name f) (merged prog q p i) ! k = map (is_func name f) prog ! k"
  proof (cases "k = i")
    case True
    with k merged_nop [of i prog q p] label_at_type [OF p] show ?thesis by (simp add: is_func_def)
  next
    case False
    have "ir_type (prog ! k) = IR_FUNC \<Longrightarrow> jump_target (prog ! k) \<noteq> Some p"
      by (simp add: jump_target_def is_branch_iff)
    with k False merged_same [OF wf p k False, of q] merged_type [OF k False, of q p] show ?thesis
      by (cases "ir_type (prog ! k) = IR_FUNC") (simp_all add: is_func_def)
  qed
qed simp

lemma merged_label_pos:
  assumes wf: "prog_wf L prog" and q: "label_at prog j q" and p: "label_at prog i p" and ji: "j < i"
    and l: "label_at prog k l" "l \<noteq> p"
  shows "label_pos (merged prog q p i) l = label_pos prog l"
proof -
  have "k \<noteq> i" using l p by (auto simp: label_at_def is_label_def)
  then have "label_at (merged prog q p i) k l" by (simp add: merged_label [OF wf p] l)
  with label_pos_at [OF wf l(1)] label_pos_at [OF prog_wf_merge [OF wf q p ji]] show ?thesis by simp
qed

lemma merged_silent:
  assumes wf: "prog_wf L prog" and q: "label_at prog j q" and p: "label_at prog i p" and ji: "j < i"
    and nops: "\<And>k. j < k \<Longrightarrow> k < i \<Longrightarrow> ir_type (prog ! k) = IR_NOP"
  shows "silent (ir_step holds eff name (merged prog q p i)) (j, rets, s) (i, rets, s)"
proof (rule silent_skip)
  fix k
  assume k: "j \<le> k" "k < i"
  then have "ir_type (merged prog q p i ! k) = ir_type (prog ! k)"
    using label_at_type [OF p] by (intro merged_type) auto
  with k nops [of k] label_at_type [OF q]
  show "ir_type (merged prog q p i ! k) = IR_NOP \<or> ir_type (merged prog q p i ! k) = IR_LABEL"
    by (cases "k = j") auto
qed (use ji label_at_type [OF p] in auto)

context data_semantics
begin

text \<open>The inverted branch at \<open>i\<close> and the original one meet again.\<close>

lemma invert_meet:
  fixes prog :: "IR list" and i :: nat
  defines "prog' \<equiv> prog[i := inverted prog i, i + 1 := nop (prog ! (i + 1))]"
  assumes wf: "prog_wf L prog" and len: "i + 2 < length prog" and br: "is_branch (prog ! i)"
    and l: "ir_rd (prog ! i) = Some l" "label_at prog (i + 2) l"
    and jmp: "ir_type (prog ! (i + 1)) = IR_JMP"
    and gt: "\<And>t. goto prog' t rets s = goto prog t rets s"
    and hd: "holds (prog ! i) s = Some b"
  shows "\<exists>t. t \<noteq> Suc i \<and> moves (ir_step holds eff name prog) (i, rets, s) (t, rets, s) \<and>
              moves (ir_step holds eff name prog') (i, rets, s) (t, rets, s)"
proof -
  let ?st = "ir_step holds eff name prog" and ?st' = "ir_step holds eff name prog'"
  have jmp': "ir_type (prog ! Suc i) = IR_JMP" using jmp by simp
  have nth: "prog' ! i = inverted prog i" "prog' ! Suc i = nop (prog ! Suc i)" "length prog' = length prog"
    using len by (simp_all add: prog'_def)
  have hd': "holds (inverted prog i) s = Some (\<not> b)"
    using holds_anti [OF br, of s] holds_label hd by (simp add: inverted_def)
  have 1: "?st (i, rets, s) = (if b then Some (i + 2, rets, s) else Some (Suc i, rets, s))"
    using len br l hd goto_label [OF wf l(2), of rets s] by (simp add: ir_step_branch)
  have "ir_rd (inverted prog i) = ir_rs (prog ! Suc i)" by (simp add: inverted_def)
  then have 2: "?st' (i, rets, s) = (if b then Some (Suc i, rets, s) else goto prog (ir_rs (prog ! Suc i)) rets s)"
    using len inverted_branch [OF br] hd' by (simp add: ir_step_branch nth gt)
  show ?thesis
  proof (cases b)
    case True
    have "?st' (Suc i, rets, s) = Some (i + 2, rets, s)"
      using len by (simp add: ir_step_skip nth)
    with 1 2 True show ?thesis
      by (intro exI [of _ "i + 2"] conjI moves_2 [of ?st' _ "(Suc i, rets, s)"] moves_step)
         (simp_all add: config_data_def)
  next
    case False
    from prog_wf_jump [OF wf, of "Suc i"] len jump_target_JMP [OF jmp'] obtain m t where
      m: "ir_rs (prog ! Suc i) = Some m" "label_at prog t m" by auto
    note g = goto_label [OF wf m(2)]
    have "?st (Suc i, rets, s) = Some (t, rets, s)"
      using len jmp' by (simp add: ir_step_jump m g)
    moreover have "t \<noteq> Suc i" using m(2) jmp' by (auto simp: label_at_def is_label_def)
    ultimately show ?thesis
      using 1 2 False m g
      by (intro exI [of _ t] conjI moves_2 [of ?st _ "(Suc i, rets, s)"] moves_step)
         (simp_all add: config_data_def)
  qed
qed

lemma invert_stuttering:
  fixes prog :: "IR list" and i :: nat
  defines "prog' \<equiv> prog[i := inverted prog i, i + 1 := nop (prog ! (i + 1))]"
  assumes wf: "prog_wf L prog" and len: "i + 2 < length prog" and br: "is_branch (prog ! i)"
    and l: "ir_rd (prog ! i) = Some l" "label_at prog (i + 2) l"
    and jmp: "ir_type (prog ! (i + 1)) = IR_JMP"
  shows "stuttering (ir_step holds eff name prog) prog (ir_step holds eff name prog') prog'
     (\<lambda>c c'. c' = c \<and> away_from (Suc i) c)"
proof (rule stuttering_sameI)
  let ?st = "ir_step holds eff name prog" and ?st' = "ir_step holds eff name prog'"
  note types = is_branch_types [OF br] is_branch_types [OF inverted_branch [OF br]]
  have func: "func_pos name prog' = func_pos name prog"
    using types jmp by (simp add: prog'_def func_pos_update)
  have lab: "label_pos prog' m = label_pos prog m" for m
    using types jmp by (simp add: prog'_def label_pos_update is_label_def)
  have nth: "prog' ! k = prog ! k" if "k \<noteq> i" "k \<noteq> Suc i" for k using that by (simp add: prog'_def)
  have nth_i: "prog' ! i = inverted prog i" "length prog' = length prog"
    using len by (simp_all add: prog'_def)
  show "finished prog' c = finished prog c" if "away_from (Suc i) c" for c :: "'s config"
    using that types nth_i nth by (cases "fst c = i") (auto simp: finished_def away_from_def)
  fix pc rets and s :: 's
  assume "away_from (Suc i) (pc, rets, s)"
  then have R: "pc \<noteq> Suc i" "Suc i \<notin> set rets" by (simp_all add: away_from_def)
  show "(?st (pc, rets, s) = None \<and> ?st' (pc, rets, s) = None) \<or>
    (\<exists>d. moves ?st (pc, rets, s) d \<and> moves ?st' (pc, rets, s) d \<and> away_from (Suc i) d)"
  proof (cases "pc = i")
    case False
    then have eq: "?st' (pc, rets, s) = ?st (pc, rets, s)"
      using R by (intro ir_step_cong) (simp_all add: nth_i nth func lab)
    show ?thesis
    proof (cases "?st (pc, rets, s)")
      case (Some d)
      obtain pc' rets' s' where d: "d = (pc', rets', s')" by (cases d)
      have "away_from (Suc i) d"
        using ir_step_avoids [OF Some [unfolded d] False _ R(2)] jmp by (simp add: away_from_def d)
      with Some eq show ?thesis by (auto simp del: split_paired_Ex intro!: exI [of _ d] moves_step)
    qed (simp add: eq)
  next
    case True
    show ?thesis
    proof (cases "holds (prog ! i) s")
      case None
      moreover from this have "holds (inverted prog i) s = None"
        using holds_anti [OF br, of s] holds_label by (simp add: inverted_def)
      ultimately show ?thesis
        using len br inverted_branch [OF br] by (simp add: True ir_step_branch nth_i)
    next
      case (Some b)
      from invert_meet [OF wf len br l jmp _ Some, of rets, folded prog'_def] obtain t where
        "t \<noteq> Suc i" "moves ?st (i, rets, s) (t, rets, s)" "moves ?st' (i, rets, s) (t, rets, s)"
        by (auto simp: goto_def lab)
      with R True show ?thesis
        by (intro disjI2 exI [of _ "(t, rets, s)"]) (simp add: away_from_def)
    qed
  qed
qed

lemma merge_stuttering:
  assumes wf: "prog_wf L prog" and q: "label_at prog j q" and p: "label_at prog i p" and ji: "j < i"
    and nops: "\<And>k. j < k \<Longrightarrow> k < i \<Longrightarrow> ir_type (prog ! k) = IR_NOP"
  shows "stuttering (ir_step holds eff name prog) prog (ir_step holds eff name (merged prog q p i)) (merged prog q p i)
     (\<lambda>c c'. c' = c \<and> True)"
proof (rule stuttering_sameI)
  show "finished (merged prog q p i) c = finished prog c" for c :: "'s config"
    by (rule merged_finished [OF p])
  let ?st = "ir_step holds eff name prog" and ?st' = "ir_step holds eff name (merged prog q p i)"
  have i: "i < length prog" using p by (simp add: label_at_def)
  note gq = goto_label [OF prog_wf_merge [OF wf q p ji] merged_label [OF wf p, THEN iffD2], OF conjI [OF q]]
  note silent = merged_silent [OF wf q p ji nops]
  fix pc rets and s :: 's
  consider "pc = i" | "pc \<noteq> i" "\<not> (pc < length prog \<and> jump_target (prog ! pc) = Some p)"
    | "pc \<noteq> i" "pc < length prog" "jump_target (prog ! pc) = Some p" by blast
  then show "(?st (pc, rets, s) = None \<and> ?st' (pc, rets, s) = None) \<or>
    (\<exists>d. moves ?st (pc, rets, s) d \<and> moves ?st' (pc, rets, s) d \<and> True)"
  proof cases
    case 1
    then have "?st (pc, rets, s) = Some (Suc i, rets, s)" "?st' (pc, rets, s) = Some (Suc i, rets, s)"
      using i merged_nop [OF i] label_at_type [OF p] by (simp_all add: ir_step_skip)
    then show ?thesis by (blast intro: moves_step)
  next
    case 2
    have "?st' (pc, rets, s) = ?st (pc, rets, s)"
    proof (rule ir_step_cong)
      show "merged prog q p i ! pc = prog ! pc" if "pc < length prog"
        using that 2 by (intro merged_same [OF wf p]) auto
      show "label_pos (merged prog q p i) l = label_pos prog l" if l: "pc < length prog" "jump_target (prog ! pc) = Some l" for l
      proof -
        have "can_jump (prog ! pc)" using l by (auto simp: jump_target_def can_jump_iff split: if_splits)
        from prog_wf_jump [OF wf l(1) this] l(2) obtain k where "label_at prog k l" by auto
        with 2 l show ?thesis by (intro merged_label_pos [OF wf q p ji]) auto
      qed
    qed (simp_all add: merged_func [OF wf p])
    then show ?thesis by (cases "?st (pc, rets, s)") (auto simp del: split_paired_Ex intro: moves_step)
  next
    case 3
    note nth = merged_nth [OF 3(2,1), of q p]
      redirect_hit [OF prog_wf_data [OF wf 3(2) prog_wf_label [OF wf p]] 3(3), of q]
    have gp: "goto prog (Some p) rets s = Some (i, rets, s)" by (rule goto_label [OF wf p])
    have gq': "goto (merged prog q p i) (Some q) rets s = Some (j, rets, s)" using gq ji by simp
    have meet: ?thesis if "?st (pc, rets, s) = Some (i, rets, s)" "?st' (pc, rets, s) = Some (j, rets, s)"
      using moves_step [of ?st, OF that(1)] moves_silent [of ?st', OF that(2) silent] by blast
    show ?thesis
    proof (cases "is_branch (prog ! pc)")
      case True
      with 3 have rd: "ir_rd (prog ! pc) = Some p" by (simp add: jump_target_def)
      have "?st (pc, rets, s) = do { b \<leftarrow> holds (prog ! pc) s; if b then Some (i, rets, s) else Some (Suc pc, rets, s) }"
        "?st' (pc, rets, s) = do { b \<leftarrow> holds (prog ! pc) s; if b then Some (j, rets, s) else Some (Suc pc, rets, s) }"
        using True 3
        by (cases "holds (prog ! pc) s"; simp add: ir_step_branch rd gp nth holds_label gq')+
      then show ?thesis
        using meet moves_step [of ?st "(pc, rets, s)"] moves_step [of ?st' "(pc, rets, s)"]
        by (cases "holds (prog ! pc) s") (auto split: if_splits)
    next
      case False
      with 3 have "ir_type (prog ! pc) = IR_JMP" "ir_rs (prog ! pc) = Some p"
        by (auto simp: jump_target_def split: if_splits)
      with False 3 gp gq' show ?thesis by (intro meet) (simp_all add: ir_step_jump nth)
    qed
  qed
qed

lemma ir_rewrite_behaviour:
  assumes "ir_rewrite prog prog'" and wf: "prog_wf L prog"
    and "pc < length prog" and "ir_type (prog ! pc) = IR_FUNC"
  shows "same_behaviour (ir_step holds eff name prog) prog (pc, [], s) (ir_step holds eff name prog') prog' (pc, [], s)"
  using assms
proof (induction rule: ir_rewrite.induct)
  case (drop_jump i prog l)
  have "ir_step holds eff name (prog[i := nop (prog ! i)]) = ir_step holds eff name prog"
    using drop_jump_step [of L prog i l] drop_jump by blast
  moreover have "finished (prog[i := nop (prog ! i)]) c = finished prog c" for c :: "'s config"
    using drop_jump by (intro finished_update) auto
  ultimately show ?case by (rule same_behaviour_cong)
next
  case (drop_label prog i l)
  let ?p = "prog[i := (prog ! i)\<lparr>ir_type := IR_NOP, ir_rs := None\<rparr>]"
  have "ir_step holds eff name ?p = ir_step holds eff name prog"
    using drop_label_step [of prog i l "(prog ! i)\<lparr>ir_type := IR_NOP, ir_rs := None\<rparr>"] drop_label
    by (intro ext) simp
  moreover have "finished ?p c = finished prog c" for c :: "'s config"
    using label_at_type [OF drop_label(1)] by (intro finished_update) auto
  ultimately show ?case by (rule same_behaviour_cong)
next
  case (invert i prog l)
  then have "away_from (Suc i) (pc, [], s)" by (auto simp: away_from_def)
  with stuttering_same_behaviour [OF invert_stuttering [of L prog i l], of "(pc, [], s)" "(pc, [], s)"] invert
  show ?case by (simp add: inverted_def)
next
  case (merge prog j q i p)
  with stuttering_same_behaviour [OF merge_stuttering [of L prog j q i p], of "(pc, [], s)" "(pc, [], s)"]
  show ?case by (simp add: merged_def)
qed

end

section \<open>Compression\<close>

definition not_nop :: "IR \<Rightarrow> bool" where
  "not_nop ir \<longleftrightarrow> ir_type ir \<noteq> IR_NOP"

lemma compress_loop_filter:
  assumes "sz \<le> index" and "index \<le> n" and "n \<le> length buf"
  shows "case compress_loop buf n index sz of (buf', m) \<Rightarrow>
    m \<le> n \<and> length buf' = length buf \<and>
    take m buf' = take sz buf @ filter not_nop (drop index (take n buf))"
  using assms
proof (induction buf n index sz rule: compress_loop.induct)
  case (1 buf n index sz)
  show ?case
  proof (cases "index < n")
    case False
    then have "compress_loop buf n index sz = (buf, sz)" by (simp add: compress_loop.simps [of buf n index sz])
    with 1 False show ?thesis by simp
  next
    case True
    then have split: "drop index (take n buf) = buf ! index # drop (Suc index) (take n buf)"
      using 1 by (simp add: Cons_nth_drop_Suc [symmetric])
    show ?thesis
    proof (cases "ir_type (buf ! index) = IR_NOP")
      case nop: True
      with 1(2) [OF True] 1 True split show ?thesis
        by (simp add: compress_loop.simps [of buf n index sz] not_nop_def)
    next
      case nop: False
      have "take (Suc sz) (buf[sz := buf ! index]) = take sz buf @ [buf ! index]"
        using 1 True by (simp add: take_Suc_conv_app_nth)
      moreover have "drop (Suc index) (take n (buf[sz := buf ! index])) = drop (Suc index) (take n buf)"
        using 1 by (simp add: drop_take drop_update_cancel)
      ultimately show ?thesis
        using 1(1) [OF True] nop 1 True split
        by (simp add: compress_loop.simps [of buf n index sz] not_nop_def)
    qed
  qed
qed

lemma compress_ir_filter:
  assumes "compress_ir buf (length buf) = (buf', m)"
  shows "take m buf' = filter not_nop buf"
  using compress_loop_filter [of 0 0 "length buf" buf] assms by (simp add: compress_ir_def)

definition new_pos :: "IR list \<Rightarrow> nat \<Rightarrow> nat" where
  "new_pos prog i = length (filter not_nop (take i prog))"

definition move :: "IR list \<Rightarrow> 's config \<Rightarrow> 's config" where
  "move prog c = (case c of (pc, rets, s) \<Rightarrow> (new_pos prog pc, map (new_pos prog) rets, s))"

lemma new_pos_Suc:
  "i < length prog \<Longrightarrow> new_pos prog (Suc i) = new_pos prog i + of_bool (not_nop (prog ! i))"
  by (simp add: new_pos_def take_Suc_conv_app_nth)

lemma new_pos_beyond: "length prog \<le> i \<Longrightarrow> new_pos prog i = length (filter not_nop prog)"
  by (simp add: new_pos_def)

lemma new_pos_nth:
  assumes "i < length prog" and "not_nop (prog ! i)"
  shows "filter not_nop prog ! new_pos prog i = prog ! i \<and> new_pos prog i < length (filter not_nop prog)"
proof -
  have "filter not_nop prog = filter not_nop (take i prog) @ prog ! i # filter not_nop (drop (Suc i) prog)"
    using assms id_take_nth_drop [OF assms(1)] by (metis filter.simps(2) filter_append)
  then show ?thesis by (simp add: new_pos_def nth_append)
qed

lemma label_pos_filter: "label_pos (filter not_nop prog) l = map_option (new_pos prog) (label_pos prog l)"
  unfolding label_pos_def new_pos_def [abs_def]
  by (rule index_of_filter) (simp add: is_label_def not_nop_def)

lemma func_pos_filter: "func_pos name (filter not_nop prog) f = map_option (new_pos prog) (func_pos name prog f)"
  unfolding func_pos_def new_pos_def [abs_def]
  by (rule index_of_filter) (simp add: is_func_def not_nop_def)

lemma goto_filter:
  "goto (filter not_nop prog) t (map (new_pos prog) rets) s = map_option (move prog) (goto prog t rets s)"
  by (cases t) (auto simp: goto_def label_pos_filter move_def split: option.splits bind_splits)

text \<open>A step from an instruction that stays is the same step at its new position.\<close>

lemma ir_step_filter:
  assumes pc: "pc < length prog \<Longrightarrow> not_nop (prog ! pc)"
  shows "ir_step holds eff name (filter not_nop prog) (move prog (pc, rets, s)) =
    map_option (move prog) (ir_step holds eff name prog (pc, rets, s))"
proof (cases "pc < length prog")
  case False
  then show ?thesis by (simp add: ir_step_def move_def new_pos_beyond)
next
  case True
  let ?ir = "prog ! pc"
  note nth = new_pos_nth [OF True pc [OF True]]
  have Suc: "new_pos prog (Suc pc) = Suc (new_pos prog pc)"
    using new_pos_Suc [OF True] pc [OF True] by simp
  have "ir_type ?ir \<noteq> IR_NOP" using pc [OF True] by (simp add: not_nop_def)
  then consider "ir_type ?ir = IR_LABEL" | "ir_type ?ir = IR_JMP" | "is_branch ?ir"
    | "ir_type ?ir \<notin> {IR_NOP, IR_LABEL, IR_JMP}" "\<not> is_branch ?ir" by blast
  then show ?thesis
  proof cases
    case 1
    with True nth show ?thesis by (simp add: move_def ir_step_skip Suc)
  next
    case 2
    with True nth show ?thesis by (simp add: move_def [of _ "(pc, rets, s)"] ir_step_jump goto_filter)
  next
    case 3
    with True nth show ?thesis
      by (cases "holds ?ir s")
         (simp_all add: move_def [of _ "(pc, rets, s)"] ir_step_branch goto_filter, simp add: move_def Suc)
  next
    case 4
    with True nth show ?thesis
      by (auto simp: ir_step_def Let_def move_def Suc func_pos_filter
            split: list.splits option.splits bind_splits)
  qed
qed

definition settled :: "IR list \<Rightarrow> nat \<Rightarrow> bool" where
  "settled prog pc \<longleftrightarrow> (pc < length prog \<longrightarrow> not_nop (prog ! pc))"

lemma settle:
  "\<exists>pc'. settled prog pc' \<and> new_pos prog pc' = new_pos prog pc \<and>
     silent (ir_step holds eff name prog) (pc, rets, s) (pc', rets, s)"
proof (induction "length prog - pc" arbitrary: pc)
  case 0
  then show ?case by (intro exI [of _ pc]) (simp add: settled_def silent_def)
next
  case (Suc n)
  show ?case
  proof (cases "not_nop (prog ! pc)")
    case True
    then show ?thesis by (intro exI [of _ pc]) (simp add: settled_def silent_def)
  next
    case False
    have pc: "pc < length prog" using Suc by simp
    have "n = length prog - Suc pc" using Suc(2) by arith
    from Suc(1) [OF this] obtain pc' where pc': "settled prog pc'" "new_pos prog pc' = new_pos prog (Suc pc)"
      "silent (ir_step holds eff name prog) (Suc pc, rets, s) (pc', rets, s)" by blast
    have "ir_step holds eff name prog (pc, rets, s) = Some (Suc pc, rets, s)"
      using pc False by (intro ir_step_skip) (auto simp: not_nop_def)
    then have "silent (ir_step holds eff name prog) (pc, rets, s) (pc', rets, s)"
      by (rule silent_step [OF _ _ pc'(3)]) (simp add: config_data_def)
    with pc' new_pos_Suc [OF pc] False show ?thesis by auto
  qed
qed

lemma finished_filter:
  assumes "settled prog (fst c)"
  shows "finished (filter not_nop prog) (move prog c) = finished prog c"
proof (cases "fst c < length prog")
  case True
  with assms new_pos_nth [OF True] show ?thesis
    by (auto simp: finished_def move_def settled_def split: prod.splits)
next
  case False
  then show ?thesis by (auto simp: finished_def move_def new_pos_beyond split: prod.splits)
qed

lemma filter_stuttering:
  "stuttering (ir_step holds eff name prog) prog (ir_step holds eff name (filter not_nop prog)) (filter not_nop prog)
     (\<lambda>c c'. settled prog (fst c) \<and> c' = move prog c)"
  unfolding stuttering_def
proof (intro allI impI conjI)
  let ?st = "ir_step holds eff name prog" and ?st' = "ir_step holds eff name (filter not_nop prog)"
  fix c c' :: "'a config"
  assume R: "settled prog (fst c) \<and> c' = move prog c"
  then show "config_data c = config_data c'" by (auto simp: move_def config_data_def split: prod.splits)
  obtain pc rets s where c: "c = (pc, rets, s)" by (cases c)
  have eq: "?st' c' = map_option (move prog) (?st c)"
    using R ir_step_filter [of pc prog holds eff name rets s] by (simp add: c settled_def)
  show "(?st c = None \<and> ?st' c' = None \<and> finished prog c = finished (filter not_nop prog) c') \<or>
    (\<exists>d d'. moves ?st c d \<and> moves ?st' c' d' \<and> settled prog (fst d) \<and> d' = move prog d)"
  proof (cases "?st c")
    case None
    with eq finished_filter [of prog c] R show ?thesis by simp
  next
    case (Some d)
    obtain pc1 rets1 s1 where d: "d = (pc1, rets1, s1)" by (cases d)
    obtain pc2 where pc2: "settled prog pc2" "new_pos prog pc2 = new_pos prog pc1"
      "silent ?st (pc1, rets1, s1) (pc2, rets1, s1)"
      using settle [of prog pc1 holds eff name rets1 s1] by auto
    have "moves ?st c (pc2, rets1, s1)"
      using Some pc2(3) d by (intro moves_silent [of ?st c d]) simp_all
    moreover have "moves ?st' c' (move prog (pc2, rets1, s1))"
      using eq Some pc2(2) by (intro moves_step) (simp add: d move_def)
    ultimately show ?thesis
      using pc2(1) by (intro disjI2 exI [of _ "(pc2, rets1, s1)"] exI [of _ "move prog (pc2, rets1, s1)"]) simp
  qed
qed

lemma filter_behaviour:
  assumes "pc < length prog" and "not_nop (prog ! pc)"
  shows "same_behaviour (ir_step holds eff name prog) prog (pc, [], s)
     (ir_step holds eff name (filter not_nop prog)) (filter not_nop prog) (new_pos prog pc, [], s)"
  using assms
  by (intro stuttering_same_behaviour [OF filter_stuttering]) (simp add: settled_def move_def)

section \<open>The passes perform rewritings\<close>

text \<open>The labels of the program are allocated and their counts are right.\<close>

definition counted :: "nat set \<Rightarrow> 'a ir_state_scheme \<Rightarrow> bool" where
  "counted L st \<longleftrightarrow>
     prog_wf L (instr_buffer st) \<and>
     (\<forall>i l. label_at (instr_buffer st) i l \<longrightarrow>
        (\<exists>ope. opes st l = Some ope \<and> ope_label_ref_cnt ope = int (refs (instr_buffer st) l)))"

definition same_data :: "nat set \<Rightarrow> 'a ope_state_scheme \<Rightarrow> 'a ope_state_scheme \<Rightarrow> bool" where
  "same_data L st st' \<longleftrightarrow> (\<forall>p. p \<notin> L \<longrightarrow> opes st' p = opes st p)"

lemma same_data_refl [simp]: "same_data L st st"
  by (simp add: same_data_def)

lemma same_data_trans: "same_data L st1 st2 \<Longrightarrow> same_data L st2 st3 \<Longrightarrow> same_data L st1 st3"
  by (simp add: same_data_def)

lemma refs_Cons: "refs (ir # prog) l = of_bool (jump_target ir = Some l) + refs prog l"
  by (simp add: refs_def)

lemma refs_update:
  assumes "i < length prog"
  shows "int (refs (prog[i := ir]) l) =
    int (refs prog l) - of_bool (jump_target (prog ! i) = Some l) + of_bool (jump_target ir = Some l)"
  using assms
proof (induction prog arbitrary: i)
  case (Cons x prog)
  then show ?case by (cases i) (simp_all add: refs_Cons)
qed simp

lemma jump_target_nop [simp]: "ir_type ir = IR_NOP \<Longrightarrow> jump_target ir = None"
  by (simp add: jump_target_def is_branch_iff)

definition add_refs :: "nat \<Rightarrow> Operand_ \<Rightarrow> Operand_" where
  "add_refs n ope = ope_label_ref_cnt_update (\<lambda>c. c + int n) ope"

lemma count_refs_eq:
  assumes "\<And>ir. ir \<in> set irs \<Longrightarrow> can_jump ir \<Longrightarrow> \<exists>l. jump_target ir = Some l \<and> opes st l \<noteq> None"
  shows "count_refs irs st = Some (st\<lparr>opes := \<lambda>p. map_option (add_refs (refs irs p)) (opes st p)\<rparr>)"
  using assms
proof (induction irs arbitrary: st)
  case Nil
  have "add_refs 0 = (\<lambda>ope. ope)" by (simp add: add_refs_def fun_eq_iff)
  then show ?case by (simp add: refs_def option.map_ident)
next
  case (Cons ir irs)
  show ?case
  proof (cases "can_jump ir")
    case False
    with Cons show ?thesis by (simp add: refs_Cons jump_target_def can_jump_iff)
  next
    case True
    with Cons.prems [of ir] obtain l ope where l: "jump_target ir = Some l" "opes st l = Some ope" by auto
    let ?st = "st\<lparr>opes := (opes st)(l \<mapsto> add_refs 1 ope)\<rparr>"
    have "count_refs (ir # irs) st = count_refs irs ?st"
      using True l by (auto simp: can_jump_iff jump_target_def update_ope_def add_refs_def)
    also have "\<dots> = Some (?st\<lparr>opes := \<lambda>p. map_option (add_refs (refs irs p)) (opes ?st p)\<rparr>)"
    proof (rule Cons.IH)
      fix ir'
      assume "ir' \<in> set irs" "can_jump ir'"
      with Cons.prems [of ir'] show "\<exists>l. jump_target ir' = Some l \<and> opes ?st l \<noteq> None" by auto
    qed
    also have "?st\<lparr>opes := \<lambda>p. map_option (add_refs (refs irs p)) (opes ?st p)\<rparr> =
        st\<lparr>opes := \<lambda>p. map_option (add_refs (refs (ir # irs) p)) (opes st p)\<rparr>"
      using l by (auto simp: refs_Cons add_refs_def fun_eq_iff)
    finally show ?thesis .
  qed
qed

lemma count_refs_counted:
  assumes wf: "prog_wf L (instr_buffer st)"
    and labels: "\<And>i l. label_at (instr_buffer st) i l \<Longrightarrow> \<exists>ope. opes st l = Some ope \<and> ope_label_ref_cnt ope = 0"
    and L: "\<And>p ope. opes st p = Some ope \<Longrightarrow> p \<in> L \<longleftrightarrow> ope_type ope = OPE_LABEL"
  shows "\<exists>st'. count_refs (instr_buffer st) st = Some st' \<and> counted L st' \<and> same_data L st st' \<and>
    instr_buffer st' = instr_buffer st"
proof -
  let ?st' = "st\<lparr>opes := \<lambda>p. map_option (add_refs (refs (instr_buffer st) p)) (opes st p)\<rparr>"
  have target: "\<exists>i. jump_target ir = Some l \<and> label_at (instr_buffer st) i l"
    if "ir \<in> set (instr_buffer st)" "jump_target ir = Some l" for ir l
  proof -
    have "can_jump ir" using that by (auto simp: jump_target_def can_jump_iff split: if_splits)
    moreover from that(1) obtain k where "k < nr_instr st" "ir = instr_buffer st ! k"
      by (auto simp: in_set_conv_nth)
    ultimately show ?thesis using that(2) prog_wf_jump [OF wf, of k] by auto
  qed
  have "count_refs (instr_buffer st) st = Some ?st'"
  proof (rule count_refs_eq)
    fix ir
    assume "ir \<in> set (instr_buffer st)" "can_jump ir"
    with prog_wf_jump [OF wf] labels show "\<exists>l. jump_target ir = Some l \<and> opes st l \<noteq> None"
      by (fastforce simp: in_set_conv_nth)
  qed
  moreover have "counted L ?st'"
    using wf labels by (force simp: counted_def add_refs_def)
  moreover have "same_data L st ?st'"
    unfolding same_data_def
  proof (intro allI impI)
    fix p
    assume "p \<notin> L"
    have "jump_target ir \<noteq> Some p" if "ir \<in> set (instr_buffer st)" for ir
      using target [OF that, of p] prog_wf_label [OF wf] \<open>p \<notin> L\<close> by auto
    then have "refs (instr_buffer st) p = 0" by (simp add: refs_def filter_empty_conv)
    then show "opes ?st' p = opes st p" by (cases "opes st p") (simp_all add: add_refs_def)
  qed
  ultimately show ?thesis by auto
qed

text \<open>\<open>deref_label\<close> on a label of the program, and that it ignores the rest of the buffer.\<close>

definition dropped :: "IR list \<Rightarrow> nat \<Rightarrow> IR list" where
  "dropped prog i = prog[i := (prog ! i)\<lparr>ir_type := IR_NOP, ir_rs := None\<rparr>]"

lemma deref_label_eq:
  assumes "label_at (instr_buffer st) i l" and "opes st l = Some ope"
  shows "deref_label i st =
    Some (if ope_label_ref_cnt ope = 1
          then st\<lparr>opes := (opes st)(l := None), instr_buffer := dropped (instr_buffer st) i\<rparr>
          else st\<lparr>opes := (opes st)(l \<mapsto> ope_label_ref_cnt_update (\<lambda>c. c - 1) ope)\<rparr>)"
  using assms
  by (simp add: deref_label_def label_at_def is_label_def array_get_def update_ope_def
        free_operand_def dropped_def)

lemma deref_label_counted:
  assumes wf: "prog_wf L (instr_buffer st)" and l: "label_at (instr_buffer st) i l"
    and cnt: "\<And>k m. label_at (instr_buffer st) k m \<Longrightarrow>
      \<exists>ope. opes st m = Some ope \<and> ope_label_ref_cnt ope = int (refs (instr_buffer st) m) + of_bool (m = l)"
  shows "\<exists>st'. deref_label i st = Some st' \<and> counted L st' \<and> same_data L st st' \<and>
    ir_rewrite\<^sup>*\<^sup>* (instr_buffer st) (instr_buffer st') \<and> nr_instr st' = nr_instr st"
proof -
  let ?buf = "instr_buffer st"
  from cnt [OF l] obtain ope where ope: "opes st l = Some ope" "ope_label_ref_cnt ope = int (refs ?buf l) + 1"
    by auto
  note lL = prog_wf_label [OF wf l]
  show ?thesis
  proof (cases "refs ?buf l = 0")
    case True
    let ?st = "st\<lparr>opes := (opes st)(l := None), instr_buffer := dropped ?buf i\<rparr>"
    have d: "deref_label i st = Some ?st" using deref_label_eq [OF l ope(1)] ope(2) True by simp
    have rw: "ir_rewrite ?buf (dropped ?buf i)"
      unfolding dropped_def by (rule ir_rewrite.drop_label [OF l True])
    have lab: "label_at (dropped ?buf i) k m \<longleftrightarrow> label_at ?buf k m \<and> k \<noteq> i" for k m
      unfolding dropped_def by (rule label_at_drop) simp
    have "refs (dropped ?buf i) m = refs ?buf m" for m
      using refs_update [of i ?buf "(?buf ! i)\<lparr>ir_type := IR_NOP, ir_rs := None\<rparr>" m] label_at_type [OF l]
      by (simp add: dropped_def jump_target_def is_branch_iff)
    moreover have "m \<noteq> l \<and> (\<exists>ope. opes st m = Some ope \<and> ope_label_ref_cnt ope = int (refs ?buf m))"
      if "label_at ?buf k m" "k \<noteq> i" for k m
      using that cnt [OF that(1)] prog_wf_unique [OF wf that(1), of i] l by (cases "m = l") auto
    ultimately have "counted L ?st"
      unfolding counted_def using ir_rewrite_wf [OF rw wf] by (simp add: lab) blast
    with d rw lL show ?thesis
      by (auto simp: same_data_def dropped_def)
  next
    case False
    with deref_label_eq [OF l ope(1)] ope(2)
    have d: "deref_label i st = Some (st\<lparr>opes := (opes st)(l \<mapsto> ope_label_ref_cnt_update (\<lambda>c. c - 1) ope)\<rparr>)"
      by simp
    have "counted L (st\<lparr>opes := (opes st)(l \<mapsto> ope_label_ref_cnt_update (\<lambda>c. c - 1) ope)\<rparr>)"
      unfolding counted_def using wf cnt ope by (fastforce split: if_splits)
    with d lL show ?thesis by (auto simp: same_data_def)
  qed
qed

lemma deref_label_commute:
  assumes "j \<noteq> i"
  shows "deref_label i (st\<lparr>instr_buffer := (instr_buffer st)[j := x]\<rparr>) =
    map_option (\<lambda>st. st\<lparr>instr_buffer := (instr_buffer st)[j := x]\<rparr>) (deref_label i st)"
  using assms
  by (auto simp: deref_label_def array_get_def update_ope_def free_operand_def c_assert_def list_update_swap
        split: bind_splits if_splits)

definition pass_ok :: "nat set \<Rightarrow> 'a ir_state_scheme \<Rightarrow> 'a ir_state_scheme \<Rightarrow> bool" where
  "pass_ok L st st' \<longleftrightarrow>
     counted L st' \<and> same_data L st st' \<and> ir_rewrite\<^sup>*\<^sup>* (instr_buffer st) (instr_buffer st') \<and>
     nr_instr st' = nr_instr st"

lemma pass_ok_refl: "counted L st \<Longrightarrow> pass_ok L st st"
  by (simp add: pass_ok_def)

lemma pass_ok_trans: "pass_ok L st1 st2 \<Longrightarrow> pass_ok L st2 st3 \<Longrightarrow> pass_ok L st1 st3"
  by (auto simp: pass_ok_def intro: same_data_trans)

text \<open>A jump to \<open>l\<close> is rewritten away, then the label is released.\<close>

lemma rewrite_then_deref:
  assumes cn: "counted L st" and rw: "ir_rewrite (instr_buffer st) buf"
    and lab: "\<And>k m. label_at buf k m = label_at (instr_buffer st) k m"
    and refs: "\<And>m. int (refs buf m) = int (refs (instr_buffer st) m) - of_bool (m = l)"
    and l: "label_at (instr_buffer st) i l"
  shows "\<exists>st'. deref_label i (st\<lparr>instr_buffer := buf\<rparr>) = Some st' \<and> pass_ok L st st'"
proof -
  let ?st = "st\<lparr>instr_buffer := buf\<rparr>"
  have "prog_wf L buf" using ir_rewrite_wf [OF rw] cn by (simp add: counted_def)
  moreover have "label_at buf i l" using l lab by simp
  moreover have "\<exists>ope. opes ?st m = Some ope \<and> ope_label_ref_cnt ope = int (refs buf m) + of_bool (m = l)"
    if "label_at buf k m" for k m
    using that cn refs [of m] unfolding counted_def lab by fastforce
  ultimately obtain st' where "deref_label i ?st = Some st'" "counted L st'" "same_data L ?st st'"
    "ir_rewrite\<^sup>*\<^sup>* buf (instr_buffer st')" "nr_instr st' = length buf"
    using deref_label_counted [of L ?st i l] by auto
  with rw ir_rewrite_length [OF rw] show ?thesis
    by (auto simp: pass_ok_def same_data_def intro: converse_rtranclp_into_rtranclp)
qed

lemma peephole_at_ok:
  assumes cn: "counted L st" and len: "i + 2 < nr_instr st"
  shows "\<exists>st'. peephole_at i st = Some st' \<and> pass_ok L st st'"
proof -
  let ?buf = "instr_buffer st"
  let ?a = "?buf ! i" and ?b = "?buf ! (i + 1)" and ?c = "?buf ! (i + 2)"
  have wf: "prog_wf L ?buf" using cn by (simp add: counted_def)
  consider
      (inv) "is_branch ?a" "ir_type ?b = IR_JMP" "ir_type ?c = IR_LABEL" "ir_rd ?a = ir_rs ?c"
    | (jmp) "\<not> (is_branch ?a \<and> ir_type ?b = IR_JMP \<and> ir_type ?c = IR_LABEL \<and> ir_rd ?a = ir_rs ?c)"
        "ir_type ?a = IR_JMP" "ir_type ?b = IR_LABEL" "ir_rs ?b = ir_rs ?a"
    | (none) "\<not> (is_branch ?a \<and> ir_type ?b = IR_JMP \<and> ir_type ?c = IR_LABEL \<and> ir_rd ?a = ir_rs ?c)"
        "\<not> (ir_type ?a = IR_JMP \<and> ir_type ?b = IR_LABEL \<and> ir_rs ?b = ir_rs ?a)" by blast
  then show ?thesis
  proof cases
    case inv
    obtain l where l: "ir_rs ?c = Some l" "label_at ?buf (i + 2) l"
      using prog_wf_label_ex [OF wf _ inv(3)] len by auto
    let ?p = "?buf[i := inverted ?buf i, i + 1 := nop ?b]"
    note types = is_branch_types [OF inv(1)] is_branch_types [OF inverted_branch [OF inv(1)]]
    have "peephole_at i st = deref_label (i + 2) (st\<lparr>instr_buffer := ?p\<rparr>)"
      using inv len
        deref_label_commute [of i "i + 2" st "?a\<lparr>ir_type := get_relop_anti (ir_type ?a)\<rparr>"]
        deref_label_commute [of i "i + 2" st "inverted ?buf i"]
        deref_label_commute [of "i + 1" "i + 2" "st\<lparr>instr_buffer := ?buf[i := inverted ?buf i]\<rparr>" "nop ?b"]
      by (cases "deref_label (i + 2) st")
         (simp_all add: peephole_at_def array_get_def inverted_def nop_def Let_def)
    moreover have "\<exists>st'. deref_label (i + 2) (st\<lparr>instr_buffer := ?p\<rparr>) = Some st' \<and> pass_ok L st st'"
    proof (rule rewrite_then_deref [OF cn _ _ _ l(2)])
      show "ir_rewrite ?buf ?p"
        using ir_rewrite.invert [OF len inv(1) _ inv(2) l(2)] inv(4) l(1) by (simp add: inverted_def)
      have "label_at (?buf[i := inverted ?buf i]) k m = label_at ?buf k m" for k m
        using types by (intro label_at_update) (simp add: is_label_def)
      moreover have "label_at ?p k m = label_at (?buf[i := inverted ?buf i]) k m" for k m
        using inv(2) by (intro label_at_update) (simp add: is_label_def)
      ultimately show "label_at ?p k m = label_at ?buf k m" for k m by simp
      show "int (refs ?p m) = int (refs ?buf m) - of_bool (m = l)" for m
        using refs_update [of i ?buf "inverted ?buf i" m]
          refs_update [of "i + 1" "?buf[i := inverted ?buf i]" "nop ?b" m]
          inverted_target [OF inv(1)] jump_target_JMP [OF inv(2)] inv(1,4) l(1) len
        by (auto simp: jump_target_def [of ?a])
    qed
    ultimately show ?thesis by simp
  next
    case jmp
    obtain l where l: "ir_rs ?b = Some l" "label_at ?buf (i + 1) l"
      using prog_wf_label_ex [OF wf _ jmp(3)] len by auto
    have "peephole_at i st = deref_label (i + 1) (st\<lparr>instr_buffer := ?buf[i := nop ?a]\<rparr>)"
      using jmp len by (auto simp: peephole_at_def array_get_def nop_def)
    moreover have "\<exists>st'. deref_label (i + 1) (st\<lparr>instr_buffer := ?buf[i := nop ?a]\<rparr>) = Some st' \<and> pass_ok L st st'"
    proof (rule rewrite_then_deref [OF cn])
      show "ir_rewrite ?buf (?buf[i := nop ?a])"
        using jmp l len by (intro ir_rewrite.drop_jump [of i ?buf l]) (simp_all add: label_at_def is_label_def)
      show "label_at (?buf[i := nop ?a]) k m = label_at ?buf k m" for k m
        using jmp by (intro label_at_update) (simp add: is_label_def)
      show "int (refs (?buf[i := nop ?a]) m) = int (refs ?buf m) - of_bool (m = l)" for m
        using refs_update [of i ?buf "nop ?a" m] jmp l len jump_target_JMP [OF jmp(2)] by auto
      show "label_at ?buf (i + 1) l" by (rule l(2))
    qed
    ultimately show ?thesis by simp
  next
    case none
    then have "peephole_at i st = Some st"
      using len by (auto simp: peephole_at_def array_get_def)
    with cn show ?thesis by (simp add: pass_ok_refl)
  qed
qed

lemma peephole_loop_ok:
  "counted L st \<Longrightarrow> i + k + 2 \<le> nr_instr st \<Longrightarrow> \<exists>st'. peephole_loop k i st = Some st' \<and> pass_ok L st st'"
proof (induction k arbitrary: i st)
  case 0
  then show ?case by (simp add: pass_ok_refl)
next
  case (Suc k)
  then obtain st1 where st1: "peephole_at i st = Some st1" "pass_ok L st st1"
    using peephole_at_ok [of L st i] by auto
  with Suc.prems Suc.IH [of st1 "Suc i"] obtain st2 where "peephole_loop k (Suc i) st1 = Some st2" "pass_ok L st1 st2"
    by (auto simp: pass_ok_def)
  with st1 show ?case by (auto intro: pass_ok_trans)
qed

lemma replace_operand_global_eq:
  "snd (replace_operand_global (Some q) (Some p) st) = st\<lparr>instr_buffer := map (redirect q p) (instr_buffer st)\<rparr>"
proof -
  have "set_bit REP_SRC (set_bit REP_DST (set_bit REP_BLK 0)) = (7 :: nat)"
    by (simp add: REP_SRC_def REP_DST_def REP_BLK_def set_bit_eq_or)
  then show ?thesis
    by (simp add: replace_operand_global_def replace_operand_def Let_def redirect_def [abs_def] comp_def)
qed

lemma refs_redirect:
  assumes "\<And>ir. ir \<in> set prog \<Longrightarrow> Some p \<notin> set (data_operands ir)" and "m \<noteq> p" and "p \<noteq> q"
  shows "refs (map (redirect q p) prog) m = refs prog m + (if m = q then refs prog p else 0)"
  using assms by (induction prog) (auto simp: refs_Cons redirect_target refs_def [of "[]"])

lemma refs_merged:
  assumes wf: "prog_wf L prog" and p: "label_at prog i p" and "m \<noteq> p" and "p \<noteq> q"
  shows "refs (merged prog q p i) m = refs prog m + (if m = q then refs prog p else 0)"
proof -
  let ?ir = "(redirect q p (prog ! i))\<lparr>ir_type := IR_NOP, ir_rs := None\<rparr>"
  note i = label_at_type [OF p]
  have data: "Some p \<notin> set (data_operands ir)" if "ir \<in> set prog" for ir
    using that prog_wf_data [OF wf _ prog_wf_label [OF wf p]] by (auto simp: in_set_conv_nth)
  have "jump_target (redirect q p (prog ! i)) = None"
    using i by (simp add: jump_target_def is_branch_iff)
  then have "refs (merged prog q p i) m = refs (map (redirect q p) prog) m"
    using refs_update [of i "map (redirect q p) prog" ?ir m] i by (simp add: merged_def)
  with refs_redirect [OF data assms(3,4)] show ?thesis by simp
qed

text \<open>The merging loop: \<open>pre\<close> is a label followed by nothing up to \<open>i\<close>.\<close>

definition pre_ok :: "IR list \<Rightarrow> nat \<Rightarrow> nat option \<Rightarrow> bool" where
  "pre_ok prog i pre \<longleftrightarrow>
     (case pre of
       None \<Rightarrow> True
     | Some j \<Rightarrow> j < i \<and> ir_type (prog ! j) = IR_LABEL \<and> (\<forall>k. j < k \<and> k < i \<longrightarrow> ir_type (prog ! k) = IR_NOP))"

lemma counted_merge:
  assumes cn: "counted L st" and q: "label_at (instr_buffer st) j q" and p: "label_at (instr_buffer st) i p"
    and ji: "j < i" and h: "opes st q = Some b" "opes st p = Some a"
  shows "counted L (st\<lparr>opes := (opes st)(q \<mapsto> ope_label_ref_cnt_update (\<lambda>c. c + ope_label_ref_cnt a) b),
    instr_buffer := merged (instr_buffer st) q p i\<rparr>)"
proof -
  let ?buf = "instr_buffer st"
  have wf: "prog_wf L ?buf" using cn by (simp add: counted_def)
  have pq: "p \<noteq> q" using prog_wf_unique [OF wf q, of i] p ji by auto
  have cnt: "\<exists>ope. opes st m = Some ope \<and> ope_label_ref_cnt ope = int (refs ?buf m)" if "label_at ?buf k m" for k m
    using cn that unfolding counted_def by blast
  have np: "m \<noteq> p" if "label_at ?buf k m" "k \<noteq> i" for k m
    using prog_wf_unique [OF wf that(1), of i] that(2) p by auto
  have "\<exists>ope. ((opes st)(q \<mapsto> ope_label_ref_cnt_update (\<lambda>c. c + ope_label_ref_cnt a) b)) m = Some ope \<and>
      ope_label_ref_cnt ope = int (refs (merged ?buf q p i) m)" if m: "label_at ?buf k m" "k \<noteq> i" for k m
    using cnt [OF m(1)] cnt [OF p] cnt [OF q] h refs_merged [OF wf p np [OF m] pq] by auto
  with prog_wf_merge [OF wf q p ji] show ?thesis
    by (simp add: counted_def merged_label [OF wf p] del: fun_upd_apply) blast
qed

lemma merge_at_ok:
  assumes cn: "counted L st" and i: "i < nr_instr st" and pre: "pre_ok (instr_buffer st) i pre"
  shows "\<exists>pre' st'. merge_at i pre st = Some (pre', st') \<and> pass_ok L st st' \<and> pre_ok (instr_buffer st') (Suc i) pre'"
proof -
  let ?buf = "instr_buffer st"
  have wf: "prog_wf L ?buf" using cn by (simp add: counted_def)
  consider (start) "ir_type (?buf ! i) = IR_LABEL" "pre = None" | (other) "ir_type (?buf ! i) \<noteq> IR_LABEL"
    | (run) j where "ir_type (?buf ! i) = IR_LABEL" "pre = Some j" by auto
  then show ?thesis
  proof cases
    case start
    with i have "merge_at i pre st = Some (Some i, st)" by (simp add: merge_at_def)
    with start cn show ?thesis by (auto simp: pass_ok_refl pre_ok_def)
  next
    case other
    with i have "merge_at i pre st = Some (None, st)" by (simp add: merge_at_def)
    with cn show ?thesis by (simp add: pass_ok_refl pre_ok_def)
  next
    case run
    with pre have j: "j < i" "ir_type (?buf ! j) = IR_LABEL" "\<And>k. j < k \<Longrightarrow> k < i \<Longrightarrow> ir_type (?buf ! k) = IR_NOP"
      by (simp_all add: pre_ok_def)
    obtain q where q: "ir_rs (?buf ! j) = Some q" "label_at ?buf j q"
      using prog_wf_label_ex [OF wf _ j(2)] i j(1) by auto
    obtain p where p: "ir_rs (?buf ! i) = Some p" "label_at ?buf i p"
      using prog_wf_label_ex [OF wf i run(1)] by auto
    obtain a b where h: "opes st q = Some b" "opes st p = Some a"
      using cn q(2) p(2) unfolding counted_def by blast
    let ?st = "st\<lparr>opes := (opes st)(q \<mapsto> ope_label_ref_cnt_update (\<lambda>c. c + ope_label_ref_cnt a) b),
      instr_buffer := merged ?buf q p i\<rparr>"
    have "merge_at i pre st = Some (Some j, ?st)"
      using i run q p h
      by (simp add: merge_at_def update_ope_def replace_operand_global_eq merged_def Let_def)
    moreover have "ir_rewrite ?buf (merged ?buf q p i)"
      unfolding merged_def using j by (intro ir_rewrite.merge [OF q(2) p(2)]) auto
    then have "pass_ok L st ?st"
      using counted_merge [OF cn q(2) p(2) j(1) h] prog_wf_label [OF wf q(2)]
      by (auto simp: pass_ok_def same_data_def)
    moreover have "pre_ok (merged ?buf q p i) (Suc i) (Some j)"
      using j i merged_nop [OF i, of q p] merged_type [of _ ?buf i q p]
      by (auto simp: pre_ok_def less_Suc_eq)
    ultimately show ?thesis by auto
  qed
qed

lemma merge_loop_ok:
  "counted L st \<Longrightarrow> i + k \<le> nr_instr st \<Longrightarrow> pre_ok (instr_buffer st) i pre \<Longrightarrow>
     \<exists>st'. merge_loop k i pre st = Some st' \<and> pass_ok L st st'"
proof (induction k arbitrary: i pre st)
  case 0
  then show ?case by (simp add: pass_ok_refl)
next
  case (Suc k)
  then obtain pre1 st1 where st1: "merge_at i pre st = Some (pre1, st1)" "pass_ok L st st1"
    "pre_ok (instr_buffer st1) (Suc i) pre1"
    using merge_at_ok [of L st i pre] by auto
  with Suc.prems Suc.IH [of st1 "Suc i" pre1] obtain st2 where "merge_loop k (Suc i) pre1 st1 = Some st2" "pass_ok L st1 st2"
    by (auto simp: pass_ok_def)
  with st1 show ?case by (auto intro: pass_ok_trans)
qed

section \<open>Whole programs\<close>

lemma inverted_not_func: "is_branch (prog ! i) \<Longrightarrow> ir_type (inverted prog i) \<noteq> IR_FUNC"
  using is_branch_types [OF inverted_branch] by simp

lemma ir_rewrite_func:
  "ir_rewrite prog prog' \<Longrightarrow> prog_wf L prog \<Longrightarrow> func_pos name prog' = func_pos name prog"
proof (induction rule: ir_rewrite.induct)
  case (drop_jump i prog l)
  then show ?case by (intro func_pos_update) simp_all
next
  case (drop_label prog i l)
  then show ?case using label_at_type [of prog i l] by (intro func_pos_update) simp_all
next
  case (invert i prog l)
  have "func_pos name (prog[i := inverted prog i]) = func_pos name prog"
    using invert is_branch_types [OF invert(2)] inverted_not_func [OF invert(2)] by (intro func_pos_update) simp_all
  with invert show ?case by (simp add: func_pos_update inverted_def)
next
  case (merge prog j q i p)
  then show ?case using merged_func [of L prog i p name q] by (simp add: merged_def)
qed

lemma ir_rewrites_wf: "ir_rewrite\<^sup>*\<^sup>* prog prog' \<Longrightarrow> prog_wf L prog \<Longrightarrow> prog_wf L prog'"
  by (induction rule: rtranclp_induct) (auto intro: ir_rewrite_wf)

lemma ir_rewrites_func:
  "ir_rewrite\<^sup>*\<^sup>* prog prog' \<Longrightarrow> prog_wf L prog \<Longrightarrow> func_pos name prog' = func_pos name prog"
proof (induction rule: rtranclp_induct)
  case (step y z)
  then show ?case using ir_rewrite_func ir_rewrites_wf by metis
qed simp

context data_semantics
begin

lemma ir_rewrites_behaviour:
  assumes "ir_rewrite\<^sup>*\<^sup>* prog prog'" and wf: "prog_wf L prog" and f: "func_pos name prog f = Some pc"
  shows "same_behaviour (ir_step holds eff name prog) prog (pc, [], s) (ir_step holds eff name prog') prog' (pc, [], s)"
  using assms(1)
proof (induction rule: rtranclp_induct)
  case base
  show ?case by (simp add: same_behaviour_def)
next
  case (step y z)
  have "func_pos name y f = Some pc" using ir_rewrites_func [OF step(1) wf] f by simp
  from func_pos_type [OF this] step.IH ir_rewrite_behaviour [OF step(2) ir_rewrites_wf [OF step(1) wf]]
  show ?case by (blast intro: same_behaviour_trans)
qed

end

text \<open>The label operands play no role in the execution.\<close>

definition label_free :: "nat set \<Rightarrow> IR list \<Rightarrow> bool" where
  "label_free L prog \<longleftrightarrow> (\<forall>ir\<in>set prog. \<forall>p\<in>L. Some p \<notin> set (data_operands ir))"

lemma prog_wf_label_free: "prog_wf L prog \<Longrightarrow> label_free L prog"
  unfolding label_free_def by (metis in_set_conv_nth prog_wf_data)

lemma label_free_filter: "label_free L prog \<Longrightarrow> label_free L (filter P prog)"
  by (simp add: label_free_def)

lemma data_operands_branch: "is_branch ir \<Longrightarrow> set (data_operands ir) = {ir_rs ir, ir_rt ir}"
  using is_branch_types [of ir] by (simp add: data_operands_def)

lemma data_operands_plain:
  "ir_type ir \<notin> {IR_NOP, IR_LABEL, IR_JMP} \<Longrightarrow> \<not> is_branch ir \<Longrightarrow>
     set (data_operands ir) = {ir_rd ir, ir_rs ir, ir_rt ir}"
  by (simp add: data_operands_def)

lemma eval_operand_heap:
  assumes "\<And>p. p \<notin> L \<Longrightarrow> h' p = h p" and "\<And>p. p \<in> L \<Longrightarrow> ptr \<noteq> Some p"
  shows "eval_operand h' s ptr = eval_operand h s ptr"
proof (cases ptr)
  case (Some p)
  with assms have "h' p = h p" by blast
  with Some show ?thesis by (simp add: eval_operand_def)
qed (simp add: eval_operand_def)

lemma ir_eff_heap:
  assumes "\<And>p. p \<notin> L \<Longrightarrow> h' p = h p" and "\<And>p. p \<in> L \<Longrightarrow> Some p \<notin> set (data_operands ir)"
    and "ir_type ir \<notin> {IR_NOP, IR_LABEL, IR_JMP}" and "\<not> is_branch ir"
  shows "ir_eff h' ir s = ir_eff h ir s"
proof -
  have "eval_operand h' s (ir_rs ir) = eval_operand h s (ir_rs ir)"
    "eval_operand h' s (ir_rt ir) = eval_operand h s (ir_rt ir)"
    using data_operands_plain [OF assms(3,4)]
    by (auto intro!: eval_operand_heap [of L, OF assms(1)] dest: assms(2))
  then show ?thesis by (simp only: ir_eff_def Let_def)
qed

lemma ir_holds_heap:
  assumes "\<And>p. p \<notin> L \<Longrightarrow> h' p = h p" and "\<And>p. p \<in> L \<Longrightarrow> Some p \<notin> set (data_operands ir)"
    and "is_branch ir"
  shows "ir_holds h' ir s = ir_holds h ir s"
proof -
  have "eval_operand h' s (ir_rs ir) = eval_operand h s (ir_rs ir)"
    "eval_operand h' s (ir_rt ir) = eval_operand h s (ir_rt ir)"
    using data_operands_branch [OF assms(3)]
    by (auto intro!: eval_operand_heap [of L, OF assms(1)] dest: assms(2))
  then show ?thesis by (simp only: ir_holds_def)
qed

lemma func_pos_heap:
  assumes h: "\<And>p. p \<notin> L \<Longrightarrow> h' p = h p" and free: "label_free L prog"
  shows "func_pos (ope_names h') prog f = func_pos (ope_names h) prog f"
  unfolding func_pos_def
proof (rule index_of_cong, rule map_cong [OF refl])
  fix ir
  assume "ir \<in> set prog"
  with free have "ir_type ir = IR_FUNC \<Longrightarrow> ir_rs ir = Some p \<Longrightarrow> p \<notin> L" for p
    using data_operands_plain [of ir] by (auto simp: label_free_def is_branch_iff)
  with h show "is_func (ope_names h') f ir = is_func (ope_names h) f ir"
    by (auto simp: is_func_def ope_names_def split: option.splits)
qed

lemma ir_exec_heap:
  assumes h: "\<And>p. p \<notin> L \<Longrightarrow> h' p = h p" and free: "label_free L prog"
  shows "ir_exec h' prog c = ir_exec h prog c"
proof -
  obtain pc rets s where c: "c = (pc, rets, s)" by (cases c)
  let ?ir = "prog ! pc"
  show ?thesis
  proof (cases "pc < length prog")
    case False
    then show ?thesis by (simp add: c ir_step_def)
  next
    case True
    then have ir: "\<And>p. p \<in> L \<Longrightarrow> Some p \<notin> set (data_operands ?ir)"
      using free by (simp add: label_free_def)
    consider (skip) "ir_type ?ir \<in> {IR_NOP, IR_LABEL}" | (jump) "ir_type ?ir = IR_JMP" | (branch) "is_branch ?ir"
      | (plain) "ir_type ?ir \<notin> {IR_NOP, IR_LABEL, IR_JMP}" "\<not> is_branch ?ir" by blast
    then show ?thesis
    proof cases
      case skip
      with True show ?thesis by (auto simp: c ir_step_skip)
    next
      case jump
      with True show ?thesis by (simp add: c ir_step_jump)
    next
      case branch
      with True show ?thesis by (simp add: c ir_step_branch ir_holds_heap [OF h ir branch])
    next
      case plain
      have call: "ir_rs ?ir \<bind> (\<lambda>p. ope_names h' p \<bind> k) = ir_rs ?ir \<bind> (\<lambda>p. ope_names h p \<bind> k)"
        for k :: "string \<Rightarrow> machine config option"
      proof (cases "ir_rs ?ir")
        case (Some a)
        then have "a \<notin> L" using ir [of a] data_operands_plain [OF plain] by auto
        with Some h [of a] show ?thesis by (simp add: ope_names_def)
      qed simp
      show ?thesis
        using True plain
        by (simp add: c ir_step_def Let_def ir_eff_heap [OF h ir plain] func_pos_heap [OF h free] call
              split: list.split)
    qed
  qed
qed

section \<open>The pass as a whole\<close>

definition label_opes :: "'a ope_state_scheme \<Rightarrow> nat set" where
  "label_opes st = {p. \<exists>ope. opes st p = Some ope \<and> ope_type ope = OPE_LABEL}"

text \<open>What \<open>translate\<close> hands over: a well-formed buffer whose labels have not been counted yet.\<close>

definition ir_wf :: "'a ir_state_scheme \<Rightarrow> bool" where
  "ir_wf st \<longleftrightarrow>
     prog_wf (label_opes st) (instr_buffer st) \<and>
     (\<forall>p ope. opes st p = Some ope \<longrightarrow> ope_label_ref_cnt ope = 0)"

lemma preprocess_ir_ok:
  assumes "ir_wf st"
  obtains st' st'' where "preprocess_ir st = Some st'" and "pass_ok (label_opes st) st st''"
    and "instr_buffer st' = filter not_nop (instr_buffer st'')" and "opes st' = opes st''"
proof -
  let ?L = "label_opes st"
  have "\<exists>ope. opes st l = Some ope \<and> ope_label_ref_cnt ope = 0" if "label_at (instr_buffer st) i l" for i l
    using assms prog_wf_label [of ?L "instr_buffer st" i l] that by (auto simp: ir_wf_def label_opes_def)
  with count_refs_counted [of ?L st] assms obtain st1 where
    1: "count_refs (instr_buffer st) st = Some st1" "counted ?L st1" "same_data ?L st st1"
      "instr_buffer st1 = instr_buffer st"
    by (auto simp: ir_wf_def label_opes_def)
  then have ok1: "pass_ok ?L st st1" by (simp add: pass_ok_def)
  obtain st2 where 2: "peephole_loop (nr_instr st1 - 2) 0 st1 = Some st2" "pass_ok ?L st1 st2"
  proof (cases "2 \<le> nr_instr st1")
    case True
    then have "0 + (nr_instr st1 - 2) + 2 \<le> nr_instr st1" by simp
    from peephole_loop_ok [OF 1(2) this] that show ?thesis by blast
  next
    case False
    with pass_ok_refl [OF 1(2)] that show ?thesis by simp
  qed
  from 2(2) have "counted ?L st2" by (simp add: pass_ok_def)
  from merge_loop_ok [OF this, of 0 "nr_instr st2" None] obtain st3 where
    3: "merge_loop (nr_instr st2) 0 None st2 = Some st3" "pass_ok ?L st2 st3"
    by (auto simp: pre_ok_def)
  obtain buf n where c: "compress_ir (instr_buffer st3) (nr_instr st3) = (buf, n)" by fastforce
  have "preprocess_ir st = Some (st3\<lparr>instr_buffer := take n buf\<rparr>)"
    using 1 2 3 c by (simp add: preprocess_ir_def)
  moreover have "pass_ok ?L st st3" using ok1 2(2) 3(2) by (blast intro: pass_ok_trans)
  moreover note compress_ir_filter [OF c]
  ultimately show thesis using that by simp
qed

lemma refs_filter: "refs (filter not_nop prog) l = refs prog l"
  unfolding refs_def by (induction prog) (auto simp: not_nop_def)

lemma label_at_filter:
  "label_at (filter not_nop prog) i l \<Longrightarrow> \<exists>j. label_at prog j l \<and> i = new_pos prog j"
proof (induction prog arbitrary: i)
  case (Cons x prog)
  show ?case
  proof (cases "not_nop x")
    case True
    show ?thesis
    proof (cases i)
      case 0
      with Cons.prems True show ?thesis by (intro exI [of _ 0]) (simp add: label_at_def new_pos_def)
    next
      case (Suc k)
      with Cons.prems True have "label_at (filter not_nop prog) k l" by (simp add: label_at_def)
      from Cons.IH [OF this] obtain j where "label_at prog j l" "k = new_pos prog j" by blast
      with True Suc show ?thesis by (intro exI [of _ "Suc j"]) (simp add: label_at_def new_pos_def)
    qed
  next
    case False
    with Cons.prems have "label_at (filter not_nop prog) i l" by simp
    from Cons.IH [OF this] obtain j where "label_at prog j l" "i = new_pos prog j" by blast
    with False show ?thesis by (intro exI [of _ "Suc j"]) (simp add: label_at_def new_pos_def)
  qed
qed (simp add: label_at_def)

lemma label_at_new_pos:
  "label_at prog i l \<Longrightarrow> label_at (filter not_nop prog) (new_pos prog i) l"
  using new_pos_nth [of i prog] by (auto simp: label_at_def is_label_def not_nop_def)

lemma prog_wf_filter:
  assumes wf: "prog_wf L prog"
  shows "prog_wf L (filter not_nop prog)"
proof (rule prog_wfI)
  let ?P = "filter not_nop prog"
  have mem: "\<exists>j. j < length prog \<and> ?P ! i = prog ! j" if "i < length ?P" for i
    using nth_mem [OF that] by (auto simp: in_set_conv_nth)
  fix i
  assume i: "i < length ?P"
  from mem [OF i] obtain j where j: "j < length prog" "?P ! i = prog ! j" by blast
  {
    assume "ir_type (?P ! i) = IR_LABEL"
    with j wf show "\<exists>l\<in>L. ir_rs (?P ! i) = Some l" by (simp add: prog_wf_def)
  next
    assume "can_jump (?P ! i)"
    with j prog_wf_jump [OF wf j(1)] label_at_new_pos
    show "\<exists>l j. jump_target (?P ! i) = Some l \<and> label_at ?P j l" by metis
  next
    fix p assume "p \<in> L"
    with j prog_wf_data [OF wf j(1)] show "Some p \<notin> set (data_operands (?P ! i))" by simp
  }
next
  fix i j l
  assume "label_at (filter not_nop prog) i l" "label_at (filter not_nop prog) j l"
  then show "i = j" by (metis label_at_filter prog_wf_unique [OF wf])
qed

section \<open>An example buffer\<close>

text \<open>\<open>FUNCTION main; IF #1 == #1 GOTO L0; GOTO L1; LABEL L0; LABEL L1; RETURN #1\<close>.\<close>

definition demo_opes :: ope_heap where
  "demo_opes =
     [0 \<mapsto> memset_operand\<lparr>ope_type := OPE_FUNC, ope_name := ''main''\<rparr>,
      1 \<mapsto> memset_operand\<lparr>ope_type := OPE_INTEGER, ope_integer := 1\<rparr>,
      2 \<mapsto> memset_operand\<lparr>ope_type := OPE_LABEL, ope_label := 0\<rparr>,
      3 \<mapsto> memset_operand\<lparr>ope_type := OPE_LABEL, ope_label := 1\<rparr>]"

definition demo_buffer :: "IR list" where
  "demo_buffer =
     [mk_instr IR_FUNC (Some 0) None None,
      mk_instr IR_BEQ (Some 1) (Some 1) (Some 2),
      mk_instr IR_JMP (Some 3) None None,
      mk_instr IR_LABEL (Some 2) None None,
      mk_instr IR_LABEL (Some 3) None None,
      mk_instr IR_RET (Some 1) None None]"

definition demo_ir :: ir_state where
  "demo_ir = \<lparr>opes = demo_opes, next_ope = 4, nr_ope = 0, nr_label = 2, instr_buffer = demo_buffer\<rparr>"

lemma demo_simps:
  "opes demo_ir = demo_opes" "instr_buffer demo_ir = demo_buffer" "length demo_buffer = 6"
  by (simp_all add: demo_ir_def demo_buffer_def)

lemma demo_label_opes: "label_opes demo_ir = {2, 3}"
  by (auto simp: label_opes_def demo_ir_def demo_opes_def memset_operand_def)

lemma demo_label_at: "label_at demo_buffer i l \<longleftrightarrow> (i = 3 \<and> l = 2) \<or> (i = 4 \<and> l = 3)"
  by (auto simp: label_at_def demo_buffer_def is_label_def mk_instr_def less_Suc_eq numeral_eq_Suc)

lemma demo_wf: "ir_wf demo_ir"
proof -
  have "prog_wf {2, 3} demo_buffer"
  proof (rule prog_wfI)
    fix i j l
    assume "label_at demo_buffer i l" "label_at demo_buffer j l"
    then show "i = j" by (auto simp: demo_label_at)
  next
    fix i
    assume "i < length demo_buffer"
    then have i: "i \<in> {0, 1, 2, 3, 4, 5}" by (auto simp: demo_buffer_def)
    {
      assume "ir_type (demo_buffer ! i) = IR_LABEL"
      with i show "\<exists>l\<in>{2, 3}. ir_rs (demo_buffer ! i) = Some l"
        by (auto simp: demo_buffer_def mk_instr_def)
    next
      assume "can_jump (demo_buffer ! i)"
      with i show "\<exists>l j. jump_target (demo_buffer ! i) = Some l \<and> label_at demo_buffer j l"
        unfolding demo_label_at
        by (auto simp: demo_buffer_def mk_instr_def can_jump_iff jump_target_def is_branch_iff)
    next
      fix p :: nat
      assume "p \<in> {2, 3}"
      with i show "Some p \<notin> set (data_operands (demo_buffer ! i))"
        by (auto simp: demo_buffer_def mk_instr_def data_operands_def is_branch_iff)
    }
  qed
  then show ?thesis
    by (auto simp: ir_wf_def demo_label_opes demo_simps)
      (auto simp: demo_opes_def memset_operand_def split: if_splits)
qed

lemma preprocess_ir_behaviour:
  assumes "ir_wf st"
  shows "\<exists>st'. preprocess_ir st = Some st' \<and>
    (\<forall>f pc. func_pos (ope_names (opes st)) (instr_buffer st) f = Some pc \<longrightarrow>
      (\<exists>pc'. func_pos (ope_names (opes st')) (instr_buffer st') f = Some pc' \<and>
        (\<forall>s. same_behaviour (ir_exec (opes st) (instr_buffer st)) (instr_buffer st) (pc, [], s)
          (ir_exec (opes st') (instr_buffer st')) (instr_buffer st') (pc', [], s))))"
proof -
  let ?L = "label_opes st" and ?buf = "instr_buffer st"
  have wf: "prog_wf ?L ?buf" using assms by (simp add: ir_wf_def)
  from preprocess_ir_ok [OF assms] obtain st' st'' where
    pre: "preprocess_ir st = Some st'" and ok: "pass_ok ?L st st''"
    and buf: "instr_buffer st' = filter not_nop (instr_buffer st'')" and h: "opes st' = opes st''" .
  let ?buf'' = "instr_buffer st''"
  have rw: "ir_rewrite\<^sup>*\<^sup>* ?buf ?buf''" and wf'': "prog_wf ?L ?buf''"
    using ok by (simp_all add: pass_ok_def counted_def)
  have heap: "\<And>p. p \<notin> ?L \<Longrightarrow> opes st' p = opes st p" using ok h by (simp add: pass_ok_def same_data_def)
  have free: "label_free ?L (instr_buffer st')"
    unfolding buf by (rule label_free_filter [OF prog_wf_label_free [OF wf'']])
  have exec: "ir_exec (opes st') (instr_buffer st') = ir_exec (opes st) (instr_buffer st')"
    by (rule ext) (rule ir_exec_heap [OF heap free])
  show ?thesis
  proof (intro exI conjI allI impI, rule pre)
    fix f pc
    assume f: "func_pos (ope_names (opes st)) ?buf f = Some pc"
    have f'': "func_pos (ope_names (opes st)) ?buf'' f = Some pc"
      using f ir_rewrites_func [OF rw wf] by simp
    show "func_pos (ope_names (opes st')) (instr_buffer st') f = Some (new_pos ?buf'' pc)"
      by (rule trans [OF func_pos_heap [OF heap free]]) (simp_all add: buf func_pos_filter f'')
    fix s
    have "same_behaviour (ir_exec (opes st) ?buf) ?buf (pc, [], s) (ir_exec (opes st) ?buf'') ?buf'' (pc, [], s)"
      by (rule ints.ir_rewrites_behaviour [OF rw wf f])
    moreover have "same_behaviour (ir_exec (opes st) ?buf'') ?buf'' (pc, [], s)
        (ir_exec (opes st) (instr_buffer st')) (instr_buffer st') (new_pos ?buf'' pc, [], s)"
      unfolding buf using func_pos_type [OF f''] by (intro filter_behaviour) (simp_all add: not_nop_def)
    ultimately show "same_behaviour (ir_exec (opes st) ?buf) ?buf (pc, [], s)
        (ir_exec (opes st') (instr_buffer st')) (instr_buffer st') (new_pos ?buf'' pc, [], s)"
      unfolding exec by (rule same_behaviour_trans)
  qed
qed

text \<open>
  C3: on every well-formed buffer \<open>preprocess_ir\<close> returns, and it preserves the meaning of the
  program: started at any function with any data, the rewritten program goes through the same data
  states, and ends (by returning or by getting stuck) exactly as the original one does.
\<close>

theorem preprocess_ir_preserves:
  assumes "ir_wf st"
  shows "\<exists>st'. preprocess_ir st = Some st' \<and>
    (\<forall>f pc. func_pos (ope_names (opes st)) (instr_buffer st) f = Some pc \<longrightarrow>
      (\<exists>pc'. func_pos (ope_names (opes st')) (instr_buffer st') f = Some pc' \<and>
        (\<forall>s. same_behaviour (ir_exec (opes st) (instr_buffer st)) (instr_buffer st) (pc, [], s)
          (ir_exec (opes st') (instr_buffer st')) (instr_buffer st') (pc', [], s))))"
  using assms by (rule preprocess_ir_behaviour)


lemma preprocess_ir_preserves_witness:
  "\<exists>st' pc'. preprocess_ir demo_ir = Some st' \<and>
     (\<forall>s. same_behaviour (ir_exec demo_opes demo_buffer) demo_buffer (0, [], s)
        (ir_exec (opes st') (instr_buffer st')) (instr_buffer st') (pc', [], s))"
proof -
  have "func_pos (ope_names demo_opes) demo_buffer ''main'' = Some 0"
    by (simp add: func_pos_def is_func_def demo_buffer_def mk_instr_def ope_names_def demo_opes_def)
  with preprocess_ir_preserves [OF demo_wf, unfolded demo_simps] show ?thesis by blast
qed

text \<open>
  C9: after \<open>preprocess_ir\<close> the buffer holds no \<open>NOP\<close>, is not longer than before, every label is
  defined once, every jump has its label, and the reference count of every remaining label is the
  number of jumps to it.
\<close>

theorem preprocess_ir_labels:
  assumes "ir_wf st" and "preprocess_ir st = Some st'"
  shows "nr_instr st' \<le> nr_instr st \<and> (\<forall>ir\<in>set (instr_buffer st'). ir_type ir \<noteq> IR_NOP) \<and>
    prog_wf (label_opes st) (instr_buffer st') \<and>
    (\<forall>i l. label_at (instr_buffer st') i l \<longrightarrow>
       (\<exists>ope. opes st' l = Some ope \<and> ope_label_ref_cnt ope = int (refs (instr_buffer st') l)))"
proof -
  from preprocess_ir_ok [OF assms(1)] assms(2) obtain st'' where
    ok: "pass_ok (label_opes st) st st''"
    and buf: "instr_buffer st' = filter not_nop (instr_buffer st'')" and h: "opes st' = opes st''"
    by auto
  have "nr_instr st' \<le> nr_instr st"
    using ok length_filter_le [of not_nop "instr_buffer st''"] by (simp add: buf pass_ok_def)
  moreover have "prog_wf (label_opes st) (instr_buffer st')"
    using ok by (simp add: buf pass_ok_def counted_def prog_wf_filter)
  moreover have "\<exists>ope. opes st' l = Some ope \<and> ope_label_ref_cnt ope = int (refs (instr_buffer st') l)"
    if "label_at (instr_buffer st') i l" for i l
    using ok label_at_filter [OF that [unfolded buf]] h
    by (auto simp: pass_ok_def counted_def buf refs_filter)
  ultimately show ?thesis by (auto simp: buf not_nop_def)
qed

lemma preprocess_ir_labels_witness:
  "\<exists>st'. preprocess_ir demo_ir = Some st' \<and> nr_instr st' \<le> 6 \<and> prog_wf {2, 3} (instr_buffer st')"
proof -
  from preprocess_ir_ok [OF demo_wf] obtain st' where st': "preprocess_ir demo_ir = Some st'" by auto
  from preprocess_ir_labels [OF demo_wf st'] st' show ?thesis
    by (auto simp: demo_label_opes demo_simps)
qed

end
