(* ===== verification/Cfg.thy ===== *)
theory Cfg
  imports BasicBlock Preprocess
begin

text \<open>
  The control-flow graph of \<open>construct_cfg\<close> against the execution of the intermediate code: control
  that leaves a block without calling or returning arrives at a successor of the block.
\<close>

lemma cmp_label:
  assumes "p \<in> label_opes st" and "q \<in> label_opes st"
  shows "cmp_operand st p q = Some (p = q)"
  using assms by (auto simp: cmp_operand_def label_opes_def is_const_def)

lemma find_label_loop_eq:
  assumes "\<And>ir. ir \<in> set irs \<Longrightarrow> ir_type ir = IR_LABEL \<Longrightarrow> \<exists>p\<in>label_opes st. ir_rs ir = Some p"
    and "l \<in> label_opes st"
  shows "find_label_loop st l irs i =
    Some (case index_of (is_label l) irs of None \<Rightarrow> i + length irs | Some j \<Rightarrow> i + j)"
  using assms(1)
proof (induction irs arbitrary: i)
  case (Cons ir irs)
  show ?case
  proof (cases "ir_type ir = IR_LABEL")
    case True
    with Cons.prems [of ir] obtain p where "p \<in> label_opes st" "ir_rs ir = Some p" by auto
    with True assms(2) Cons show ?thesis
      by (auto simp: cmp_label is_label_def split: option.splits)
  next
    case False
    with Cons show ?thesis by (auto simp: is_label_def split: option.splits)
  qed
qed simp

lemma find_label_pos:
  assumes wf: "prog_wf (label_opes st) instr" and t: "label_at instr t l"
  shows "find_label st (Some l) instr = Some t"
proof -
  have "\<exists>p\<in>label_opes st. ir_rs ir = Some p" if "ir \<in> set instr" "ir_type ir = IR_LABEL" for ir
    using wf that by (auto simp: prog_wf_def in_set_conv_nth)
  from find_label_loop_eq [OF this prog_wf_label [OF wf t], of instr 0] label_pos_at [OF wf t]
  show ?thesis by (simp add: find_label_def label_pos_def)
qed

lemma construct_cfg_from_nth:
  assumes "construct_cfg_from st instr k idx block = Some block'"
  shows "length block' = length block \<and>
    (\<forall>j. if idx \<le> j \<and> j < idx + k then cfg_at st instr j (block ! j) = Some (block' ! j) else block' ! j = block ! j)"
  using assms
proof (induction k arbitrary: idx block)
  case (Suc k)
  then obtain b where b: "idx < length block" "cfg_at st instr idx (block ! idx) = Some b"
    "construct_cfg_from st instr k (Suc idx) (block[idx := b]) = Some block'"
    by (auto simp: bind_Some_iff)
  note IH = Suc.IH [OF b(3)]
  show ?case
  proof (intro conjI allI)
    show "length block' = length block" using IH by simp
    fix j
    from IH have "if Suc idx \<le> j \<and> j < Suc idx + k then cfg_at st instr j (block[idx := b] ! j) = Some (block' ! j)
      else block' ! j = block[idx := b] ! j" by blast
    with b show "if idx \<le> j \<and> j < idx + Suc k then cfg_at st instr j (block ! j) = Some (block' ! j)
      else block' ! j = block ! j"
      by (cases "j = idx") (auto split: if_splits)
  qed
qed auto

lemma cfg_at_span:
  "cfg_at st instr idx b = Some b' \<Longrightarrow> blk_start b' = blk_start b \<and> blk_end b' = blk_end b"
  by (auto simp: cfg_at_def Let_def bind_Some_iff split: if_splits)

text \<open>The successors of a block that ends with a plain instruction, a branch or a jump.\<close>

lemma cfg_at_plain:
  assumes "cfg_at st instr idx b = Some b'" and "\<not> has_return instr b" and "\<not> can_jump (instr ! (blk_end b - 1))"
  shows "blk_follow b' = int idx + 1 \<and> blk_branch b' = int idx + 1"
  using assms
  by (auto simp: cfg_at_def Let_def bind_Some_iff find_label_def can_jump_iff split: if_splits)

lemma cfg_at_jump:
  assumes "cfg_at st instr idx b = Some b'" and "\<not> has_return instr b"
    and "can_jump (instr ! (blk_end b - 1))" and "jump_target (instr ! (blk_end b - 1)) = Some l"
    and "find_label st (Some l) instr = Some t" and "t < length instr"
  shows "blk_branch b' = ir_block (instr ! t) \<and>
    blk_follow b' = (if is_branch (instr ! (blk_end b - 1)) then int idx + 1 else ir_block (instr ! t))"
  using assms is_branch_types [of "instr ! (blk_end b - 1)"]
  by (auto simp: cfg_at_def Let_def bind_Some_iff can_jump_iff jump_target_def split: if_splits)

text \<open>The new block numbers do not matter to well-formedness.\<close>

lemma set_block_wf:
  assumes "prog_wf L instr"
  shows "prog_wf L (map (set_block instr n) [0..<length instr])" (is "prog_wf L ?p")
proof -
  have eq: "ir_type (?p ! k) = ir_type (instr ! k)" "ir_rs (?p ! k) = ir_rs (instr ! k)"
      "ir_rd (?p ! k) = ir_rd (instr ! k)" "ir_rt (?p ! k) = ir_rt (instr ! k)" if "k < length instr" for k
    using that by (simp_all add: set_block_def)
  have br: "is_branch (?p ! k) = is_branch (instr ! k)" if "k < length instr" for k
    using eq [OF that] by (simp add: is_branch_def)
  have lab: "label_at ?p k l = label_at instr k l" for k l
    using eq [of k] by (auto simp: label_at_def is_label_def)
  have tgt: "jump_target (?p ! k) = jump_target (instr ! k)" "can_jump (?p ! k) = can_jump (instr ! k)"
      "data_operands (?p ! k) = data_operands (instr ! k)" if "k < length instr" for k
    using eq [OF that] br [OF that] by (simp_all add: jump_target_def can_jump_iff data_operands_def)
  show ?thesis
  proof (rule prog_wfI)
    fix k assume k: "k < length ?p"
    show "\<exists>l\<in>L. ir_rs (?p ! k) = Some l" if "ir_type (?p ! k) = IR_LABEL"
      using that k assms eq [of k] by (auto simp: prog_wf_def)
    show "\<exists>l j. jump_target (?p ! k) = Some l \<and> label_at ?p j l" if "can_jump (?p ! k)"
      using that k prog_wf_jump [OF assms, of k] tgt [of k] lab by auto
    show "Some p \<notin> set (data_operands (?p ! k))" if "p \<in> L" for p
      using that k prog_wf_data [OF assms, of k p] tgt [of k] by auto
  next
    fix i j l assume "label_at ?p i l" "label_at ?p j l"
    then show "i = j" using prog_wf_unique [OF assms, of i l j] lab by simp
  qed
qed

lemma block_partition_SomeD:
  assumes "0 < length instr" and "length instr \<le> length block0"
    and "block_partition block0 instr (length instr) = Some (count, block, instr')"
  shows "count = length (leaders instr (length instr))"
    and "instr' = map (set_block instr (length instr)) [0..<length instr]"
    and "\<And>j. j < count \<Longrightarrow> blk_start (block ! j) = leaders instr (length instr) ! j"
    and "\<And>j. j < count \<Longrightarrow> blk_end (block ! j) = block_stop instr (length instr) j"
  using block_partition_closed [OF assms(1) refl assms(2)] assms(3) by fastforce+

lemma label_leader:
  assumes "label_at (map (set_block instr (length instr)) [0..<length instr]) t l"
  shows "\<exists>m < length (leaders instr (length instr)). leaders instr (length instr) ! m = t \<and>
    ir_block (map (set_block instr (length instr)) [0..<length instr] ! t) = int m"
proof -
  let ?n = "length instr"
  from assms have t: "t < ?n" "ir_type (instr ! t) = IR_LABEL"
    by (auto simp: label_at_def is_label_def set_block_def)
  then have "is_leader instr t" by (simp add: is_leader_def)
  with leader_between [of t ?n instr] t obtain m where m: "m < length (leaders instr ?n)" "leaders instr ?n ! m = t"
    by blast
  with set_block_inner [OF m(1), of t] block_stop_bounds [OF m(1)] t show ?thesis by auto
qed

text \<open>A step of an instruction that is no jump, call or return goes to the next one.\<close>

lemma ir_step_next:
  assumes "ir_step holds eff name prog (pc, rets, s) = Some (pc', rets', s')"
    and "\<not> can_jump (prog ! pc)" and "ir_type (prog ! pc) \<noteq> IR_CALL" and "ir_type (prog ! pc) \<noteq> IR_RET"
  shows "pc' = Suc pc"
  using assms by (auto simp: ir_step_def Let_def can_jump_iff bind_Some_iff split: if_splits)

lemma ir_step_jumps:
  assumes "ir_step holds eff name prog (pc, rets, s) = Some (pc', rets', s')"
    and "can_jump (prog ! pc)" and "jump_target (prog ! pc) = Some l" and "label_pos prog l = Some t"
  shows "pc' = t \<or> is_branch (prog ! pc) \<and> pc' = Suc pc"
proof -
  have pc: "pc < length prog" using assms(1) by (auto simp: ir_step_def split: if_splits)
  show ?thesis
  proof (cases "is_branch (prog ! pc)")
    case True
    with assms pc show ?thesis
      by (auto simp: ir_step_branch jump_target_def goto_def bind_Some_iff split: if_splits)
  next
    case False
    with assms pc show ?thesis
      by (auto simp: can_jump_iff ir_step_jump jump_target_def goto_def bind_Some_iff)
  qed
qed

section \<open>Properties\<close>


definition demo_jump :: "IR list" where
  "demo_jump = [mk_instr IR_JMP (Some 0) None None, mk_instr IR_LABEL (Some 0) None None]"

definition demo_jump_opes :: ope_state where
  "demo_jump_opes = ope_start\<lparr>opes := [0 \<mapsto> memset_operand\<lparr>ope_type := OPE_LABEL\<rparr>]\<rparr>"

lemma demo_jump_wf: "prog_wf (label_opes demo_jump_opes) demo_jump"
proof -
  have L: "label_opes demo_jump_opes = {0}"
    by (auto simp: label_opes_def demo_jump_opes_def memset_operand_def)
  have at: "label_at demo_jump i l \<longleftrightarrow> i = 1 \<and> l = 0" for i l
    by (auto simp: label_at_def is_label_def demo_jump_def mk_instr_def less_Suc_eq)
  have i: "i = 0 \<or> i = 1" if "i < length demo_jump" for i using that by (auto simp: demo_jump_def)
  show ?thesis
    unfolding L
  proof (rule prog_wfI)
    fix k
    assume "k < length demo_jump"
    from i [OF this] have k: "demo_jump ! k = mk_instr IR_JMP (Some 0) None None \<or>
        demo_jump ! k = mk_instr IR_LABEL (Some 0) None None"
      by (auto simp: demo_jump_def)
    show "\<exists>l\<in>{0}. ir_rs (demo_jump ! k) = Some l" using k by (auto simp: mk_instr_def)
    show "\<exists>l j. jump_target (demo_jump ! k) = Some l \<and> label_at demo_jump j l" if "can_jump (demo_jump ! k)"
      using k that unfolding at by (auto simp: mk_instr_def jump_target_def can_jump_iff is_branch_iff)
    show "Some p \<notin> set (data_operands (demo_jump ! k))" for p
      using k by (auto simp: mk_instr_def data_operands_def)
  qed (simp add: at)
qed

lemma demo_jump_run:
  "block_partition (replicate 2 zero_block) demo_jump (length demo_jump) =
     Some (2, [zero_block\<lparr>blk_end := 1\<rparr>, zero_block\<lparr>blk_start := 1, blk_index := 1, blk_end := 2\<rparr>],
       [mk_instr IR_JMP (Some 0) None None, (mk_instr IR_LABEL (Some 0) None None)\<lparr>ir_block := 1\<rparr>])"
  "construct_cfg demo_jump_opes [zero_block\<lparr>blk_end := 1\<rparr>, zero_block\<lparr>blk_start := 1, blk_index := 1, blk_end := 2\<rparr>] 2
     [mk_instr IR_JMP (Some 0) None None, (mk_instr IR_LABEL (Some 0) None None)\<lparr>ir_block := 1\<rparr>] =
     Some [zero_block\<lparr>blk_end := 1, blk_follow := 1, blk_branch := 1\<rparr>,
       zero_block\<lparr>blk_start := 1, blk_index := 1, blk_end := 2, blk_follow := 2, blk_branch := 2\<rparr>]"
  by (simp_all add: block_partition_def demo_jump_def partition_at_def is_leader_def update_block_def
      array_get_def array_set_def zero_block_def mk_instr_def can_jump_iff is_branch_iff upt_conv_Cons
      numeral_2_eq_2 construct_cfg_def cfg_at_def has_return_def find_label_def cmp_operand_def)


end
