(* ===== verification/Register.thy ===== *)
theory Register
  imports BasicBlock
begin

text \<open>
  Register allocation: \<open>register.c\<close>. The assembly text goes to a list of structured lines
  (\<open>asm.h\<close>), which \<open>render_asm\<close> prints the way \<open>emit_asm\<close> does. The array \<open>ope_in_reg\<close> has
  one cell per register; \<open>past_end\<close> stands for the word after it, which \<open>remove_value\<close> reads.
\<close>

section \<open>Registers\<close>

abbreviation V0 :: nat where "V0 \<equiv> 2"
abbreviation A0 :: nat where "A0 \<equiv> 4"
abbreviation T0 :: nat where "T0 \<equiv> 8"
abbreviation T7 :: nat where "T7 \<equiv> 15"
abbreviation S0 :: nat where "S0 \<equiv> 16"
abbreviation S7 :: nat where "S7 \<equiv> 23"
abbreviation SP :: nat where "SP \<equiv> 29"
abbreviation RA :: nat where "RA \<equiv> 31"

definition reg_s :: "string list" where
  "reg_s =
     [''$zero'', ''$at'', ''$v0'', ''$v1'', ''$a0'', ''$a1'', ''$a2'', ''$a3'',
      ''$t0'', ''$t1'', ''$t2'', ''$t3'', ''$t4'', ''$t5'', ''$t6'', ''$t7'',
      ''$s0'', ''$s1'', ''$s2'', ''$s3'', ''$s4'', ''$s5'', ''$s6'', ''$s7'',
      ''$t8'', ''$t9'', ''$k0'', ''$k1'', ''$gp'', ''$sp'', ''$s8'', ''$ra'']"

definition NR_REG :: nat where
  "NR_REG = length reg_s"

definition reg_to_s :: "nat \<Rightarrow> string option" where
  "reg_to_s index = array_get reg_s index"

section \<open>Assembly lines\<close>

text \<open>
  A line: a label, a comment line, or an instruction with its operands and the comment that
  follows it. Registers are numbers.
\<close>

datatype asm_line =
    Label string
  | Comment string
  | Raw string
  | Sw nat cint nat string
  | Lw nat cint nat string
  | Li nat cint
  | Move nat nat string
  | Addi nat nat cint string
  | Addi_neg nat nat cint string
  | Addiu nat nat cint string
  | Arith IR_Type nat nat nat
  | Div nat nat
  | Mflo nat
  | Jump string
  | Jal string
  | Jr nat
  | Branch IR_Type nat nat string

definition reg_name :: "nat \<Rightarrow> string" where
  "reg_name r = (if r < length reg_s then reg_s ! r else [])"

text \<open>\<open>%-*s\<close> with width 7.\<close>

definition pad7 :: "string \<Rightarrow> string" where
  "pad7 s = s @ replicate (7 - length s) CHR '' ''"

definition emit_text :: "string \<Rightarrow> string \<Rightarrow> string" where
  "emit_text instr args = ''  '' @ pad7 instr @ args @ [CHR 0x0A]"

definition sep :: string where
  "sep = '', ''"

fun arith_name :: "IR_Type \<Rightarrow> string" where
  "arith_name IR_ADD = ''add''"
| "arith_name IR_SUB = ''sub''"
| "arith_name IR_MUL = ''mul''"
| "arith_name _ = []"

fun branch_name :: "IR_Type \<Rightarrow> string" where
  "branch_name IR_BEQ = ''beq''"
| "branch_name IR_BNE = ''bne''"
| "branch_name IR_BGT = ''bgt''"
| "branch_name IR_BLT = ''blt''"
| "branch_name IR_BGE = ''bge''"
| "branch_name IR_BLE = ''ble''"
| "branch_name _ = []"

fun render_asm :: "asm_line \<Rightarrow> string" where
  "render_asm (Label l) = l @ '':'' @ [CHR 0x0A]"
| "render_asm (Comment c) = c @ [CHR 0x0A]"
| "render_asm (Raw t) = t"
| "render_asm (Sw r off b c) = emit_text ''sw'' (reg_name r @ sep @ dec_cint off @ ''('' @ reg_name b @ '')'' @ c)"
| "render_asm (Lw r off b c) = emit_text ''lw'' (reg_name r @ sep @ dec_cint off @ ''('' @ reg_name b @ '')'' @ c)"
| "render_asm (Li r i) = emit_text ''li'' (reg_name r @ sep @ dec_cint i)"
| "render_asm (Move d s c) = emit_text ''move'' (reg_name d @ sep @ reg_name s @ c)"
| "render_asm (Addi d s i c) = emit_text ''addi'' (reg_name d @ sep @ reg_name s @ sep @ dec_cint i @ c)"
| "render_asm (Addi_neg d s i c) = emit_text ''addi'' (reg_name d @ sep @ reg_name s @ sep @ ''-'' @ dec_cint i @ c)"
| "render_asm (Addiu d s i c) = emit_text ''addiu'' (reg_name d @ sep @ reg_name s @ sep @ dec_cint i @ c)"
| "render_asm (Arith op d a b) = emit_text (arith_name op) (reg_name d @ sep @ reg_name a @ sep @ reg_name b)"
| "render_asm (Div a b) = emit_text ''div'' (reg_name a @ sep @ reg_name b)"
| "render_asm (Mflo d) = emit_text ''mflo'' (reg_name d)"
| "render_asm (Jump l) = emit_text ''j'' l"
| "render_asm (Jal l) = emit_text ''jal'' l"
| "render_asm (Jr r) = emit_text ''jr'' (reg_name r)"
| "render_asm (Branch op a b l) = emit_text (branch_name op) (reg_name a @ sep @ reg_name b @ sep @ l)"

section \<open>The state and the allocator\<close>

record reg_state = ir_state +
  ope_in_reg :: "nat option list"
  past_end :: "nat option"
  dirty :: "bool list"
  sp_offset :: cint
  asm_file :: "asm_line list"

definition emit :: "asm_line \<Rightarrow> 'a reg_state_scheme \<Rightarrow> 'a reg_state_scheme" where
  "emit l st = st\<lparr>asm_file := asm_file st @ [l]\<rparr>"

definition set_dirty :: "nat \<Rightarrow> 'a reg_state_scheme \<Rightarrow> 'a reg_state_scheme option" where
  "set_dirty index st = do { d \<leftarrow> array_set (dirty st) index True; Some (st\<lparr>dirty := d\<rparr>) }"

text \<open>The scan of \<open>get_reg\<close>: an empty register (left) or the victim (right).\<close>

fun get_reg_scan :: "'a reg_state_scheme \<Rightarrow> nat list \<Rightarrow> nat \<Rightarrow> int \<Rightarrow> (nat + nat) option" where
  "get_reg_scan st [] victim victim_next_use = Some (Inr victim)"
| "get_reg_scan st (i # is) victim victim_next_use =
     do {
       ptr \<leftarrow> array_get (ope_in_reg st) i;
       case ptr of
         None \<Rightarrow> Some (Inl i)
       | Some p \<Rightarrow>
           do {
             ope \<leftarrow> opes st p;
             if victim_next_use < ope_next_use ope
             then get_reg_scan st is i (ope_next_use ope)
             else get_reg_scan st is victim victim_next_use
           }
     }"

definition slot_offset :: "'a reg_state_scheme \<Rightarrow> Operand_ \<Rightarrow> cint option" where
  "slot_offset st ope = csub (sp_offset st) (ope_address ope)"

definition get_reg :: "nat \<Rightarrow> nat \<Rightarrow> 'a reg_state_scheme \<Rightarrow> (nat \<times> 'a reg_state_scheme) option" where
  "get_reg start stop st =
     do {
       r \<leftarrow> get_reg_scan st [start..<Suc stop] MAX_LINE (- 1);
       case r of
         Inl i \<Rightarrow> Some (i, st)
       | Inr victim \<Rightarrow>
           do {
             ptr \<leftarrow> array_get (ope_in_reg st) victim;
             p \<leftarrow> ptr;
             vic \<leftarrow> opes st p;
             st \<leftarrow> (if ope_next_use vic \<noteq> int MAX_LINE \<or> ope_liveness vic then
                     do {
                       off \<leftarrow> slot_offset st vic;
                       Some (emit (Sw victim off SP ''  # Back up victim'') st)
                     }
                   else Some st);
             Some (victim, st\<lparr>ope_in_reg := (ope_in_reg st)[victim := None]\<rparr>)
           }
     }"

definition remove_value :: "nat \<Rightarrow> 'a reg_state_scheme \<Rightarrow> 'a reg_state_scheme" where
  "remove_value ope st =
     (let clear = (\<lambda>ptr. if ptr = Some ope then None else ptr)
      in st\<lparr>ope_in_reg := map clear (ope_in_reg st), past_end := clear (past_end st)\<rparr>)"

fun reg_group :: "Ope_Type \<Rightarrow> (nat \<times> nat) option" where
  "reg_group OPE_VAR = Some (S0, S7)"
| "reg_group OPE_BOOL = Some (S0, S7)"
| "reg_group OPE_TEMP = Some (T0, T7)"
| "reg_group OPE_ADDR = Some (T0, T7)"
| "reg_group OPE_INTEGER = Some (T0, T7)"
| "reg_group _ = None"

text \<open>An operand of another kind leaves \<open>reg\<close> without a value.\<close>

definition allocate :: "nat \<Rightarrow> 'a reg_state_scheme \<Rightarrow> (nat \<times> 'a reg_state_scheme) option" where
  "allocate ope st =
     do {
       let st = remove_value ope st;
       a \<leftarrow> opes st ope;
       (start, stop) \<leftarrow> reg_group (ope_type a);
       (reg, st) \<leftarrow> get_reg start stop st;
       cells \<leftarrow> array_set (ope_in_reg st) reg (Some ope);
       Some (reg, st\<lparr>ope_in_reg := cells\<rparr>)
     }"

text \<open>The search of \<open>ensure\<close> from register \<open>i\<close> on.\<close>

fun find_reg :: "'a reg_state_scheme \<Rightarrow> nat \<Rightarrow> nat option list \<Rightarrow> nat \<Rightarrow> nat option option" where
  "find_reg st ope [] i = Some None"
| "find_reg st ope (ptr # ptrs) i =
     (case ptr of
       None \<Rightarrow> find_reg st ope ptrs (Suc i)
     | Some p \<Rightarrow>
         do {
           eq \<leftarrow> cmp_operand st ope p;
           if eq then Some (Some i) else find_reg st ope ptrs (Suc i)
         })"

definition ensure :: "nat \<Rightarrow> 'a reg_state_scheme \<Rightarrow> (nat \<times> 'a reg_state_scheme) option" where
  "ensure ope st =
     do {
       found \<leftarrow> find_reg st ope (ope_in_reg st) 0;
       case found of
         Some i \<Rightarrow> Some (i, st)
       | None \<Rightarrow>
           do {
             (result, st) \<leftarrow> allocate ope st;
             a \<leftarrow> opes st ope;
             if is_const a then Some (result, emit (Li result (ope_integer a)) st)
             else do {
               off \<leftarrow> slot_offset st a;
               Some (result, emit (Lw result off SP
                 (''  # sp_offset '' @ dec_cint (sp_offset st) @ '' addr '' @ dec_cint (ope_address a))) st)
             }
           }
     }"

text \<open>One round of \<open>push_all\<close>.\<close>

definition push_reg :: "nat \<Rightarrow> 'a reg_state_scheme \<Rightarrow> 'a reg_state_scheme option" where
  "push_reg i st =
     do {
       ptr \<leftarrow> array_get (ope_in_reg st) i;
       case ptr of
         None \<Rightarrow> Some st
       | Some p \<Rightarrow>
           do {
             d \<leftarrow> array_get (dirty st) i;
             if d then
               do {
                 ope \<leftarrow> opes st p;
                 if ope_next_use ope \<noteq> int MAX_LINE \<or> ope_liveness ope then
                   do {
                     off \<leftarrow> slot_offset st ope;
                     name \<leftarrow> print_operand st (Some p);
                     Some (emit (Sw i off SP (''  # push '' @ name)) st)
                   }
                 else Some st
               }
             else Some st
           }
     }"

fun push_regs :: "nat list \<Rightarrow> 'a reg_state_scheme \<Rightarrow> 'a reg_state_scheme option" where
  "push_regs [] st = Some st"
| "push_regs (i # is) st = do { st \<leftarrow> push_reg i st; push_regs is st }"

definition push_all :: "'a reg_state_scheme \<Rightarrow> 'a reg_state_scheme option" where
  "push_all st = push_regs [0..<NR_REG] st"

definition clear_reg_state :: "'a reg_state_scheme \<Rightarrow> 'a reg_state_scheme" where
  "clear_reg_state st = st\<lparr>ope_in_reg := replicate NR_REG None, dirty := replicate NR_REG False\<rparr>"

end
