(* ===== verification/Asm.thy ===== *)
theory Asm
  imports Register
begin

text \<open>
  Generation of the assembly: \<open>asm.c\<close> and the driver \<open>print_instr\<close> of \<open>ir.c\<close>. A handler
  gets the position of its instruction, because \<open>gen_asm_call\<close> walks back to the \<open>ARG\<close>s.
\<close>

record asm_state = reg_state +
  curr_func :: "nat option"
  nr_arg :: cint

section \<open>The handlers\<close>

definition gen_asm_label :: "IR \<Rightarrow> 'a asm_state_scheme \<Rightarrow> 'a asm_state_scheme option" where
  "gen_asm_label ir st = do { s \<leftarrow> print_operand st (ir_rs ir); Some (emit (Label s) st) }"

definition gen_asm_func :: "IR \<Rightarrow> 'a asm_state_scheme \<Rightarrow> 'a asm_state_scheme option" where
  "gen_asm_func ir st =
     do {
       s \<leftarrow> print_operand st (ir_rs ir);
       let st = emit (Label s) st;
       f \<leftarrow> ir_rs ir;
       a \<leftarrow> opes st f;
       let st = st\<lparr>curr_func := Some f, sp_offset := ope_size a\<rparr>;
       let ra = (if ope_has_subroutine a then 4 else 0);
       neg \<leftarrow> cneg (ope_size a);
       imm \<leftarrow> csub neg ra;
       let st = emit (Addi SP SP imm ''  # only for variables, not records'') st;
       Some (if ope_has_subroutine a
             then emit (Sw RA (sp_offset st) SP ''  # Save return address'') st else st)
     }"

definition gen_asm_assign :: "IR \<Rightarrow> 'a asm_state_scheme \<Rightarrow> 'a asm_state_scheme option" where
  "gen_asm_assign ir st =
     do {
       rs \<leftarrow> ir_rs ir;
       (src, st) \<leftarrow> ensure rs st;
       rd \<leftarrow> ir_rd ir;
       (dst, st) \<leftarrow> allocate rd st;
       st \<leftarrow> set_dirty dst st;
       Some (emit (Move dst src []) st)
     }"

definition gen_asm_addi :: "nat \<Rightarrow> nat \<Rightarrow> cint \<Rightarrow> 'a asm_state_scheme \<Rightarrow> 'a asm_state_scheme option" where
  "gen_asm_addi dst src imm st =
     do {
       (first, st) \<leftarrow> ensure src st;
       (dest, st) \<leftarrow> allocate dst st;
       st \<leftarrow> set_dirty dest st;
       Some (emit (Addi dest first imm []) st)
     }"

text \<open>The three-register form \<open>add\<close>, \<open>sub\<close> and \<open>mul\<close> share.\<close>

definition gen_asm_op3 :: "IR_Type \<Rightarrow> IR \<Rightarrow> 'a asm_state_scheme \<Rightarrow> 'a asm_state_scheme option" where
  "gen_asm_op3 op ir st =
     do {
       rs \<leftarrow> ir_rs ir;
       (first, st) \<leftarrow> ensure rs st;
       rt \<leftarrow> ir_rt ir;
       (second, st) \<leftarrow> ensure rt st;
       rd \<leftarrow> ir_rd ir;
       (dst, st) \<leftarrow> allocate rd st;
       st \<leftarrow> set_dirty dst st;
       Some (emit (Arith op dst first second) st)
     }"

definition gen_asm_add :: "IR \<Rightarrow> 'a asm_state_scheme \<Rightarrow> 'a asm_state_scheme option" where
  "gen_asm_add ir st =
     do {
       rt \<leftarrow> ir_rt ir;
       t \<leftarrow> opes st rt;
       if ope_type t = OPE_INTEGER then
         do { rd \<leftarrow> ir_rd ir; rs \<leftarrow> ir_rs ir; gen_asm_addi rd rs (ope_integer t) st }
       else
         do {
           rs \<leftarrow> ir_rs ir;
           s \<leftarrow> opes st rs;
           if ope_type s = OPE_INTEGER
           then do { rd \<leftarrow> ir_rd ir; gen_asm_addi rd rt (ope_integer s) st }
           else gen_asm_op3 IR_ADD ir st
         }
     }"

definition gen_asm_sub :: "IR \<Rightarrow> 'a asm_state_scheme \<Rightarrow> 'a asm_state_scheme option" where
  "gen_asm_sub ir st =
     do {
       rt \<leftarrow> ir_rt ir;
       t \<leftarrow> opes st rt;
       if ope_type t = OPE_INTEGER then
         do { rd \<leftarrow> ir_rd ir; rs \<leftarrow> ir_rs ir; imm \<leftarrow> cneg (ope_integer t); gen_asm_addi rd rs imm st }
       else gen_asm_op3 IR_SUB ir st
     }"

definition gen_asm_mul :: "IR \<Rightarrow> 'a asm_state_scheme \<Rightarrow> 'a asm_state_scheme option" where
  "gen_asm_mul ir st = gen_asm_op3 IR_MUL ir st"

definition gen_asm_div :: "IR \<Rightarrow> 'a asm_state_scheme \<Rightarrow> 'a asm_state_scheme option" where
  "gen_asm_div ir st =
     do {
       rs \<leftarrow> ir_rs ir;
       (y, st) \<leftarrow> ensure rs st;
       rt \<leftarrow> ir_rt ir;
       (z, st) \<leftarrow> ensure rt st;
       rd \<leftarrow> ir_rd ir;
       (x, st) \<leftarrow> allocate rd st;
       st \<leftarrow> set_dirty x st;
       Some (emit (Mflo x) (emit (Div y z) st))
     }"

definition gen_asm_load :: "IR \<Rightarrow> 'a asm_state_scheme \<Rightarrow> 'a asm_state_scheme option" where
  "gen_asm_load ir st =
     do {
       rs \<leftarrow> ir_rs ir;
       (y, st) \<leftarrow> ensure rs st;
       rd \<leftarrow> ir_rd ir;
       (x, st) \<leftarrow> allocate rd st;
       st \<leftarrow> set_dirty x st;
       Some (emit (Lw x 0 y []) st)
     }"

definition gen_asm_store :: "IR \<Rightarrow> 'a asm_state_scheme \<Rightarrow> 'a asm_state_scheme option" where
  "gen_asm_store ir st =
     do {
       rt \<leftarrow> ir_rt ir;
       (y, st) \<leftarrow> ensure rt st;
       rs \<leftarrow> ir_rs ir;
       (x, st) \<leftarrow> ensure rs st;
       Some (emit (Sw y 0 x []) st)
     }"

definition gen_asm_goto :: "IR \<Rightarrow> 'a asm_state_scheme \<Rightarrow> 'a asm_state_scheme option" where
  "gen_asm_goto ir st = do { s \<leftarrow> print_operand st (ir_rs ir); Some (emit (Jump s) st) }"

definition gen_asm_arg :: "'a asm_state_scheme \<Rightarrow> 'a asm_state_scheme option" where
  "gen_asm_arg st = do { n \<leftarrow> cadd (nr_arg st) 1; Some (st\<lparr>nr_arg := n\<rparr>) }"

text \<open>The nearest \<open>ARG\<close> before a position; there must be one.\<close>

fun prev_arg :: "IR list \<Rightarrow> nat \<Rightarrow> nat option" where
  "prev_arg buf 0 = None"
| "prev_arg buf (Suc i) = (if i < length buf then (if ir_type (buf ! i) = IR_ARG then Some i else prev_arg buf i) else None)"

primrec push_args :: "nat \<Rightarrow> nat \<Rightarrow> cint \<Rightarrow> 'a asm_state_scheme \<Rightarrow> 'a asm_state_scheme option" where
  "push_args 0 pos off st = Some st"
| "push_args (Suc k) pos off st =
     do {
       pos \<leftarrow> prev_arg (instr_buffer st) pos;
       p \<leftarrow> ir_rs (instr_buffer st ! pos);
       (y, st) \<leftarrow> ensure p st;
       push_args k pos (off + 4) (emit (Sw y off SP []) st)
     }"

definition gen_asm_call :: "nat \<Rightarrow> IR \<Rightarrow> 'a asm_state_scheme \<Rightarrow> 'a asm_state_scheme option" where
  "gen_asm_call pos ir st =
     do {
       offset \<leftarrow> cmul (nr_arg st) 4;
       let st = emit (Addi_neg SP SP offset ''  # Open space for save and arguments'') st;
       sp \<leftarrow> cadd (sp_offset st) offset;
       let st = st\<lparr>sp_offset := sp\<rparr>;
       st \<leftarrow> push_all st;
       st \<leftarrow> push_args (nat (sint (nr_arg st))) pos 0 st;
       f \<leftarrow> ir_rs ir;
       a \<leftarrow> opes st f;
       let st = clear_reg_state (emit (Jal (ope_name a)) st);
       rd \<leftarrow> ir_rd ir;
       (x, st) \<leftarrow> allocate rd st;
       st \<leftarrow> set_dirty x st;
       d \<leftarrow> opes st rd;
       let st = (if ope_next_use d \<noteq> int MAX_LINE \<or> ope_liveness d then emit (Move x V0 []) st else st);
       let st = emit (Addiu SP SP offset ''  # Drawback save and arguments space'') st;
       sp \<leftarrow> csub (sp_offset st) offset;
       Some (st\<lparr>sp_offset := sp, nr_arg := 0\<rparr>)
     }"

definition gen_asm_param :: "IR \<Rightarrow> 'a asm_state_scheme \<Rightarrow> 'a asm_state_scheme option" where
  "gen_asm_param ir st =
     do {
       f \<leftarrow> curr_func st;
       a \<leftarrow> opes st f;
       if ope_has_subroutine a then
         do {
           p \<leftarrow> ir_rs ir;
           b \<leftarrow> opes st p;
           addr \<leftarrow> csub (ope_address b) 4;
           update_ope p (ope_address_update (\<lambda>_. addr)) st
         }
       else Some st
     }"

definition gen_asm_return :: "IR \<Rightarrow> 'a asm_state_scheme \<Rightarrow> 'a asm_state_scheme option" where
  "gen_asm_return ir st =
     do {
       f \<leftarrow> curr_func st;
       a \<leftarrow> opes st f;
       let st = (if ope_has_subroutine a
                 then emit (Lw RA (sp_offset st) SP ''  # retrieve return address'') st else st);
       rs \<leftarrow> ir_rs ir;
       (x, st) \<leftarrow> ensure rs st;
       a \<leftarrow> opes st f;
       sz \<leftarrow> (if ope_has_subroutine a then cadd (ope_size a) 4 else Some (ope_size a));
       let st = emit (Addiu SP SP sz ''  # release stack space'') st;
       Some (emit (Jr RA) (emit (Move V0 x ''  # prepare return value'') st))
     }"

definition gen_asm_br :: "IR \<Rightarrow> 'a asm_state_scheme \<Rightarrow> 'a asm_state_scheme option" where
  "gen_asm_br ir st =
     do {
       rs \<leftarrow> ir_rs ir;
       (x, st) \<leftarrow> ensure rs st;
       rt \<leftarrow> ir_rt ir;
       (y, st) \<leftarrow> ensure rt st;
       _ \<leftarrow> c_assert (is_branch ir);
       l \<leftarrow> print_operand st (ir_rd ir);
       Some (emit (Branch (ir_type ir) x y l) st)
     }"

definition gen_asm_addr :: "IR \<Rightarrow> 'a asm_state_scheme \<Rightarrow> 'a asm_state_scheme option" where
  "gen_asm_addr ir st =
     do {
       rd \<leftarrow> ir_rd ir;
       (x, st) \<leftarrow> allocate rd st;
       st \<leftarrow> set_dirty x st;
       rs \<leftarrow> ir_rs ir;
       a \<leftarrow> opes st rs;
       off \<leftarrow> slot_offset st a;
       name \<leftarrow> print_operand st (Some rs);
       Some (emit (Addiu x SP off (''  # get '' @ name @ [CHR 0x27] @ ''s address'')) st)
     }"

definition gen_asm_write :: "IR \<Rightarrow> 'a asm_state_scheme \<Rightarrow> 'a asm_state_scheme option" where
  "gen_asm_write ir st =
     do {
       rs \<leftarrow> ir_rs ir;
       (x, st) \<leftarrow> ensure rs st;
       Some (emit (Jal ''write'') (emit (Move A0 x []) st))
     }"

definition gen_asm_read :: "IR \<Rightarrow> 'a asm_state_scheme \<Rightarrow> 'a asm_state_scheme option" where
  "gen_asm_read ir st =
     do {
       rd \<leftarrow> ir_rd ir;
       (x, st) \<leftarrow> allocate rd st;
       st \<leftarrow> set_dirty x st;
       Some (emit (Move x V0 []) (emit (Jal ''read'') st))
     }"

text \<open>The table of handlers; \<open>IR_NOP\<close> has none.\<close>

fun handler :: "IR_Type \<Rightarrow> nat \<Rightarrow> IR \<Rightarrow> 'a asm_state_scheme \<Rightarrow> 'a asm_state_scheme option" where
  "handler IR_NOP pos ir st = None"
| "handler IR_DEC pos ir st = Some st"
| "handler IR_FUNC pos ir st = gen_asm_func ir st"
| "handler IR_ASSIGN pos ir st = gen_asm_assign ir st"
| "handler IR_ADD pos ir st = gen_asm_add ir st"
| "handler IR_SUB pos ir st = gen_asm_sub ir st"
| "handler IR_MUL pos ir st = gen_asm_mul ir st"
| "handler IR_DIV pos ir st = gen_asm_div ir st"
| "handler IR_LABEL pos ir st = gen_asm_label ir st"
| "handler IR_DEREF_R pos ir st = gen_asm_load ir st"
| "handler IR_DEREF_L pos ir st = gen_asm_store ir st"
| "handler IR_JMP pos ir st = gen_asm_goto ir st"
| "handler IR_ARG pos ir st = gen_asm_arg st"
| "handler IR_CALL pos ir st = gen_asm_call pos ir st"
| "handler IR_ADDR pos ir st = gen_asm_addr ir st"
| "handler IR_READ pos ir st = gen_asm_read ir st"
| "handler IR_WRITE pos ir st = gen_asm_write ir st"
| "handler IR_PARAM pos ir st = gen_asm_param ir st"
| "handler IR_RET pos ir st = gen_asm_return ir st"
| "handler IR_BEQ pos ir st = gen_asm_br ir st"
| "handler IR_BLE pos ir st = gen_asm_br ir st"
| "handler IR_BGT pos ir st = gen_asm_br ir st"
| "handler IR_BGE pos ir st = gen_asm_br ir st"
| "handler IR_BNE pos ir st = gen_asm_br ir st"
| "handler IR_BLT pos ir st = gen_asm_br ir st"

definition gen_asm :: "nat \<Rightarrow> 'a asm_state_scheme \<Rightarrow> 'a asm_state_scheme option" where
  "gen_asm pos st =
     do {
       ir \<leftarrow> array_get (instr_buffer st) pos;
       s \<leftarrow> ir_to_s st ir;
       handler (ir_type ir) pos ir (emit (Comment (''# '' @ s)) st)
     }"

section \<open>The driver\<close>

text \<open>Restore the annotation of an operand from the instruction.\<close>

definition restore_info :: "nat option \<Rightarrow> OptimizeInfo \<Rightarrow> 'a asm_state_scheme \<Rightarrow> 'a asm_state_scheme option" where
  "restore_info ptr info st =
     (case ptr of
       None \<Rightarrow> Some st
     | Some p \<Rightarrow>
         update_ope p (\<lambda>a. a\<lparr>ope_liveness := info_liveness info, ope_next_use := info_next_use info\<rparr>) st)"

definition gen_inner :: "nat \<Rightarrow> 'a asm_state_scheme \<Rightarrow> 'a asm_state_scheme option" where
  "gen_inner pos st =
     do {
       ir \<leftarrow> array_get (instr_buffer st) pos;
       st \<leftarrow> restore_info (ir_rd ir) (rd_info ir) st;
       st \<leftarrow> gen_asm pos st;
       st \<leftarrow> restore_info (ir_rs ir) (rs_info ir) st;
       restore_info (ir_rt ir) (rt_info ir) st
     }"

fun gen_inners :: "nat list \<Rightarrow> 'a asm_state_scheme \<Rightarrow> 'a asm_state_scheme option" where
  "gen_inners [] st = Some st"
| "gen_inners (pos # ps) st = do { st \<leftarrow> gen_inner pos st; gen_inners ps st }"

definition gen_last :: "nat \<Rightarrow> 'a asm_state_scheme \<Rightarrow> 'a asm_state_scheme option" where
  "gen_last pos st =
     do {
       ir \<leftarrow> array_get (instr_buffer st) pos;
       if can_jump ir then do { st \<leftarrow> push_all st; gen_asm pos st }
       else if ir_type ir \<noteq> IR_RET then do { st \<leftarrow> gen_asm pos st; push_all st }
       else gen_asm pos st
     }"

definition banner :: "string list" where
  "banner =
     [''#########################'',
      ''###    basic block    ###'',
      ''#########################'']"

definition gen_block :: "Block \<Rightarrow> 'a asm_state_scheme \<Rightarrow> 'a asm_state_scheme option" where
  "gen_block blk st =
     do {
       let st = fold (\<lambda>l. emit (Comment l)) banner st;
       let last = (if blk_start blk < blk_end blk then blk_end blk - 1 else blk_start blk);
       st \<leftarrow> gen_inners [blk_start blk..<blk_end blk - 1] st;
       st \<leftarrow> gen_last last st;
       Some (clear_reg_state st)
     }"

fun gen_blocks :: "Block list \<Rightarrow> 'a asm_state_scheme \<Rightarrow> 'a asm_state_scheme option" where
  "gen_blocks [] st = Some st"
| "gen_blocks (b # bs) st = do { st \<leftarrow> gen_block b st; gen_blocks bs st }"

text \<open>
  \<open>print_instr\<close>: \<open>predef\<close> is the text of \<open>predefine.S\<close>, absent when the file cannot be
  opened; \<open>blk_buf\<close> is the block array.
\<close>

definition print_instr :: "string option \<Rightarrow> Block list \<Rightarrow> 'a asm_state_scheme \<Rightarrow> 'a asm_state_scheme option" where
  "print_instr predef blk_buf st =
     do {
       st \<leftarrow> preprocess_ir st;
       st \<leftarrow> in_func_check st;
       (nr_blk, blk_buf, st) \<leftarrow> optimize_in_block blk_buf st;
       t \<leftarrow> predef;
       gen_blocks (take nr_blk blk_buf) (emit (Raw t) st)
     }"

end
