(* ===== verification/Symtab.thy ===== *)
theory Symtab
  imports Types
begin

text \<open>
  The symbol table of \<open>cmm-symtab.c\<close>: an array of hash chains per scope and a stack of
  scopes. A table is the list of its chains; the stack is a list whose last element is the
  innermost scope, and \<open>scope_cnt\<close> is its length.
\<close>

unbundle bit_operations_syntax

type_synonym symtab = "Symbol list list"

record symtab_state =
  scopes :: "symtab list"
  scope_capacity :: nat

definition SIZE :: nat where
  "SIZE = 0x3f"

abbreviation scope_cnt :: "('a) symtab_state_scheme \<Rightarrow> nat" where
  "scope_cnt st \<equiv> length (scopes st)"

primrec symbol_of :: "Symbol \<Rightarrow> string" where
  "symbol_of (Symbol s _ _ _ _) = s"

primrec symbol_line :: "Symbol \<Rightarrow> int" where
  "symbol_line (Symbol _ l _ _ _) = l"

primrec symbol_type :: "Symbol \<Rightarrow> Type" where
  "symbol_type (Symbol _ _ t _ _) = t"

primrec symbol_address :: "Symbol \<Rightarrow> nat option" where
  "symbol_address (Symbol _ _ _ a _) = a"

primrec symbol_offset :: "Symbol \<Rightarrow> cint" where
  "symbol_offset (Symbol _ _ _ _ off) = off"

primrec set_symbol_address :: "nat option \<Rightarrow> Symbol \<Rightarrow> Symbol" where
  "set_symbol_address a (Symbol s l t _ off) = Symbol s l t a off"

primrec set_symbol_offset :: "cint \<Rightarrow> Symbol \<Rightarrow> Symbol" where
  "set_symbol_offset off (Symbol s l t a _) = Symbol s l t a off"

primrec set_symbol_type :: "Type \<Rightarrow> Symbol \<Rightarrow> Symbol" where
  "set_symbol_type t (Symbol s l _ a off) = Symbol s l t a off"

section \<open>Hashing\<close>

text \<open>A \<open>char\<close> promoted to \<open>int\<close>; plain \<open>char\<close> is signed on the compiler's host.\<close>

definition char_promote :: "char \<Rightarrow> 32 word" where
  "char_promote c = (let n = of_char c :: nat in if n < 128 then of_nat n else of_nat n - 256)"

definition hash_step :: "32 word \<Rightarrow> char \<Rightarrow> 32 word" where
  "hash_step v c =
     (let v = push_bit 2 v + char_promote c;
          i = v * of_nat SIZE
      in if i \<noteq> 0 then (v XOR drop_bit 12 i) AND of_nat SIZE else v)"

definition hash :: "string \<Rightarrow> 32 word" where
  "hash name = fold (\<lambda>c v. hash_step v c) name 0"

section \<open>One table\<close>

text \<open>\<open>calloc(SIZE, sizeof(Symbol *))\<close>\<close>

definition calloc_symtab :: symtab where
  "calloc_symtab = replicate SIZE []"

text \<open>
  The insertion loop: \<open>ptr\<close> is the rest of the chain, \<open>chain\<close> the whole chain. The symbol
  is compared with the head of the chain in every round. \<open>True\<close> is the collision.
\<close>

fun insert_loop :: "string \<Rightarrow> Symbol list \<Rightarrow> Symbol list \<Rightarrow> bool" where
  "insert_loop name chain [] = False"
| "insert_loop name chain (_ # ptr) =
     (if name = symbol_of (hd chain) then True else insert_loop name chain ptr)"

text \<open>
  \<open>insert\<close>: \<open>None\<close> if the slot lies outside the table, otherwise the new table and the
  place of the new symbol (slot and position in the chain), or no place on a collision.
\<close>

definition insert_sym ::
  "string \<Rightarrow> Type \<Rightarrow> int \<Rightarrow> symtab \<Rightarrow> ((nat \<times> nat) option \<times> symtab) option" where
  "insert_sym name type line table =
     (let index = unat (hash name) in
      do {
        chain \<leftarrow> array_get table index;
        if insert_loop name chain chain then Some (None, table)
        else Some (Some (index, length chain),
                   table[index := chain @ [Symbol name line type None 0]])
      })"

fun query_chain :: "string \<Rightarrow> Symbol list \<Rightarrow> Symbol option" where
  "query_chain name [] = None"
| "query_chain name (s # link) = (if name = symbol_of s then Some s else query_chain name link)"

definition query_without_fallback :: "string \<Rightarrow> symtab \<Rightarrow> Symbol option option" where
  "query_without_fallback name table =
     do {
       chain \<leftarrow> array_get table (unat (hash name));
       Some (query_chain name chain)
     }"

text \<open>A write through the pointer that \<open>insert\<close> returned.\<close>

definition update_at :: "nat \<times> nat \<Rightarrow> (Symbol \<Rightarrow> Symbol) \<Rightarrow> symtab \<Rightarrow> symtab" where
  "update_at loc f table =
     (case loc of (i, j) \<Rightarrow> table[i := (table ! i)[j := f (table ! i ! j)]])"

text \<open>A write through the pointer that a query returned: the first symbol of that name.\<close>

fun update_chain :: "string \<Rightarrow> (Symbol \<Rightarrow> Symbol) \<Rightarrow> Symbol list \<Rightarrow> Symbol list" where
  "update_chain name f [] = []"
| "update_chain name f (s # link) =
     (if name = symbol_of s then f s # link else s # update_chain name f link)"

section \<open>The stack of scopes\<close>

definition init_symtab :: "('a) symtab_state_scheme \<Rightarrow> ('a) symtab_state_scheme" where
  "init_symtab st = st\<lparr>scopes := [], scope_capacity := 1\<rparr>"

text \<open>
  Pushing doubles the capacity when the array is full; the store at \<open>scope_cnt\<close> is undefined
  beyond the capacity.
\<close>

definition push_symtab :: "symtab \<Rightarrow> ('a) symtab_state_scheme \<Rightarrow> ('a) symtab_state_scheme option" where
  "push_symtab tab st =
     (let st = (if scope_cnt st = scope_capacity st
                then st\<lparr>scope_capacity := 2 * scope_capacity st\<rparr> else st)
      in if scope_cnt st < scope_capacity st then Some (st\<lparr>scopes := scopes st @ [tab]\<rparr>) else None)"

definition new_symtab :: "('a) symtab_state_scheme \<Rightarrow> ('a) symtab_state_scheme option" where
  "new_symtab st = push_symtab calloc_symtab st"

definition pop_symtab :: "('a) symtab_state_scheme \<Rightarrow> symtab option \<times> ('a) symtab_state_scheme" where
  "pop_symtab st =
     (if scopes st = [] then (None, st)
      else (Some (last (scopes st)), st\<lparr>scopes := butlast (scopes st)\<rparr>))"

definition get_symtab_top :: "('a) symtab_state_scheme \<Rightarrow> symtab option" where
  "get_symtab_top st = (if scopes st = [] then None else Some (last (scopes st)))"

text \<open>
  The loop of \<open>query\<close>, with its unsigned index kept at its width: it starts at
  \<open>scope_cnt - 1\<close>, and decrementing 0 wraps to the largest \<open>size_t\<close>. The result is the
  index of the scope and the symbol found there.
\<close>

function query_loop ::
  "symtab list \<Rightarrow> string \<Rightarrow> csize \<Rightarrow> (nat \<times> Symbol) option option" where
  "query_loop scs name idx =
     (if unat idx < length scs \<and> length scs < 2 ^ 64 then
        do {
          table \<leftarrow> array_get scs (unat idx);
          result \<leftarrow> query_without_fallback name table;
          case result of
            Some s \<Rightarrow> Some (Some (unat idx, s))
          | None \<Rightarrow> query_loop scs name (idx - 1)
        }
      else Some None)"
  by pat_completeness auto
termination
proof (relation "measure (\<lambda>(scs, name, idx). if unat idx < length scs then Suc (unat idx) else 0)",
    goal_cases)
  case (2 scs name idx table result)
  show ?case
  proof (cases "idx = 0")
    case True
    have "unat (- 1 :: csize) = 2 ^ 64 - 1"
      by (simp add: unsigned_minus_1_eq_mask mask_eq_exp_minus_1)
    with 2 True show ?thesis by simp
  next
    case False
    then have "Suc (unat (idx - 1)) = unat idx"
      by (metis Suc_pred' unat_gt_0 unat_minus_one)
    with 2 show ?thesis by auto
  qed
qed simp

declare query_loop.simps [simp del]

text \<open>The same equation for evaluation: the bound is compared as an integer.\<close>

lemma query_loop_code [code]:
  "query_loop scs name idx =
     (if unat idx < length scs \<and> int (length scs) < 2 ^ 64 then
        do {
          table \<leftarrow> array_get scs (unat idx);
          result \<leftarrow> query_without_fallback name table;
          case result of
            Some s \<Rightarrow> Some (Some (unat idx, s))
          | None \<Rightarrow> query_loop scs name (idx - 1)
        }
      else Some None)"
  by (subst query_loop.simps) (simp add: nat_less_iff zless_nat_eq_int_zless)

definition query_place :: "string \<Rightarrow> ('a) symtab_state_scheme \<Rightarrow> (nat \<times> Symbol) option option" where
  "query_place name st = query_loop (scopes st) name (of_nat (scope_cnt st) - 1)"

definition query :: "string \<Rightarrow> ('a) symtab_state_scheme \<Rightarrow> Symbol option option" where
  "query name st = map_option (map_option snd) (query_place name st)"

text \<open>A store into the symbol that \<open>query\<close> returned (\<open>translate.c\<close> casts the \<open>const\<close> away).\<close>

definition update_symbol ::
  "string \<Rightarrow> (Symbol \<Rightarrow> Symbol) \<Rightarrow> ('a) symtab_state_scheme \<Rightarrow> ('a) symtab_state_scheme option" where
  "update_symbol name f st =
     do {
       place \<leftarrow> query_place name st;
       (i, _) \<leftarrow> place;
       let table = scopes st ! i; k = unat (hash name)
       in Some (st\<lparr>scopes := (scopes st)[i := table[k := update_chain name f (table ! k)]]\<rparr>)
     }"

text \<open>\<open>insert(\<dots>, get_symtab_top())\<close>: a null type fails the \<open>assert\<close>, no scope is a null table.\<close>

definition insert_top ::
  "string \<Rightarrow> Type option \<Rightarrow> int \<Rightarrow> ('a) symtab_state_scheme \<Rightarrow>
     ((nat \<times> nat) option \<times> ('a) symtab_state_scheme) option" where
  "insert_top name type line st =
     do {
       type \<leftarrow> type;
       table \<leftarrow> get_symtab_top st;
       (place, table) \<leftarrow> insert_sym name type line table;
       Some (place, st\<lparr>scopes := butlast (scopes st) @ [table]\<rparr>)
     }"

section \<open>The hash value\<close>

lemma hash_step_le: "hash_step v c \<le> 63"
proof -
  define w where "w = push_bit 2 v + char_promote c"
  have "w = 0" if "w * 63 = 0"
  proof -
    from that have "w * 63 * 3204181951 = 0" by simp
    moreover have "(63 :: 32 word) * 3204181951 = 1" by code_simp
    ultimately show ?thesis by (simp only: mult.assoc) simp
  qed
  then show ?thesis
    unfolding hash_step_def w_def [symmetric]
    by (auto simp: SIZE_def Let_def word_and_le1 simp del: push_bit_numeral)
qed

lemma fold_hash_step_le: "v \<le> 63 \<Longrightarrow> fold (\<lambda>c v. hash_step v c) s v \<le> 63"
  by (induction s arbitrary: v) (auto simp: hash_step_le)

lemma hash_le: "unat (hash s) \<le> SIZE"
proof -
  have "hash s \<le> 63" unfolding hash_def by (rule fold_hash_step_le) simp
  then have "unat (hash s) \<le> unat (63 :: 32 word)" by (simp add: word_le_nat_alt)
  then show ?thesis by (simp add: SIZE_def)
qed

lemma hash_examples:
  "hash ''test'' = 63" "hash ''count'' = 4" "hash ''point'' = 4" "hash ''n'' = 47" "hash ''main'' = 47"
  by code_simp+

section \<open>A table as a map\<close>

definition tab_wf :: "symtab \<Rightarrow> bool" where
  "tab_wf tab \<longleftrightarrow> length tab = SIZE \<and>
     (\<forall>i < SIZE. \<forall>s \<in> set (tab ! i). unat (hash (symbol_of s)) = i)"

definition tab_map :: "symtab \<Rightarrow> string \<rightharpoonup> Symbol" where
  "tab_map tab name =
     (if unat (hash name) < length tab then query_chain name (tab ! unat (hash name)) else None)"

definition slot_ok :: "string \<Rightarrow> bool" where
  "slot_ok name \<longleftrightarrow> unat (hash name) < SIZE"

lemma slot_ok_iff: "slot_ok name \<longleftrightarrow> hash name \<noteq> 63"
proof -
  have "unat (hash name) = 63 \<longleftrightarrow> hash name = 63"
    by (simp add: word_unat_eq_iff)
  with hash_le [of name] show ?thesis by (auto simp: slot_ok_def SIZE_def)
qed

lemma query_chain_Some:
  "query_chain name chain = Some s \<Longrightarrow> s \<in> set chain \<and> symbol_of s = name"
  by (induction chain) (auto split: if_splits)

lemma query_chain_None: "query_chain name chain = None \<longleftrightarrow> name \<notin> symbol_of ` set chain"
  by (induction chain) auto

lemma query_chain_append:
  "query_chain name (xs @ ys) =
     (case query_chain name xs of None \<Rightarrow> query_chain name ys | Some s \<Rightarrow> Some s)"
  by (induction xs) auto

lemma insert_loop_eq:
  "insert_loop name chain ptr \<longleftrightarrow> ptr \<noteq> [] \<and> name = symbol_of (hd chain)"
  by (induction ptr) auto

lemma tab_map_symbol: "tab_map tab name = Some s \<Longrightarrow> symbol_of s = name"
  by (auto simp: tab_map_def dest: query_chain_Some split: if_splits)

lemma tab_wf_length: "tab_wf tab \<Longrightarrow> length tab = SIZE"
  by (simp add: tab_wf_def)

lemma calloc_symtab_wf: "tab_wf calloc_symtab"
  by (simp add: tab_wf_def calloc_symtab_def)

lemma tab_map_calloc [simp]: "tab_map calloc_symtab = Map.empty"
  by (auto simp: tab_map_def calloc_symtab_def)

lemma query_without_fallback_map:
  "tab_wf tab \<Longrightarrow>
     query_without_fallback name tab = (if slot_ok name then Some (tab_map tab name) else None)"
  by (auto simp: query_without_fallback_def tab_map_def slot_ok_def tab_wf_length array_get_def)

text \<open>
  Every insertion that stays in the table either changes nothing or binds a name that had no
  binding: an insertion the chain comparison fails to recognise as a duplicate goes behind the
  first symbol of that name, where no query finds it.
\<close>

lemma insert_sym_map:
  assumes wf: "tab_wf tab" and ins: "insert_sym name type line tab = Some (place, tab')"
  shows "tab_wf tab'" and
    "tab_map tab' = (if name \<in> dom (tab_map tab) then tab_map tab
       else (tab_map tab)(name \<mapsto> Symbol name line type None 0))" and
    "place = None \<Longrightarrow> name \<in> dom (tab_map tab)"
proof -
  let ?i = "unat (hash name)" and ?s = "Symbol name line type None 0"
  from ins have i: "?i < length tab"
    by (auto simp: insert_sym_def Let_def bind_Some_iff)
  show "tab_wf tab'"
    using wf ins by (auto simp: insert_sym_def Let_def bind_Some_iff tab_wf_def nth_list_update split: if_splits)
  show "tab_map tab' = (if name \<in> dom (tab_map tab) then tab_map tab else (tab_map tab)(name \<mapsto> ?s))"
  proof (cases "insert_loop name (tab ! ?i) (tab ! ?i)")
    case True
    with ins i have "tab' = tab" by (simp add: insert_sym_def)
    moreover from True i have "name \<in> dom (tab_map tab)"
      by (cases "tab ! ?i") (auto simp: insert_loop_eq tab_map_def)
    ultimately show ?thesis by simp
  next
    case False
    with ins i have tab': "tab' = tab[?i := tab ! ?i @ [?s]]" by (simp add: insert_sym_def Let_def)
    show ?thesis
    proof
      fix n
      show "tab_map tab' n = (if name \<in> dom (tab_map tab) then tab_map tab else (tab_map tab)(name \<mapsto> ?s)) n"
        using i by (cases "unat (hash n) = ?i")
          (auto simp: tab' tab_map_def query_chain_append split: option.splits)
    qed
  qed
  show "name \<in> dom (tab_map tab)" if "place = None"
    using that ins i
    by (cases "tab ! ?i") (auto simp: insert_sym_def tab_map_def insert_loop_eq Let_def split: if_splits)
qed

lemma insert_sym_total:
  assumes "tab_wf tab"
  shows "(\<exists>place tab'. insert_sym name type line tab = Some (place, tab')) \<longleftrightarrow> slot_ok name"
  using assms by (auto simp: insert_sym_def slot_ok_def tab_wf_length Let_def array_get_def)

section \<open>The stack of scopes as a list of maps\<close>

fun scope_lookup :: "(string \<rightharpoonup> Symbol) list \<Rightarrow> string \<rightharpoonup> Symbol" where
  "scope_lookup [] name = None"
| "scope_lookup (m # ms) name = (case m name of Some s \<Rightarrow> Some s | None \<Rightarrow> scope_lookup ms name)"

definition symtab_wf :: "('a) symtab_state_scheme \<Rightarrow> bool" where
  "symtab_wf st \<longleftrightarrow> list_all tab_wf (scopes st) \<and> scope_cnt st \<le> scope_capacity st \<and>
     0 < scope_capacity st \<and> scope_cnt st < 2 ^ 64"

definition scope_maps :: "('a) symtab_state_scheme \<Rightarrow> (string \<rightharpoonup> Symbol) list" where
  "scope_maps st = rev (map tab_map (scopes st))"

lemma query_loop_above:
  "length scs \<le> unat idx \<Longrightarrow> query_loop scs name idx = Some None"
  by (simp add: query_loop.simps)

lemma query_loop_spec:
  assumes "list_all tab_wf scs" and "length scs < 2 ^ 64" and "slot_ok name" and "n \<le> length scs"
  shows "map_option (map_option snd) (query_loop scs name (of_nat n - 1)) =
    Some (scope_lookup (rev (map tab_map (take n scs))) name)"
  using assms(4)
proof (induction n)
  case 0
  have "unat (- 1 :: csize) = 2 ^ 64 - 1"
    by (simp add: unsigned_minus_1_eq_mask mask_eq_exp_minus_1)
  with assms(2) show ?case by (simp add: query_loop_above)
next
  case (Suc n)
  with assms(2) have n: "unat (of_nat n :: csize) = n" "n < length scs"
    by (simp_all add: unat_of_nat)
  with assms(1) have "tab_wf (scs ! n)" by (simp add: list_all_length)
  with assms(3) have q: "query_without_fallback name (scs ! n) = Some (tab_map (scs ! n) name)"
    by (simp add: query_without_fallback_map)
  have "rev (map tab_map (take (Suc n) scs)) = tab_map (scs ! n) # rev (map tab_map (take n scs))"
    using n by (simp add: take_Suc_conv_app_nth)
  with Suc n assms(2) q show ?case
    by (simp add: query_loop.simps [of scs name "of_nat n"] split: option.splits)
qed

lemma query_map:
  assumes "symtab_wf st" and "slot_ok name"
  shows "query name st = Some (scope_lookup (scope_maps st) name)"
  using query_loop_spec [of "scopes st" name "scope_cnt st"] assms
  by (simp add: query_def query_place_def symtab_wf_def scope_maps_def)

lemma query_slot_63:
  assumes "symtab_wf st" and "\<not> slot_ok name" and "scopes st \<noteq> []"
  shows "query name st = None"
proof -
  let ?n = "scope_cnt st - 1"
  have n: "scope_cnt st = Suc ?n" using assms(3) by (cases "scopes st") auto
  have "unat (of_nat ?n :: csize) = ?n"
    using assms(1) by (auto simp: symtab_wf_def unat_of_nat intro!: mod_less)
  moreover have "of_nat (scope_cnt st) - 1 = (of_nat ?n :: csize)" by (subst n) simp
  moreover have "tab_wf (scopes st ! ?n)"
    using assms(1,3) by (simp add: symtab_wf_def list_all_length)
  ultimately show ?thesis
    using assms query_loop.simps [of "scopes st" name "of_nat ?n"]
    by (simp add: query_def query_place_def query_without_fallback_map symtab_wf_def)
qed

lemma push_symtab_wf:
  assumes "symtab_wf st" and "tab_wf tab" and "scope_cnt st + 1 < 2 ^ 64"
  shows "\<exists>st'. push_symtab tab st = Some st' \<and> symtab_wf st' \<and> scopes st' = scopes st @ [tab] \<and>
    symtab_state.more st' = symtab_state.more st"
  using assms by (auto simp: push_symtab_def symtab_wf_def Let_def)

lemma push_symtab_scopes:
  "push_symtab tab st = Some st' \<Longrightarrow> scopes st' = scopes st @ [tab]"
  by (auto simp: push_symtab_def Let_def split: if_splits)

lemma pop_push_symtab:
  "push_symtab tab st = Some st' \<Longrightarrow> pop_symtab st' = (Some tab, st\<lparr>scope_capacity := scope_capacity st'\<rparr>)"
  by (auto simp: push_symtab_def pop_symtab_def Let_def split: if_splits)

lemma pop_symtab_wf: "symtab_wf st \<Longrightarrow> symtab_wf (snd (pop_symtab st))"
  by (auto simp: pop_symtab_def symtab_wf_def list_all_iff dest: in_set_butlastD)

lemma insert_top_wf:
  assumes "symtab_wf st" and "insert_top name type line st = Some (place, st')"
  shows "symtab_wf st'" "butlast (scopes st') = butlast (scopes st)" "scopes st' \<noteq> []" "scopes st \<noteq> []"
proof -
  from assms(2) obtain ty tab tab' where
    *: "type = Some ty" "get_symtab_top st = Some tab" "insert_sym name ty line tab = Some (place, tab')"
      "st' = st\<lparr>scopes := butlast (scopes st) @ [tab']\<rparr>"
    by (auto simp: insert_top_def bind_Some_iff)
  then have ne: "scopes st \<noteq> []" and tab: "tab = last (scopes st)"
    by (auto simp: get_symtab_top_def split: if_splits)
  with assms(1) have "tab_wf tab" by (simp add: symtab_wf_def list_all_iff)
  with * have "tab_wf tab'" by (blast intro: insert_sym_map(1))
  with * ne assms(1) show "symtab_wf st'"
    by (auto simp: symtab_wf_def list_all_iff dest: in_set_butlastD)
  from * ne show "butlast (scopes st') = butlast (scopes st)" "scopes st' \<noteq> []" "scopes st \<noteq> []"
    by simp_all
qed

lemma tl_rev_map: "tl (rev (map f xs)) = rev (map f (butlast xs))"
  by (cases xs rule: rev_cases) auto

lemma insert_top_maps:
  assumes "symtab_wf st" and "insert_top name type line st = Some (place, st')"
  shows "tl (scope_maps st') = tl (scope_maps st)"
  using insert_top_wf(2) [OF assms] by (simp add: scope_maps_def tl_rev_map)

section \<open>The interface: nested scopes\<close>

text \<open>
  What the analysis and the translation rely on: entering a scope hides nothing, a declaration
  touches the innermost scope only, leaving a scope uncovers the one below.
\<close>

locale scope_stack =
  fixes ok :: "'s \<Rightarrow> bool"
    and maps :: "'s \<Rightarrow> (string \<rightharpoonup> 'v) list"
    and enter :: "'s \<Rightarrow> 's \<Rightarrow> bool"
    and decl :: "'s \<Rightarrow> 's \<Rightarrow> bool"
    and leave :: "'s \<Rightarrow> 's"
  assumes enter_ok: "ok s \<Longrightarrow> enter s t \<Longrightarrow> ok t"
    and enter_maps: "ok s \<Longrightarrow> enter s t \<Longrightarrow> tl (maps t) = maps s \<and> maps t \<noteq> []"
    and decl_ok: "ok s \<Longrightarrow> decl s t \<Longrightarrow> ok t"
    and decl_maps: "ok s \<Longrightarrow> decl s t \<Longrightarrow> tl (maps t) = tl (maps s) \<and> maps s \<noteq> [] \<and> maps t \<noteq> []"
    and leave_ok: "ok s \<Longrightarrow> ok (leave s)"
    and leave_maps: "ok s \<Longrightarrow> maps (leave s) = tl (maps s)"
begin

inductive balanced :: "'s \<Rightarrow> 's \<Rightarrow> bool" where
  nothing: "balanced s s"
| declare_one: "decl s t \<Longrightarrow> balanced s t"
| block: "enter s t \<Longrightarrow> balanced t u \<Longrightarrow> balanced s (leave u)"
| sequence: "balanced s t \<Longrightarrow> balanced t u \<Longrightarrow> balanced s u"

lemma balanced_outer:
  "balanced s t \<Longrightarrow> ok s \<Longrightarrow> ok t \<and> tl (maps t) = tl (maps s) \<and> (maps t = [] \<longleftrightarrow> maps s = [])"
proof (induction rule: balanced.induct)
  case (block s t u)
  then have "ok t" and t: "tl (maps t) = maps s" "maps t \<noteq> []"
    using enter_ok enter_maps by blast+
  with block.IH have "ok u" "tl (maps u) = tl (maps t)" by auto
  with t show ?case by (simp add: leave_ok leave_maps)
qed (use decl_ok decl_maps in auto)

lemma block_restores:
  assumes "ok s" and "enter s t" and "balanced t u"
  shows "maps (leave u) = maps s"
proof -
  from assms have "ok t" "tl (maps t) = maps s" using enter_ok enter_maps by blast+
  with balanced_outer [OF assms(3)] show ?thesis by (simp add: leave_maps)
qed

end

text \<open>The scope stack of \<open>cmm-symtab.c\<close> provides it.\<close>

definition enters :: "('a) symtab_state_scheme \<Rightarrow> ('a) symtab_state_scheme \<Rightarrow> bool" where
  "enters st st' \<longleftrightarrow> new_symtab st = Some st' \<and> scope_cnt st + 1 < 2 ^ 64"

definition declares :: "('a) symtab_state_scheme \<Rightarrow> ('a) symtab_state_scheme \<Rightarrow> bool" where
  "declares st st' \<longleftrightarrow> (\<exists>name type line place. insert_top name type line st = Some (place, st'))"

interpretation scs: scope_stack symtab_wf scope_maps enters declares "snd \<circ> pop_symtab"
proof unfold_locales
  fix s t :: "'a symtab_state_scheme"
  assume "symtab_wf s" "enters s t"
  then show "symtab_wf t" "tl (scope_maps t) = scope_maps s \<and> scope_maps t \<noteq> []"
    using push_symtab_wf [OF _ calloc_symtab_wf, of s]
    by (auto simp: enters_def new_symtab_def scope_maps_def)
next
  fix s t :: "'a symtab_state_scheme"
  assume *: "symtab_wf s" "declares s t"
  then show "symtab_wf t" by (auto simp: declares_def intro: insert_top_wf)
  from * show "tl (scope_maps t) = tl (scope_maps s) \<and> scope_maps s \<noteq> [] \<and> scope_maps t \<noteq> []"
    by (auto simp: declares_def insert_top_maps) (auto simp: scope_maps_def dest: insert_top_wf(3,4))
next
  fix s :: "'a symtab_state_scheme"
  assume "symtab_wf s"
  then show "symtab_wf ((snd \<circ> pop_symtab) s)" by (simp add: pop_symtab_wf)
  show "scope_maps ((snd \<circ> pop_symtab) s) = tl (scope_maps s)"
    by (cases "scopes s" rule: rev_cases) (auto simp: pop_symtab_def scope_maps_def)
qed

section \<open>Properties\<close>

lemma new_symtab_start:
  "new_symtab (init_symtab st) = Some (st\<lparr>scopes := [calloc_symtab], scope_capacity := 1\<rparr>)"
  by (simp add: new_symtab_def init_symtab_def push_symtab_def)

lemma symtab_wf_start: "symtab_wf (st\<lparr>scopes := [calloc_symtab], scope_capacity := 1\<rparr>)"
  by (simp add: symtab_wf_def calloc_symtab_wf)

text \<open>
  C18: a hash value is at most 63 (the multiplication can only vanish when the value is already
  0), while a table has 63 slots. So an insertion into a well-formed table, and a query of it,
  are defined exactly for the names whose hash is not 63.
\<close>

theorem symtab_access_defined:
  assumes "tab_wf tab"
  shows "unat (hash name) \<le> SIZE \<and>
    (insert_sym name type line tab \<noteq> None \<longleftrightarrow> hash name \<noteq> 63) \<and>
    (query_without_fallback name tab \<noteq> None \<longleftrightarrow> hash name \<noteq> 63)"
  using assms insert_sym_total [OF assms, of name type line] query_without_fallback_map [OF assms, of name]
  by (auto simp: hash_le slot_ok_iff)

lemma symtab_access_defined_witness:
  "tab_wf calloc_symtab \<and> insert_sym ''test'' Basic_INT 1 calloc_symtab = None \<and>
   query_without_fallback ''test'' calloc_symtab = None"
  using symtab_access_defined [OF calloc_symtab_wf, of "''test''" Basic_INT 1] calloc_symtab_wf
  by (simp add: hash_examples del: not_None_eq)

text \<open>
  C16: seen as a map from names to symbols, a table changes under an insertion that stays in
  bounds exactly as a first-come binding does: an unbound name gets the new symbol, a bound name
  keeps the old one, and no other name is affected. The table stays well formed, and a reported
  collision is a real one.
\<close>

theorem insert_sym_refines_map:
  assumes "tab_wf tab" and "insert_sym name type line tab = Some (place, tab')"
  shows "tab_wf tab' \<and>
    tab_map tab' = (if name \<in> dom (tab_map tab) then tab_map tab
       else (tab_map tab)(name \<mapsto> Symbol name line type None 0)) \<and>
    (place = None \<longrightarrow> name \<in> dom (tab_map tab))"
  using insert_sym_map [OF assms] by blast

lemma insert_sym_refines_map_witness:
  "\<exists>place tab'. insert_sym ''count'' Basic_INT 7 calloc_symtab = Some (place, tab') \<and>
     tab_map tab' = [''count'' \<mapsto> Symbol ''count'' 7 Basic_INT None 0]"
proof -
  obtain place tab' where ins: "insert_sym ''count'' Basic_INT 7 calloc_symtab = Some (place, tab')"
    using insert_sym_total [OF calloc_symtab_wf, of "''count''" Basic_INT 7]
    by (auto simp: slot_ok_iff hash_examples)
  from insert_sym_refines_map [OF calloc_symtab_wf ins]
  have "tab_map tab' = [''count'' \<mapsto> Symbol ''count'' 7 Basic_INT None 0]" by simp
  with ins show ?thesis by blast
qed


text \<open>
  C15: \<open>query\<close>, whose loop counts an unsigned index down and stops by wrap-around, returns the
  binding of the innermost scope that has one, for every number of scopes a \<open>size_t\<close> can count,
  provided the name's slot exists.
\<close>

theorem query_innermost:
  assumes "symtab_wf st" and "hash name \<noteq> 63"
  shows "query name st = Some (scope_lookup (rev (map tab_map (scopes st))) name)"
  using query_map [OF assms(1)] assms(2) by (simp add: slot_ok_iff scope_maps_def)

lemma query_innermost_witness:
  "query ''n'' \<lparr>scopes = [calloc_symtab, calloc_symtab], scope_capacity = 2\<rparr> = Some None"
  using query_innermost [of "\<lparr>scopes = [calloc_symtab, calloc_symtab], scope_capacity = 2\<rparr>" "''n''"]
  by (simp add: symtab_wf_def calloc_symtab_wf hash_examples)

text \<open>
  C17: a block leaves no trace: after entering a scope, any well-bracketed sequence of
  declarations and inner blocks, and leaving the scope, every query answers as before.
\<close>

theorem block_leaves_no_trace:
  assumes "symtab_wf st" and "enters st st1" and "scs.balanced st1 st2" and "hash name \<noteq> 63"
  shows "query name (snd (pop_symtab st2)) = query name st"
proof -
  have "symtab_wf st1" by (rule scs.enter_ok [OF assms(1,2)])
  with assms(3) have "symtab_wf st2" using scs.balanced_outer by blast
  then have "symtab_wf (snd (pop_symtab st2))" by (rule pop_symtab_wf)
  moreover have "scope_maps (snd (pop_symtab st2)) = scope_maps st"
    using scs.block_restores [OF assms(1-3)] by simp
  ultimately show ?thesis using assms(1,4) by (simp add: query_map slot_ok_iff)
qed

lemma block_leaves_no_trace_witness:
  "\<exists>st1 place st2. enters \<lparr>scopes = [calloc_symtab], scope_capacity = 1\<rparr> st1 \<and>
     insert_top ''n'' (Some Basic_INT) 3 st1 = Some (place, st2) \<and>
     query ''n'' (snd (pop_symtab st2)) = query ''n'' \<lparr>scopes = [calloc_symtab], scope_capacity = 1\<rparr>"
proof -
  let ?st = "\<lparr>scopes = [calloc_symtab], scope_capacity = 1\<rparr>"
  let ?st1 = "\<lparr>scopes = [calloc_symtab, calloc_symtab], scope_capacity = 2\<rparr>"
  have wf: "symtab_wf ?st" by (simp add: symtab_wf_def calloc_symtab_wf)
  have e: "enters ?st ?st1" by (simp add: enters_def new_symtab_def push_symtab_def)
  obtain place tab where "insert_sym ''n'' Basic_INT 3 calloc_symtab = Some (place, tab)"
    using insert_sym_total [OF calloc_symtab_wf, of "''n''" Basic_INT 3]
    by (auto simp: slot_ok_iff hash_examples)
  then obtain st2 where d: "insert_top ''n'' (Some Basic_INT) 3 ?st1 = Some (place, st2)"
    by (simp add: insert_top_def get_symtab_top_def)
  then have "scs.balanced ?st1 st2"
    unfolding declares_def by (blast intro: scs.balanced.declare_one [unfolded declares_def])
  then show ?thesis
    using block_leaves_no_trace [OF wf e, of st2 "''n''"] e d by (auto simp: hash_examples)
qed

end
