(* ===== verification/Ast.thy ===== *)
theory Ast
  imports Symtab Binary32
begin

text \<open>
  The syntax tree: \<open>node.h\<close>, \<open>node.c\<close>, \<open>ast.c\<close> and the actions of the grammar
  \<open>syntax.y\<close>. A sibling chain is a list of nodes, so \<open>child\<close> is the list of the children
  and a null pointer the empty list. No node has two parents, so a node is a value and a visitor
  that writes attributes returns the node it has changed.
\<close>

section \<open>Nodes\<close>

datatype ProductionTag =
    UNSIMPLIFIED
  | PROG_is_EXTDEF
  | EXTDEF_is_SPEC_EXTDEC
  | EXTDEF_is_SPEC
  | EXTDEF_is_SPEC_FUNC_COMPST
  | EXTDEC_is_VARDEC
  | SPEC_is_TYPE
  | SPEC_is_STRUCT
  | STRUCT_is_ID_DEF
  | STRUCT_is_DEF
  | STRUCT_is_ID
  | VARDEC_is_ID
  | VARDEC_is_VARDEC_SIZE
  | FUNC_is_ID_VAR
  | VAR_is_SPEC_VARDEC
  | COMPST_is_DEF_STMT
  | STMT_is_EXP
  | STMT_is_COMPST
  | STMT_is_RETURN
  | STMT_is_IF
  | STMT_is_IF_ELSE
  | STMT_is_WHILE
  | STMT_is_FOR
  | DEF_is_SPEC_DEC
  | DEC_is_VARDEC
  | DEC_is_VARDEC_INITIALIZATION
  | EXP_is_ASSIGN
  | EXP_is_AND
  | EXP_is_OR
  | EXP_is_NOT
  | EXP_is_RELOP
  | EXP_is_BINARY
  | EXP_is_UNARY
  | EXP_is_EXP
  | EXP_is_ID
  | EXP_is_ID_ARG
  | EXP_is_EXP_IDX
  | EXP_is_EXP_FIELD
  | EXP_is_INT
  | EXP_is_FLOAT
  | TERM_INT
  | TERM_FLOAT
  | TERM_ID

text \<open>The union \<open>val\<close>; \<open>operator\<close> and \<open>s\<close> are both strings.\<close>

datatype node_val = Val_none | Val_i cint | Val_f f32 | Val_s string

record sema_attr =
  sema_type :: "Type option"
  sema_name :: "string option"
  sema_lineno :: int
  sema_symtab :: "symtab option"

record trans_attr =
  at_dst :: "nat option"
  at_base :: "nat option"
  at_label_true :: "nat option"
  at_label_false :: "nat option"

datatype Node =
  Node (nd_tag: ProductionTag) (nd_lineno: int) (nd_val: node_val) (nd_sema: sema_attr)
    (nd_trans: trans_attr) (nd_child: "Node list")

definition no_sema :: sema_attr where
  "no_sema = \<lparr>sema_type = None, sema_name = None, sema_lineno = 0, sema_symtab = None\<rparr>"

definition no_trans :: trans_attr where
  "no_trans = \<lparr>at_dst = None, at_base = None, at_label_true = None, at_label_false = None\<rparr>"

definition new_node :: Node where
  "new_node = Node UNSIMPLIFIED 0 Val_none no_sema no_trans []"

subsection \<open>Reading and writing a node\<close>

definition nd_type :: "Node \<Rightarrow> Type option" where
  "nd_type nd = sema_type (nd_sema nd)"

definition nd_dst :: "Node \<Rightarrow> nat option" where
  "nd_dst nd = at_dst (nd_trans nd)"

definition nd_base :: "Node \<Rightarrow> nat option" where
  "nd_base nd = at_base (nd_trans nd)"

definition nd_label_true :: "Node \<Rightarrow> nat option" where
  "nd_label_true nd = at_label_true (nd_trans nd)"

definition nd_label_false :: "Node \<Rightarrow> nat option" where
  "nd_label_false nd = at_label_false (nd_trans nd)"

primrec upd_sema :: "(sema_attr \<Rightarrow> sema_attr) \<Rightarrow> Node \<Rightarrow> Node" where
  "upd_sema f (Node t l v s a c) = Node t l v (f s) a c"

primrec upd_trans :: "(trans_attr \<Rightarrow> trans_attr) \<Rightarrow> Node \<Rightarrow> Node" where
  "upd_trans f (Node t l v s a c) = Node t l v s (f a) c"

primrec set_child :: "Node list \<Rightarrow> Node \<Rightarrow> Node" where
  "set_child cs (Node t l v s a c) = Node t l v s a cs"

primrec set_val :: "node_val \<Rightarrow> Node \<Rightarrow> Node" where
  "set_val v (Node t l _ s a c) = Node t l v s a c"

abbreviation set_type :: "Type option \<Rightarrow> Node \<Rightarrow> Node" where
  "set_type t \<equiv> upd_sema (sema_type_update (\<lambda>_. t))"

abbreviation set_symtab :: "symtab option \<Rightarrow> Node \<Rightarrow> Node" where
  "set_symtab t \<equiv> upd_sema (sema_symtab_update (\<lambda>_. t))"

abbreviation set_sema :: "sema_attr \<Rightarrow> Node \<Rightarrow> Node" where
  "set_sema s \<equiv> upd_sema (\<lambda>_. s)"

abbreviation set_dst :: "nat option \<Rightarrow> Node \<Rightarrow> Node" where
  "set_dst p \<equiv> upd_trans (at_dst_update (\<lambda>_. p))"

abbreviation set_base :: "nat option \<Rightarrow> Node \<Rightarrow> Node" where
  "set_base p \<equiv> upd_trans (at_base_update (\<lambda>_. p))"

abbreviation set_labels :: "nat option \<Rightarrow> nat option \<Rightarrow> Node \<Rightarrow> Node" where
  "set_labels t f \<equiv> upd_trans (\<lambda>a. a\<lparr>at_label_true := t, at_label_false := f\<rparr>)"

text \<open>The \<open>k\<close>-th child, reached through \<open>k\<close> sibling pointers and dereferenced.\<close>

definition child :: "nat \<Rightarrow> Node \<Rightarrow> Node option" where
  "child k nd = array_get (nd_child nd) k"

definition put_child :: "nat \<Rightarrow> Node \<Rightarrow> Node \<Rightarrow> Node" where
  "put_child k c nd = set_child ((nd_child nd)[k := c]) nd"

text \<open>A read of one member of the union; the member must be the one that was written.\<close>

definition val_s :: "Node \<Rightarrow> string option" where
  "val_s nd = (case nd_val nd of Val_s s \<Rightarrow> Some s | _ \<Rightarrow> None)"

definition val_i :: "Node \<Rightarrow> cint option" where
  "val_i nd = (case nd_val nd of Val_i i \<Rightarrow> Some i | _ \<Rightarrow> None)"

definition val_f :: "Node \<Rightarrow> f32 option" where
  "val_f nd = (case nd_val nd of Val_f f \<Rightarrow> Some f | _ \<Rightarrow> None)"

text \<open>\<open>val.operator[0]\<close>, the terminating zero of an empty string included.\<close>

definition operator0 :: "Node \<Rightarrow> char option" where
  "operator0 nd = do { s \<leftarrow> val_s nd; Some (case s of [] \<Rightarrow> CHR 0x00 | c # _ \<Rightarrow> c) }"

text \<open>Releasing a chain: the nodes in the order in which they are freed.\<close>

lemma size_nd_child [termination_simp]: "size_list size (nd_child nd) < size nd"
  by (cases nd) simp

fun free_node :: "Node list \<Rightarrow> Node list" where
  "free_node [] = []"
| "free_node (nd # sibling) = free_node (nd_child nd) @ free_node sibling @ [nd]"

section \<open>Building trees\<close>

fun body_size :: "ProductionTag \<Rightarrow> nat" where
  "body_size PROG_is_EXTDEF = 1"
| "body_size EXTDEF_is_SPEC_EXTDEC = 2"
| "body_size EXTDEF_is_SPEC = 1"
| "body_size EXTDEF_is_SPEC_FUNC_COMPST = 3"
| "body_size EXTDEC_is_VARDEC = 1"
| "body_size SPEC_is_TYPE = 1"
| "body_size SPEC_is_STRUCT = 1"
| "body_size STRUCT_is_ID_DEF = 2"
| "body_size STRUCT_is_DEF = 1"
| "body_size STRUCT_is_ID = 1"
| "body_size VARDEC_is_ID = 1"
| "body_size VARDEC_is_VARDEC_SIZE = 2"
| "body_size FUNC_is_ID_VAR = 2"
| "body_size VAR_is_SPEC_VARDEC = 2"
| "body_size COMPST_is_DEF_STMT = 2"
| "body_size STMT_is_EXP = 1"
| "body_size STMT_is_COMPST = 1"
| "body_size STMT_is_RETURN = 1"
| "body_size STMT_is_IF = 2"
| "body_size STMT_is_IF_ELSE = 3"
| "body_size STMT_is_FOR = 4"
| "body_size STMT_is_WHILE = 2"
| "body_size DEF_is_SPEC_DEC = 2"
| "body_size DEC_is_VARDEC = 1"
| "body_size DEC_is_VARDEC_INITIALIZATION = 2"
| "body_size EXP_is_ASSIGN = 2"
| "body_size EXP_is_AND = 2"
| "body_size EXP_is_OR = 2"
| "body_size EXP_is_NOT = 1"
| "body_size EXP_is_RELOP = 2"
| "body_size EXP_is_BINARY = 2"
| "body_size EXP_is_UNARY = 1"
| "body_size EXP_is_EXP = 1"
| "body_size EXP_is_ID = 1"
| "body_size EXP_is_ID_ARG = 2"
| "body_size EXP_is_EXP_IDX = 2"
| "body_size EXP_is_EXP_FIELD = 2"
| "body_size EXP_is_INT = 1"
| "body_size EXP_is_FLOAT = 1"
| "body_size UNSIMPLIFIED = 0"
| "body_size TERM_INT = 0"
| "body_size TERM_FLOAT = 0"
| "body_size TERM_ID = 0"

text \<open>
  \<open>create_tree\<close> on as many chains as the production has symbols: every chain is appended to the
  last sibling so far, and a null chain is skipped. The result is the chain of the new node, null
  for a tag without symbols.
\<close>

definition create_tree :: "ProductionTag \<Rightarrow> int \<Rightarrow> Node list list \<Rightarrow> Node list" where
  "create_tree tag lineno args =
     (if body_size tag = 0 then []
      else [Node tag lineno Val_none no_sema no_trans (concat (take (body_size tag) args))])"

section \<open>The grammar\<close>

text \<open>
  Derivation trees of \<open>syntax.y\<close>: one constructor per production of an expression, a statement
  or a definition, with the line of the token the action uses; the list nonterminals are lists.
  A terminal is its line and its text or value.
\<close>

type_synonym id_tok = "int \<times> string"
type_synonym int_tok = "int \<times> cint"
type_synonym float_tok = "int \<times> f32"

datatype Exp_p =
    Assign_p int Exp_p Exp_p
  | And_p int Exp_p Exp_p
  | Or_p int Exp_p Exp_p
  | Relop_p int string Exp_p Exp_p
  | Binary_p int string Exp_p Exp_p
  | Idx_p int Exp_p Exp_p
  | Field_p int Exp_p id_tok
  | Paren_p Exp_p
  | Unary_p int string Exp_p
  | Call_p id_tok "Exp_p list"
  | Id_p id_tok
  | Int_p int_tok
  | Float_p float_tok

datatype VarDec_p = Vid_p id_tok | Varray_p VarDec_p int_tok

datatype Specifier_p =
    Type_p id_tok
  | Struct_def_p int "id_tok option" "Def_p list"
  | Struct_id_p int id_tok
and Def_p = Def_p Specifier_p "(VarDec_p \<times> Exp_p option) list"

datatype Stmt_p =
    Exp_stmt_p Exp_p
  | Compst_p int "Def_p list" "Stmt_p list"
  | Return_p int Exp_p
  | If_p int Exp_p Stmt_p
  | If_else_p int Exp_p Stmt_p Stmt_p
  | While_p int Exp_p Stmt_p
  | For_p int Exp_p Exp_p Exp_p Stmt_p

datatype ExtDef_p =
    Ext_vars_p Specifier_p "VarDec_p list"
  | Ext_spec_p Specifier_p
  | Ext_func_p Specifier_p id_tok "(Specifier_p \<times> VarDec_p) list" int "Def_p list" "Stmt_p list"

subsection \<open>Terminals, as the lexer builds them\<close>

definition id_node :: "id_tok \<Rightarrow> Node" where
  "id_node t = Node TERM_ID (fst t) (Val_s (snd t)) no_sema no_trans []"

definition int_node :: "int_tok \<Rightarrow> Node" where
  "int_node t = Node TERM_INT (fst t) (Val_i (snd t)) no_sema no_trans []"

definition float_node :: "float_tok \<Rightarrow> Node" where
  "float_node t = Node TERM_FLOAT (fst t) (Val_f (snd t)) no_sema no_trans []"

subsection \<open>The actions\<close>

text \<open>\<open>$$->lineno\<close> of a node that was just built.\<close>

definition lineno_of :: "Node list \<Rightarrow> int" where
  "lineno_of nds = (case nds of [] \<Rightarrow> 0 | nd # _ \<Rightarrow> nd_lineno nd)"

fun act_exp :: "Exp_p \<Rightarrow> Node list" where
  "act_exp (Assign_p l a b) = create_tree EXP_is_ASSIGN l [act_exp a, act_exp b]"
| "act_exp (And_p l a b) = create_tree EXP_is_AND l [act_exp a, act_exp b]"
| "act_exp (Or_p l a b) = create_tree EXP_is_OR l [act_exp a, act_exp b]"
| "act_exp (Relop_p l s a b) = map (set_val (Val_s s)) (create_tree EXP_is_RELOP l [act_exp a, act_exp b])"
| "act_exp (Binary_p l s a b) = map (set_val (Val_s s)) (create_tree EXP_is_BINARY l [act_exp a, act_exp b])"
| "act_exp (Idx_p l a b) = create_tree EXP_is_EXP_IDX l [act_exp a, act_exp b]"
| "act_exp (Field_p l a f) = create_tree EXP_is_EXP_FIELD l [act_exp a, [id_node f]]"
| "act_exp (Paren_p a) = act_exp a"
| "act_exp (Unary_p l s a) = map (set_val (Val_s s)) (create_tree EXP_is_UNARY l [act_exp a])"
| "act_exp (Call_p f args) = create_tree EXP_is_ID_ARG (fst f) [[id_node f], concat (map act_exp args)]"
| "act_exp (Id_p t) = create_tree EXP_is_ID (fst t) [[id_node t]]"
| "act_exp (Int_p t) = create_tree EXP_is_INT (fst t) [[int_node t]]"
| "act_exp (Float_p t) = create_tree EXP_is_FLOAT (fst t) [[float_node t]]"

fun act_vardec :: "VarDec_p \<Rightarrow> Node list" where
  "act_vardec (Vid_p t) = create_tree VARDEC_is_ID (fst t) [[id_node t]]"
| "act_vardec (Varray_p v n) = create_tree VARDEC_is_VARDEC_SIZE (lineno_of (act_vardec v)) [act_vardec v, [int_node n]]"

definition act_dec :: "VarDec_p \<times> Exp_p option \<Rightarrow> Node list" where
  "act_dec d =
     (let v = act_vardec (fst d) in
      case snd d of
        None \<Rightarrow> create_tree DEC_is_VARDEC (lineno_of v) [v]
      | Some e \<Rightarrow> create_tree DEC_is_VARDEC_INITIALIZATION (lineno_of v) [v, act_exp e])"

fun act_spec :: "Specifier_p \<Rightarrow> Node list"
  and act_def :: "Def_p \<Rightarrow> Node list" where
  "act_spec (Type_p t) = create_tree SPEC_is_TYPE (fst t) [[id_node t]]"
| "act_spec (Struct_def_p l (Some t) ds) =
     create_tree SPEC_is_STRUCT l [create_tree STRUCT_is_ID_DEF l [[id_node t], concat (map act_def ds)]]"
| "act_spec (Struct_def_p l None ds) =
     create_tree SPEC_is_STRUCT l [create_tree STRUCT_is_DEF l [concat (map act_def ds)]]"
| "act_spec (Struct_id_p l t) = create_tree SPEC_is_STRUCT l [create_tree STRUCT_is_ID l [[id_node t]]]"
| "act_def (Def_p s ds) = create_tree DEF_is_SPEC_DEC (lineno_of (act_spec s)) [act_spec s, concat (map act_dec ds)]"

fun act_stmt :: "Stmt_p \<Rightarrow> Node list" where
  "act_stmt (Exp_stmt_p e) = create_tree STMT_is_EXP (lineno_of (act_exp e)) [act_exp e]"
| "act_stmt (Compst_p l ds ss) =
     create_tree STMT_is_COMPST l
       [create_tree COMPST_is_DEF_STMT l [concat (map act_def ds), concat (map act_stmt ss)]]"
| "act_stmt (Return_p l e) = create_tree STMT_is_RETURN l [act_exp e]"
| "act_stmt (If_p l c s) = create_tree STMT_is_IF l [act_exp c, act_stmt s]"
| "act_stmt (If_else_p l c s t) = create_tree STMT_is_IF_ELSE l [act_exp c, act_stmt s, act_stmt t]"
| "act_stmt (While_p l c s) = create_tree STMT_is_WHILE l [act_exp c, act_stmt s]"
| "act_stmt (For_p l a b c s) = create_tree STMT_is_FOR l [act_exp a, act_exp b, act_exp c, act_stmt s]"

text \<open>\<open>ExtDecList\<close>: only the last declarator gets an \<open>EXTDEC_is_VARDEC\<close> node.\<close>

fun act_extdecs :: "VarDec_p list \<Rightarrow> Node list" where
  "act_extdecs [] = []"
| "act_extdecs [v] = create_tree EXTDEC_is_VARDEC (lineno_of (act_vardec v)) [act_vardec v]"
| "act_extdecs (v # vs) = act_vardec v @ act_extdecs vs"

definition act_param :: "Specifier_p \<times> VarDec_p \<Rightarrow> Node list" where
  "act_param p =
     create_tree VAR_is_SPEC_VARDEC (lineno_of (act_spec (fst p))) [act_spec (fst p), act_vardec (snd p)]"

fun act_extdef :: "ExtDef_p \<Rightarrow> Node list" where
  "act_extdef (Ext_vars_p s vs) =
     create_tree EXTDEF_is_SPEC_EXTDEC (lineno_of (act_spec s)) [act_spec s, act_extdecs vs]"
| "act_extdef (Ext_spec_p s) = create_tree EXTDEF_is_SPEC (lineno_of (act_spec s)) [act_spec s]"
| "act_extdef (Ext_func_p s f ps l ds ss) =
     create_tree EXTDEF_is_SPEC_FUNC_COMPST (lineno_of (act_spec s))
       [act_spec s,
        create_tree FUNC_is_ID_VAR (fst f) [[id_node f], concat (map act_param ps)],
        create_tree COMPST_is_DEF_STMT l [concat (map act_def ds), concat (map act_stmt ss)]]"

text \<open>\<open>Program\<close> reads the line of the first definition, so an empty program is undefined.\<close>

definition act_program :: "ExtDef_p list \<Rightarrow> Node option" where
  "act_program ds =
     (case concat (map act_extdef ds) of
       [] \<Rightarrow> None
     | nd # nds \<Rightarrow> Some (hd (create_tree PROG_is_EXTDEF (nd_lineno nd) [nd # nds])))"

section \<open>Walking a tree\<close>

text \<open>Visiting a chain from its first node to its last.\<close>

primrec visit_all :: "('n \<Rightarrow> 's \<Rightarrow> ('n \<times> 's) option) \<Rightarrow> 'n list \<Rightarrow> 's \<Rightarrow> ('n list \<times> 's) option" where
  "visit_all visit [] st = Some ([], st)"
| "visit_all visit (nd # sibling) st =
     do {
       (nd, st) \<leftarrow> visit nd st;
       (sibling, st) \<leftarrow> visit_all visit sibling st;
       Some (nd # sibling, st)
     }"

lemma size_upd [simp]:
  "size (upd_sema f nd) = size nd" "size (upd_trans g nd) = size nd" "size (set_val v nd) = size nd"
  by (cases nd; simp)+

lemma size_in_child: "c \<in> set (nd_child nd) \<Longrightarrow> size c < size nd"
  by (cases nd) (auto simp: less_Suc_eq_le intro: size_list_estimation')

lemma size_child: "child k nd = Some c \<Longrightarrow> size c < size nd"
  by (auto simp: child_def intro: size_in_child)

lemma visit_all_cong [fundef_cong]:
  assumes "xs = ys" and "st = st'" and "\<And>n s. n \<in> set ys \<Longrightarrow> f n s = g n s"
  shows "visit_all f xs st = visit_all g ys st'"
  using assms(3) unfolding assms(1,2)
  by (induction ys arbitrary: st') (auto intro!: Option.bind_cong)

lemma child_set [simp]:
  "child k (upd_sema f nd) = child k nd" "nd_child (set_child cs nd) = cs"
  "nd_child (upd_sema f nd) = nd_child nd" "nd_child (put_child j c nd) = (nd_child nd)[j := c]"
  by (cases nd; simp add: child_def put_child_def)+

lemma child_put_child:
  "child k (put_child j c nd) = (if k = j \<and> j < length (nd_child nd) then Some c else child k nd)"
  by (auto simp: child_def array_get_def)

lemma nd_tag_upd [simp]:
  "nd_tag (upd_sema f nd) = nd_tag nd" "nd_tag (upd_trans g nd) = nd_tag nd"
  "nd_tag (set_child cs nd) = nd_tag nd" "nd_tag (put_child k c nd) = nd_tag nd"
  by (cases nd; simp add: put_child_def)+

lemma child_upd_trans [simp]: "child k (upd_trans g nd) = child k nd" "nd_child (upd_trans g nd) = nd_child nd"
  by (cases nd; simp add: child_def)+

end
