(* ===== verification/Semantic.thy ===== *)
theory Semantic
  imports Ast
begin

text \<open>
  The semantic analysis: \<open>semantic.c\<close>. Each visitor is a definition that takes the recursive
  call \<open>visit\<close> (the macro \<open>sema_visit\<close>), the node and the state, and returns the node with its
  attributes written; \<open>sema_visitors\<close> is the table that the macro indexes with the tag.
\<close>

section \<open>The state\<close>

text \<open>
  The globals of \<open>semantic.c\<close> next to those of the symbol table. \<open>next_type\<close> numbers the
  descriptors \<open>new_type\<close> allocates, and \<open>sema_log\<close> is what has been written to \<open>stderr\<close>.
\<close>

record sema_state = symtab_state +
  semantic_error :: bool
  is_in_struct :: bool
  offset :: cint
  next_type :: nat
  sema_log :: "(int \<times> string) list"

type_synonym sema_visitor = "Node \<Rightarrow> sema_state \<Rightarrow> (Node \<times> sema_state) option"

definition SEMA_ERROR_MSG :: "int \<Rightarrow> string \<Rightarrow> sema_state \<Rightarrow> sema_state" where
  "SEMA_ERROR_MSG lineno msg st = st\<lparr>semantic_error := True, sema_log := sema_log st @ [(lineno, msg)]\<rparr>"

definition error_if :: "bool \<Rightarrow> int \<Rightarrow> string \<Rightarrow> sema_state \<Rightarrow> sema_state" where
  "error_if b lineno msg st = (if b then SEMA_ERROR_MSG lineno msg st else st)"

text \<open>The address of a new descriptor.\<close>

definition new_type :: "sema_state \<Rightarrow> nat \<times> sema_state" where
  "new_type st = (next_type st, st\<lparr>next_type := Suc (next_type st)\<rparr>)"

definition quoted :: "string \<Rightarrow> string" where
  "quoted s = [CHR 0x22] @ s @ [CHR 0x22]"

definition squoted :: "string \<Rightarrow> string" where
  "squoted s = [CHR 0x27] @ s @ [CHR 0x27]"

section \<open>Declarations\<close>

definition vardec_is_id :: "sema_visitor \<Rightarrow> sema_visitor" where
  "vardec_is_id visit vardec st =
     do {
       id \<leftarrow> child 0 vardec;
       s \<leftarrow> val_s id;
       Some (upd_sema (\<lambda>a. a\<lparr>sema_name := Some s, sema_lineno := nd_lineno id\<rparr>) vardec, st)
     }"

definition vardec_is_vardec_size :: "sema_visitor \<Rightarrow> sema_visitor" where
  "vardec_is_vardec_size visit vardec st =
     do {
       sub_vardec \<leftarrow> child 0 vardec;
       size \<leftarrow> child 1 vardec;
       let (addr, st) = new_type st;
       n \<leftarrow> val_i size;
       base \<leftarrow> nd_type vardec;
       ts \<leftarrow> type_size base;
       total \<leftarrow> cmul n ts;
       (sub_vardec, st) \<leftarrow> visit (set_type (Some (Array_of addr base n total)) sub_vardec) st;
       Some (set_sema (nd_sema sub_vardec) (put_child 0 sub_vardec vardec), st)
     }"

text \<open>
  Entering a declared name into the innermost scope and giving it the running offset. A
  redefinition is reported, and then the null pointer is dereferenced, so the run is undefined.
\<close>

definition declare_symbol :: "string option \<Rightarrow> Type option \<Rightarrow> int \<Rightarrow> sema_state \<Rightarrow> sema_state option" where
  "declare_symbol name type line st =
     do {
       name \<leftarrow> name;
       (symbol, st) \<leftarrow> insert_top name type line st;
       place \<leftarrow> symbol;
       table \<leftarrow> get_symtab_top st;
       t \<leftarrow> type;
       ts \<leftarrow> type_size t;
       off \<leftarrow> cadd (offset st) ts;
       Some (st\<lparr>scopes := butlast (scopes st) @ [update_at place (set_symbol_offset (offset st)) table],
                offset := off\<rparr>)
     }"

definition dec_is_vardec :: "sema_visitor \<Rightarrow> sema_visitor" where
  "dec_is_vardec visit dec st =
     do {
       vardec \<leftarrow> child 0 dec;
       (vardec, st) \<leftarrow> visit (set_type (nd_type dec) vardec) st;
       let a = nd_sema vardec;
       st \<leftarrow> declare_symbol (sema_name a) (sema_type a) (sema_lineno a) st;
       Some (set_sema a (put_child 0 vardec dec), st)
     }"

definition dec_is_vardec_initialization :: "sema_visitor \<Rightarrow> sema_visitor" where
  "dec_is_vardec_initialization visit dec st =
     do {
       (dec, st) \<leftarrow> dec_is_vardec visit dec st;
       if is_in_struct st then
         Some (dec, SEMA_ERROR_MSG (nd_lineno dec) ''Initialization in the structure definition is not allowed'' st)
       else
         do {
           init \<leftarrow> child 1 dec;
           (init, st) \<leftarrow> visit init st;
           same \<leftarrow> typecmp_ptr (nd_type init) (nd_type dec);
           Some (put_child 1 init dec, error_if (\<not> same) (nd_lineno init) ''Type mismatch'' st)
         }
     }"

definition def_is_spec_dec :: "sema_visitor \<Rightarrow> sema_visitor" where
  "def_is_spec_dec visit def st =
     do {
       spec \<leftarrow> child 0 def;
       (spec, st) \<leftarrow> visit spec st;
       type \<leftarrow> nd_type spec;
       ts \<leftarrow> type_size type;
       _ \<leftarrow> c_assert (ts \<noteq> 0);
       (decs, st) \<leftarrow> visit_all (\<lambda>dec. visit (set_type (Some type) dec)) (tl (nd_child def)) st;
       Some (set_child (spec # decs) def, st)
     }"

section \<open>Specifiers\<close>

primrec is_struct_name :: "Type \<Rightarrow> Type option" where
  "is_struct_name Basic_INT = None"
| "is_struct_name Basic_FLOAT = None"
| "is_struct_name (Array_of _ _ _ _) = None"
| "is_struct_name (Struct_of _ _ _ _ _) = None"
| "is_struct_name (Func_of _ _ _ _) = None"
| "is_struct_name (Meta_of _ _ meta _) = (if class_of meta = CMM_STRUCT then Some meta else None)"

definition struct_is_id :: "sema_visitor \<Rightarrow> sema_visitor" where
  "struct_is_id visit struc st =
     do {
       id \<leftarrow> child 0 struc;
       s \<leftarrow> val_s id;
       ent \<leftarrow> query s st;
       Some (case Option.bind ent (is_struct_name \<circ> symbol_type) of
               None \<Rightarrow> (struc, SEMA_ERROR_MSG (nd_lineno id) (''Undefined struct name '' @ squoted s) st)
             | Some meta \<Rightarrow> (set_type (Some meta) struc, st))
     }"

text \<open>The name of a structure is entered with a meta type.\<close>

definition register_struct :: "string \<Rightarrow> Type \<Rightarrow> int \<Rightarrow> sema_state \<Rightarrow> sema_state option" where
  "register_struct name this lineno st =
     do {
       let (addr, st) = new_type st;
       (symbol, st) \<leftarrow> insert_top name (Some (Meta_of addr name this lineno)) lineno st;
       Some (error_if (symbol = None) lineno (''Duplicated name '' @ quoted name @ ''.'') st)
     }"

definition struct_is_id_def :: "sema_visitor \<Rightarrow> sema_visitor" where
  "struct_is_id_def visit struc st =
     do {
       let saved_offset = offset st;
       st \<leftarrow> new_symtab (st\<lparr>is_in_struct := True, offset := 0\<rparr>);
       name \<leftarrow> (if nd_tag struc = STRUCT_is_DEF then Some []
                else do { id \<leftarrow> child 0 struc; val_s id });
       let k = (if nd_tag struc = STRUCT_is_DEF then 0 else 1);
       let (addr, st) = new_type st;
       (defs, st) \<leftarrow> visit_all visit (drop k (nd_child struc)) st;
       let (table, st) = pop_symtab st;
       let this = Struct_of addr name (case table of None \<Rightarrow> Field [] | Some t \<Rightarrow> Field_table t)
                    (offset st) (nd_lineno struc);
       st \<leftarrow> (if nd_tag struc = STRUCT_is_ID_DEF then register_struct name this (nd_lineno struc) st else Some st);
       Some (set_type (Some this) (set_child (take k (nd_child struc) @ defs) struc),
             st\<lparr>is_in_struct := False, offset := saved_offset\<rparr>)
     }"

definition spec_is_type :: "sema_visitor \<Rightarrow> sema_visitor" where
  "spec_is_type visit spec st =
     do {
       id \<leftarrow> child 0 spec;
       type_name \<leftarrow> val_s id;
       Some (if type_name = ''int'' then set_type (Some Basic_INT) spec
             else if type_name = ''float'' then set_type (Some Basic_FLOAT) spec
             else spec, st)
     }"

definition spec_is_struct :: "sema_visitor \<Rightarrow> sema_visitor" where
  "spec_is_struct visit spec st =
     do {
       struc \<leftarrow> child 0 spec;
       (struc, st) \<leftarrow> visit struc st;
       Some (set_sema (nd_sema struc) (put_child 0 struc spec), st)
     }"

section \<open>Functions\<close>

definition var_is_spec_vardec :: "sema_visitor \<Rightarrow> sema_visitor" where
  "var_is_spec_vardec visit paramdec st =
     do {
       spec \<leftarrow> child 0 paramdec;
       vardec \<leftarrow> child 1 paramdec;
       (spec, st) \<leftarrow> visit spec st;
       (vardec, st) \<leftarrow> visit (set_type (nd_type spec) vardec) st;
       let a = nd_sema vardec;
       st \<leftarrow> declare_symbol (sema_name a) (sema_type a) (nd_lineno paramdec) st;
       Some (set_sema a (put_child 1 vardec (put_child 0 spec paramdec)), st)
     }"

text \<open>The visited parameters and the list of their names and types.\<close>

primrec get_params :: "sema_visitor \<Rightarrow> Node list \<Rightarrow> sema_state \<Rightarrow>
    ((string \<times> Type) list \<times> Node list \<times> sema_state) option" where
  "get_params visit [] st = Some ([], [], st)"
| "get_params visit (var # sibling) st =
     do {
       (var, st) \<leftarrow> visit var st;
       (sub_list, sibling, st) \<leftarrow> get_params visit sibling st;
       name \<leftarrow> sema_name (nd_sema var);
       type \<leftarrow> nd_type var;
       Some ((name, type) # sub_list, var # sibling, st)
     }"

text \<open>\<open>func->param = \<dots>\<close>: every symbol whose type is the descriptor sees the store.\<close>

definition set_param :: "nat \<Rightarrow> (string \<times> Type) list \<Rightarrow> sema_state \<Rightarrow> sema_state" where
  "set_param addr params st =
     (let store = (\<lambda>s. case symbol_type s of
            Func_of a name ret _ \<Rightarrow> if a = addr then set_symbol_type (Func_of a name ret params) s else s
          | _ \<Rightarrow> s)
      in st\<lparr>scopes := map (map (map store)) (scopes st)\<rparr>)"

definition func_is_id_var :: "sema_visitor \<Rightarrow> sema_visitor" where
  "func_is_id_var visit fundec st =
     do {
       _ \<leftarrow> c_assert (nd_tag fundec = FUNC_is_ID_VAR);
       id \<leftarrow> child 0 fundec;
       name \<leftarrow> val_s id;
       let (addr, st) = new_type st;
       (symbol, st) \<leftarrow> insert_top name (Some (Func_of addr name (nd_type fundec) [])) (nd_lineno fundec) st;
       let st = error_if (symbol = None) (nd_lineno fundec) (''Redefined function '' @ quoted name) st;
       st \<leftarrow> new_symtab st;
       (params, vars, st) \<leftarrow> get_params visit (tl (nd_child fundec)) st;
       Some (set_child (id # vars) fundec, set_param addr params st)
     }"

section \<open>Expressions\<close>

definition is_lval :: "Node \<Rightarrow> sema_state \<Rightarrow> bool option" where
  "is_lval exp st =
     (if nd_tag exp = EXP_is_ID then
        do {
          id \<leftarrow> child 0 exp;
          s \<leftarrow> val_s id;
          ent \<leftarrow> query s st;
          Some (case ent of
                  None \<Rightarrow> False
                | Some e \<Rightarrow> class_of (symbol_type e) \<noteq> CMM_FUNC \<and> class_of (symbol_type e) \<noteq> CMM_TYPE \<and>
                            class_of (symbol_type e) \<noteq> CMM_ARRAY)
        }
      else Some (nd_tag exp = EXP_is_EXP_IDX \<or> nd_tag exp = EXP_is_EXP_FIELD))"

definition exp_is_unary :: "sema_visitor \<Rightarrow> sema_visitor" where
  "exp_is_unary visit exp st =
     do {
       sub \<leftarrow> child 0 exp;
       (sub, st) \<leftarrow> visit sub st;
       let exp = put_child 0 sub exp;
       is_int \<leftarrow> typecmp_ptr (nd_type sub) (Some Basic_INT);
       if is_int then Some (set_type (nd_type sub) exp, st)
       else
         do {
           is_float \<leftarrow> typecmp_ptr (nd_type sub) (Some Basic_FLOAT);
           c \<leftarrow> operator0 exp;
           s \<leftarrow> val_s exp;
           if is_float \<and> c = CHR ''!''
           then Some (exp, SEMA_ERROR_MSG (nd_lineno exp) (quoted ''!'' @ '' cannot cast on float'') st)
           else Some (exp, SEMA_ERROR_MSG (nd_lineno exp) (quoted s @ '' cannot case on unbasic type'') st)
         }
     }"

definition exp_is_binary :: "sema_visitor \<Rightarrow> sema_visitor" where
  "exp_is_binary visit exp st =
     do {
       lexp \<leftarrow> child 0 exp;
       rexp \<leftarrow> child 1 exp;
       (lexp, st) \<leftarrow> visit lexp st;
       (rexp, st) \<leftarrow> visit rexp st;
       let exp = put_child 1 rexp (put_child 0 lexp exp);
       same \<leftarrow> typecmp_ptr (nd_type lexp) (nd_type rexp);
       if \<not> same then Some (exp, SEMA_ERROR_MSG (nd_lineno exp) ''Type mismatched for operands'' st)
       else
         do {
           is_int \<leftarrow> typecmp_ptr (nd_type lexp) (Some Basic_INT);
           is_float \<leftarrow> typecmp_ptr (nd_type lexp) (Some Basic_FLOAT);
           if \<not> is_int \<and> \<not> is_float then
             do {
               s \<leftarrow> val_s exp;
               Some (exp, SEMA_ERROR_MSG (nd_lineno exp) (''The type is not allowed in operation '' @ squoted s) st)
             }
           else Some (set_type (nd_type lexp) exp, st)
         }
     }"

definition exp_is_assign :: "sema_visitor \<Rightarrow> sema_visitor" where
  "exp_is_assign visit exp st =
     do {
       lexp \<leftarrow> child 0 exp;
       rexp \<leftarrow> child 1 exp;
       (lexp, st) \<leftarrow> visit lexp st;
       (rexp, st) \<leftarrow> visit rexp st;
       same \<leftarrow> typecmp_ptr (nd_type lexp) (nd_type rexp);
       st \<leftarrow> (if \<not> same then Some (SEMA_ERROR_MSG (nd_lineno exp) ''Type mismatched for assignment.'' st)
              else do {
                lval \<leftarrow> is_lval lexp st;
                Some (error_if (\<not> lval) (nd_lineno exp)
                  ''The left-hand side of an assignment must be a variable.'' st)
              });
       Some (set_type (nd_type lexp) (put_child 1 rexp (put_child 0 lexp exp)), st)
     }"

fun array_base :: "Type \<Rightarrow> Type option" where
  "array_base (Array_of _ base _ _) = Some base"
| "array_base _ = None"

definition exp_is_exp_idx :: "sema_visitor \<Rightarrow> sema_visitor" where
  "exp_is_exp_idx visit exp st =
     do {
       lexp \<leftarrow> child 0 exp;
       rexp \<leftarrow> child 1 exp;
       (lexp, st) \<leftarrow> visit lexp st;
       (rexp, st) \<leftarrow> visit rexp st;
       let exp = put_child 1 rexp (put_child 0 lexp exp);
       let st = error_if (case nd_type rexp of None \<Rightarrow> False | Some t \<Rightarrow> class_of t \<noteq> CMM_INT)
                  (nd_lineno rexp) ''expression is not a integer'' st;
       Some (case nd_type lexp of
               None \<Rightarrow> (exp, st)
             | Some t \<Rightarrow>
                 (case array_base t of
                   None \<Rightarrow> (exp, SEMA_ERROR_MSG (nd_lineno lexp) ''expression is not an array.'' st)
                 | Some base \<Rightarrow> (set_type (Some base) exp, st)))
     }"

fun check_param_list :: "sema_visitor \<Rightarrow> (string \<times> Type) list \<Rightarrow> Node list \<Rightarrow> int \<Rightarrow> sema_state \<Rightarrow>
    (Node list \<times> sema_state) option" where
  "check_param_list visit (param # params) (arg # args) lineno st =
     do {
       (arg, st) \<leftarrow> visit arg st;
       same \<leftarrow> typecmp_ptr (nd_type arg) (Some (snd param));
       let st = error_if (\<not> same) (nd_lineno arg) ''parameter type mismatches'' st;
       (args, st) \<leftarrow> check_param_list visit params args lineno st;
       Some (arg # args, st)
     }"
| "check_param_list visit params args lineno st =
     Some (args, error_if (\<not> (params = [] \<and> args = [])) lineno ''parameter number mismatches'' st)"

fun func_sig :: "Type \<Rightarrow> ((string \<times> Type) list \<times> Type option) option" where
  "func_sig (Func_of _ _ ret param) = Some (param, ret)"
| "func_sig _ = None"

definition exp_is_id_arg :: "sema_visitor \<Rightarrow> sema_visitor" where
  "exp_is_id_arg visit exp st =
     do {
       id \<leftarrow> child 0 exp;
       s \<leftarrow> val_s id;
       query_result \<leftarrow> query s st;
       case query_result of
         None \<Rightarrow> Some (exp, SEMA_ERROR_MSG (nd_lineno id) (''Undefined function '' @ quoted s @ ''.'') st)
       | Some ent \<Rightarrow>
           (case func_sig (symbol_type ent) of
             None \<Rightarrow> Some (exp, SEMA_ERROR_MSG (nd_lineno id) (quoted s @ '' is not a function.'') st)
           | Some (param, ret) \<Rightarrow>
               do {
                 (args, st) \<leftarrow> check_param_list visit param (tl (nd_child exp)) (nd_lineno exp) st;
                 Some (set_type ret (set_child (id # args) exp), st)
               })
     }"

text \<open>The table of a structure's fields and its name, for the message.\<close>

fun struct_table :: "Type \<Rightarrow> (Fields \<times> string) option" where
  "struct_table (Struct_of _ name flds _ _) = Some (flds, name)"
| "struct_table _ = None"

definition field_table :: "Fields \<Rightarrow> symtab option" where
  "field_table flds = (case flds of Field_table t \<Rightarrow> Some t | Field _ \<Rightarrow> None)"

definition exp_is_exp_field :: "sema_visitor \<Rightarrow> sema_visitor" where
  "exp_is_exp_field visit exp st =
     do {
       struc \<leftarrow> child 0 exp;
       (struc, st) \<leftarrow> visit struc st;
       let exp = put_child 0 struc exp;
       t \<leftarrow> nd_type struc;
       case struct_table t of
         None \<Rightarrow> Some (exp, SEMA_ERROR_MSG (nd_lineno exp) (''The left identifier of '' @ squoted ''.'' @ '' is not a struct'') st)
       | Some (flds, name) \<Rightarrow>
           do {
             field \<leftarrow> child 1 exp;
             f \<leftarrow> val_s field;
             table \<leftarrow> field_table flds;
             field_symbol \<leftarrow> query_without_fallback f table;
             Some (case field_symbol of
                     None \<Rightarrow> (exp, SEMA_ERROR_MSG (nd_lineno field)
                               (''Undefined field '' @ quoted f @ '' in struct '' @ quoted name @ ''.'') st)
                   | Some ent \<Rightarrow> (set_type (Some (symbol_type ent)) exp, st))
           }
     }"

definition exp_is_id :: "sema_visitor \<Rightarrow> sema_visitor" where
  "exp_is_id visit exp st =
     do {
       id \<leftarrow> child 0 exp;
       s \<leftarrow> val_s id;
       query_result \<leftarrow> query s st;
       Some (case query_result of
               None \<Rightarrow> (exp, SEMA_ERROR_MSG (nd_lineno id) (''Undefined variable '' @ quoted s) st)
             | Some ent \<Rightarrow>
                 if class_of (symbol_type ent) = CMM_TYPE
                 then (exp, SEMA_ERROR_MSG (nd_lineno id) (''Cannot resovle variable '' @ quoted s) st)
                 else (set_type (Some (symbol_type ent)) exp, st))
     }"

definition exp_is_int :: "sema_visitor \<Rightarrow> sema_visitor" where
  "exp_is_int visit exp st = Some (set_type (Some Basic_INT) exp, st)"

definition exp_is_float :: "sema_visitor \<Rightarrow> sema_visitor" where
  "exp_is_float visit exp st = Some (set_type (Some Basic_FLOAT) exp, st)"

section \<open>Statements\<close>

definition stmt_is_return :: "sema_visitor \<Rightarrow> sema_visitor" where
  "stmt_is_return visit stmt st =
     do {
       exp \<leftarrow> child 0 stmt;
       (exp, st) \<leftarrow> visit exp st;
       same \<leftarrow> typecmp_ptr (nd_type exp) (nd_type stmt);
       Some (put_child 0 exp stmt, error_if (\<not> same) (nd_lineno exp) ''Type mismatched for return.'' st)
     }"

definition stmt_is_for :: "sema_visitor \<Rightarrow> sema_visitor" where
  "stmt_is_for visit stmt st =
     do {
       init \<leftarrow> child 0 stmt;
       (init, st) \<leftarrow> visit init st;
       let st = error_if (nd_tag init \<noteq> EXP_is_ASSIGN) (nd_lineno init) ''No initialization in for loop'' st;
       cond \<leftarrow> child 1 stmt;
       (cond, st) \<leftarrow> visit cond st;
       same \<leftarrow> typecmp_ptr (nd_type cond) (Some Basic_INT);
       let st = error_if (\<not> same) (nd_lineno cond)
                  ''The expression type is not suitable for loop condition'' st;
       step \<leftarrow> child 2 stmt;
       (step, st) \<leftarrow> visit step st;
       loop \<leftarrow> child 3 stmt;
       (loop, st) \<leftarrow> visit loop st;
       Some (put_child 3 loop (put_child 2 step (put_child 1 cond (put_child 0 init stmt))), st)
     }"

definition stmt_is_while :: "sema_visitor \<Rightarrow> sema_visitor" where
  "stmt_is_while visit stmt st =
     do {
       cond \<leftarrow> child 0 stmt;
       loop \<leftarrow> child 1 stmt;
       (cond, st) \<leftarrow> visit cond st;
       same \<leftarrow> typecmp_ptr (nd_type cond) (Some Basic_INT);
       let st = error_if (\<not> same) (nd_lineno cond) ''The condition expression must return int'' st;
       (loop, st) \<leftarrow> visit (set_type (nd_type stmt) loop) st;
       Some (put_child 1 loop (put_child 0 cond stmt), st)
     }"

definition stmt_is_if :: "sema_visitor \<Rightarrow> sema_visitor" where
  "stmt_is_if visit stmt st =
     do {
       cond \<leftarrow> child 0 stmt;
       behav \<leftarrow> child 1 stmt;
       (cond, st) \<leftarrow> visit cond st;
       same \<leftarrow> typecmp_ptr (nd_type cond) (Some Basic_INT);
       let st = error_if (\<not> same) (nd_lineno stmt) ''The condition expression must return int'' st;
       (behav, st) \<leftarrow> visit (set_type (nd_type stmt) behav) st;
       Some (put_child 1 behav (put_child 0 cond stmt), st)
     }"

definition stmt_is_if_else :: "sema_visitor \<Rightarrow> sema_visitor" where
  "stmt_is_if_else visit stmt st =
     do {
       cond \<leftarrow> child 0 stmt;
       true_branch \<leftarrow> child 1 stmt;
       false_branch \<leftarrow> child 2 stmt;
       (cond, st) \<leftarrow> visit cond st;
       same \<leftarrow> typecmp_ptr (nd_type cond) (Some Basic_INT);
       let st = error_if (\<not> same) (nd_lineno stmt) ''The condition expression must return int'' st;
       (true_branch, st) \<leftarrow> visit (set_type (nd_type stmt) true_branch) st;
       (false_branch, st) \<leftarrow> visit (set_type (nd_type stmt) false_branch) st;
       Some (put_child 2 false_branch (put_child 1 true_branch (put_child 0 cond stmt)), st)
     }"

definition stmt_is_exp :: "sema_visitor \<Rightarrow> sema_visitor" where
  "stmt_is_exp visit stmt st =
     do {
       exp \<leftarrow> child 0 stmt;
       (exp, st) \<leftarrow> visit exp st;
       Some (put_child 0 exp stmt, st)
     }"

definition stmt_is_compst :: "sema_visitor \<Rightarrow> sema_visitor" where
  "stmt_is_compst visit stmt st =
     do {
       st \<leftarrow> new_symtab st;
       compst \<leftarrow> child 0 stmt;
       (compst, st) \<leftarrow> visit (set_type (nd_type stmt) compst) st;
       let (table, st) = pop_symtab st;
       Some (set_symtab table (put_child 0 compst stmt), st)
     }"

definition compst_is_def_stmt :: "sema_visitor \<Rightarrow> sema_visitor" where
  "compst_is_def_stmt visit compst st =
     do {
       (stmts, st) \<leftarrow> visit_all visit (nd_child compst) st;
       Some (set_child stmts compst, st)
     }"

section \<open>External definitions\<close>

definition extdec_vardec :: "sema_visitor \<Rightarrow> Type option \<Rightarrow> sema_visitor" where
  "extdec_vardec visit type vardec st =
     do {
       (vardec, st) \<leftarrow> visit (set_type type vardec) st;
       let a = nd_sema vardec;
       st \<leftarrow> declare_symbol (sema_name a) (sema_type a) (sema_lineno a) st;
       Some (vardec, st)
     }"

definition extdec_is_vardec :: "sema_visitor \<Rightarrow> sema_visitor" where
  "extdec_is_vardec visit extdec st =
     do {
       (vardecs, st) \<leftarrow> visit_all (extdec_vardec visit (nd_type extdec)) (nd_child extdec) st;
       Some (set_child vardecs extdec, st)
     }"

definition extdef_is_spec_extdec :: "sema_visitor \<Rightarrow> sema_visitor" where
  "extdef_is_spec_extdec visit extdef st =
     do {
       _ \<leftarrow> c_assert (nd_tag extdef = EXTDEF_is_SPEC_EXTDEC);
       spec \<leftarrow> child 0 extdef;
       extdec \<leftarrow> child 1 extdef;
       (spec, st) \<leftarrow> visit spec st;
       (extdec, st) \<leftarrow> visit (set_type (nd_type spec) extdec) st;
       Some (put_child 1 extdec (put_child 0 spec extdef), st)
     }"

definition extdef_is_spec :: "sema_visitor \<Rightarrow> sema_visitor" where
  "extdef_is_spec visit extdef st =
     do {
       _ \<leftarrow> c_assert (nd_tag extdef = EXTDEF_is_SPEC);
       spec \<leftarrow> child 0 extdef;
       (spec, st) \<leftarrow> visit spec st;
       Some (put_child 0 spec extdef, st)
     }"

definition extdef_is_spec_func_compst :: "sema_visitor \<Rightarrow> sema_visitor" where
  "extdef_is_spec_func_compst visit extdef st =
     do {
       spec \<leftarrow> child 0 extdef;
       func \<leftarrow> child 1 extdef;
       compst \<leftarrow> child 2 extdef;
       (spec, st) \<leftarrow> visit spec st;
       let saved_offset = offset st;
       (func, st) \<leftarrow> visit (set_type (nd_type spec) func) (st\<lparr>offset := 0\<rparr>);
       (compst, st) \<leftarrow> visit (set_type (nd_type spec) compst) st;
       let (table, st) = pop_symtab (st\<lparr>offset := saved_offset\<rparr>);
       Some (set_symtab table (put_child 2 compst (put_child 1 func (put_child 0 spec extdef))), st)
     }"

text \<open>The scope of the program with the two predefined functions.\<close>

definition predefine :: "sema_state \<Rightarrow> sema_state option" where
  "predefine st =
     do {
       st \<leftarrow> new_symtab (init_symtab st);
       let (read, st) = new_type st;
       (_, st) \<leftarrow> insert_top ''read'' (Some (Func_of read ''read'' (Some Basic_INT) [])) (- 1) st;
       let (write, st) = new_type st;
       (_, st) \<leftarrow> insert_top ''write'' (Some (Func_of write ''write'' None [(''o'', Basic_INT)])) (- 1) st;
       Some st
     }"

definition prog_is_extdef :: "sema_visitor \<Rightarrow> sema_visitor" where
  "prog_is_extdef visit prog st =
     do {
       st \<leftarrow> predefine st;
       (extdefs, st) \<leftarrow> visit_all visit (nd_child prog) st;
       _ \<leftarrow> c_assert (sema_symtab (nd_sema prog) = None);
       let (table, st) = pop_symtab st;
       _ \<leftarrow> c_assert (table \<noteq> None);
       Some (set_symtab table (set_child extdefs prog), st)
     }"

section \<open>Dispatch\<close>

text \<open>The table of visitors: a tag without visitor is a call through a null pointer.\<close>

fun sema_visitors :: "ProductionTag \<Rightarrow> (sema_visitor \<Rightarrow> sema_visitor)" where
  "sema_visitors PROG_is_EXTDEF = prog_is_extdef"
| "sema_visitors EXTDEF_is_SPEC_EXTDEC = extdef_is_spec_extdec"
| "sema_visitors EXTDEF_is_SPEC = extdef_is_spec"
| "sema_visitors EXTDEF_is_SPEC_FUNC_COMPST = extdef_is_spec_func_compst"
| "sema_visitors EXTDEC_is_VARDEC = extdec_is_vardec"
| "sema_visitors SPEC_is_TYPE = spec_is_type"
| "sema_visitors SPEC_is_STRUCT = spec_is_struct"
| "sema_visitors STRUCT_is_ID = struct_is_id"
| "sema_visitors STRUCT_is_DEF = struct_is_id_def"
| "sema_visitors STRUCT_is_ID_DEF = struct_is_id_def"
| "sema_visitors FUNC_is_ID_VAR = func_is_id_var"
| "sema_visitors VARDEC_is_ID = vardec_is_id"
| "sema_visitors VARDEC_is_VARDEC_SIZE = vardec_is_vardec_size"
| "sema_visitors VAR_is_SPEC_VARDEC = var_is_spec_vardec"
| "sema_visitors COMPST_is_DEF_STMT = compst_is_def_stmt"
| "sema_visitors DEF_is_SPEC_DEC = def_is_spec_dec"
| "sema_visitors DEC_is_VARDEC = dec_is_vardec"
| "sema_visitors DEC_is_VARDEC_INITIALIZATION = dec_is_vardec_initialization"
| "sema_visitors STMT_is_COMPST = stmt_is_compst"
| "sema_visitors STMT_is_EXP = stmt_is_exp"
| "sema_visitors STMT_is_IF = stmt_is_if"
| "sema_visitors STMT_is_IF_ELSE = stmt_is_if_else"
| "sema_visitors STMT_is_FOR = stmt_is_for"
| "sema_visitors STMT_is_WHILE = stmt_is_while"
| "sema_visitors STMT_is_RETURN = stmt_is_return"
| "sema_visitors EXP_is_INT = exp_is_int"
| "sema_visitors EXP_is_FLOAT = exp_is_float"
| "sema_visitors EXP_is_ID = exp_is_id"
| "sema_visitors EXP_is_ASSIGN = exp_is_assign"
| "sema_visitors EXP_is_EXP_IDX = exp_is_exp_idx"
| "sema_visitors EXP_is_ID_ARG = exp_is_id_arg"
| "sema_visitors EXP_is_EXP_FIELD = exp_is_exp_field"
| "sema_visitors EXP_is_UNARY = exp_is_unary"
| "sema_visitors EXP_is_BINARY = exp_is_binary"
| "sema_visitors EXP_is_RELOP = exp_is_binary"
| "sema_visitors _ = (\<lambda>visit nd st. None)"

text \<open>
  The macro: the visitor of the tag. A visitor only calls it on the children of its node, after
  writing their attributes; the guard says so, and the lemma below shows that it never fails.
\<close>

function sema_visit :: sema_visitor where
  "sema_visit nd st =
     sema_visitors (nd_tag nd) (\<lambda>m s. if size m < size nd then sema_visit m s else None) nd st"
  by pat_completeness auto
termination
  by (relation "measure (size \<circ> fst)") auto

declare sema_visit.simps [simp del]

definition analyze_program :: sema_visitor where
  "analyze_program prog st = sema_visit prog st"


section \<open>The recursion only descends\<close>

lemma get_params_cong:
  "(\<And>n s. n \<in> set vars \<Longrightarrow> f n s = g n s) \<Longrightarrow> get_params f vars st = get_params g vars st"
  by (induction vars arbitrary: st) (auto intro!: Option.bind_cong)

lemma check_param_list_cong:
  "(\<And>n s. n \<in> set args \<Longrightarrow> f n s = g n s) \<Longrightarrow>
     check_param_list f params args l st = check_param_list g params args l st"
  by (induction f params args l st rule: check_param_list.induct) (auto intro!: Option.bind_cong)

lemmas visitor_defs =
  vardec_is_id_def vardec_is_vardec_size_def dec_is_vardec_def dec_is_vardec_initialization_def
  def_is_spec_dec_def struct_is_id_def struct_is_id_def_def spec_is_type_def spec_is_struct_def
  var_is_spec_vardec_def func_is_id_var_def exp_is_unary_def exp_is_binary_def exp_is_assign_def
  exp_is_exp_idx_def exp_is_id_arg_def exp_is_exp_field_def exp_is_id_def exp_is_int_def
  exp_is_float_def stmt_is_return_def stmt_is_for_def stmt_is_while_def stmt_is_if_def
  stmt_is_if_else_def stmt_is_exp_def stmt_is_compst_def compst_is_def_stmt_def extdec_vardec_def
  extdec_is_vardec_def extdef_is_spec_extdec_def extdef_is_spec_def extdef_is_spec_func_compst_def
  prog_is_extdef_def

lemma dec_is_vardec_child:
  "dec_is_vardec f nd st = Some (dec, st') \<Longrightarrow> child 1 dec = child 1 nd"
  by (auto simp: dec_is_vardec_def bind_Some_iff Let_def child_put_child)

lemma visitors_cong:
  assumes f: "\<And>m s. size m < size nd \<Longrightarrow> f m s = g m s"
  shows "sema_visitors tag f nd st = sema_visitors tag g nd st"
proof -
  have tl: "f c s = g c s" if "c \<in> set (tl (nd_child nd))" for c s
    using that by (intro f size_in_child) (metis list.set_sel(2) tl_Nil)
  have drop: "f c s = g c s" if "c \<in> set (drop k (nd_child nd))" for c s k
    using that by (intro f size_in_child) (rule in_set_dropD)
  have all: "f c s = g c s" if "c \<in> set (nd_child nd)" for c s
    using that by (intro f size_in_child)
  have all': "f (upd_sema h c) s = g (upd_sema h c) s" if "c \<in> set (nd_child nd)" for c s h
    using that by (intro f) (simp add: size_in_child)
  have tl': "f (upd_sema h c) s = g (upd_sema h c) s" if "c \<in> set (tl (nd_child nd))" for c s h
    using that by (intro all') (metis list.set_sel(2) tl_Nil)
  have ch: "f c s = g c s" if "child k nd = Some c" for c s k
    using that by (intro f size_child)
  have ch': "f (upd_sema h c) s = g (upd_sema h c) s" if "child k nd = Some c" for c s h k
    using that by (intro f) (simp add: size_child)
  have dec: "dec_is_vardec f nd st = dec_is_vardec g nd st"
    by (simp add: dec_is_vardec_def ch' cong: Option.bind_cong)
  have init: "dec_is_vardec_initialization f nd st = dec_is_vardec_initialization g nd st"
    unfolding dec_is_vardec_initialization_def dec
    by (intro Option.bind_cong refl) (auto dest!: dec_is_vardec_child intro!: Option.bind_cong ch)
  have "get_params f (tl (nd_child nd)) s = get_params g (tl (nd_child nd)) s" for s
    by (rule get_params_cong) (rule tl)
  moreover have "check_param_list f ps (tl (nd_child nd)) l s = check_param_list g ps (tl (nd_child nd)) l s" for ps l s
    by (rule check_param_list_cong) (rule tl)
  ultimately show ?thesis
    by (cases tag)
      (simp_all add: init dec,
       simp_all add: visitor_defs ch ch' all all' tl tl' drop split_def Let_def cong: Option.bind_cong visit_all_cong option.case_cong prod.case_cong)
qed

lemma sema_visit_eq: "sema_visit nd st = sema_visitors (nd_tag nd) sema_visit nd st"
  by (subst sema_visit.simps) (rule visitors_cong, simp)

lemma sema_visit_Node [simp]:
  "sema_visit (Node t l v s a c) st = sema_visitors t sema_visit (Node t l v s a c) st"
  by (subst sema_visit_eq) simp

end
