(* ===== verification/Translate.thy ===== *)
theory Translate
  imports Asm Semantic
begin

text \<open>
  The translation of the annotated syntax tree to intermediate code: \<open>translate.c\<close>. As in the
  semantic analysis a visitor takes the recursive call. There are two of them,
  \<open>translate_dispatcher\<close> and \<open>translate_cond\<close>, so the recursive call takes a mode.
\<close>

section \<open>The state\<close>

datatype TranslateState = FINE | ERROR | UNSUPPORT

text \<open>The globals of the back end, the scope stack and \<open>translate_state\<close>.\<close>

record trans_state = asm_state +
  tr_symtab :: symtab_state
  translate_state :: TranslateState

datatype mode = Dispatch | Cond

type_synonym trans_visitor = "Node \<Rightarrow> trans_state \<Rightarrow> (Node \<times> trans_state) option"
type_synonym trans_call = "mode \<Rightarrow> trans_visitor"

definition trans_default :: trans_visitor where
  "trans_default nd st = Some (nd, st\<lparr>translate_state := UNSUPPORT\<rparr>)"

text \<open>The macro \<open>translate_dispatcher\<close> on the \<open>k\<close>-th child, which may be absent.\<close>

definition dispatch_child :: "trans_call \<Rightarrow> nat \<Rightarrow> trans_visitor" where
  "dispatch_child visit k nd st =
     (case child k nd of
       None \<Rightarrow> Some (nd, st)
     | Some c \<Rightarrow> do { (c, st) \<leftarrow> visit Dispatch c st; Some (put_child k c nd, st) })"

section \<open>Utility functions\<close>

text \<open>\<open>new_instr\<close> where the result is not used.\<close>

definition gen :: "IR_Type \<Rightarrow> nat option \<Rightarrow> nat option \<Rightarrow> nat option \<Rightarrow> trans_state \<Rightarrow> trans_state option" where
  "gen type rs rt rd st = map_option snd (new_instr type rs rt rd st)"

definition new_integer :: "cint \<Rightarrow> trans_state \<Rightarrow> (nat \<times> trans_state) option" where
  "new_integer i st =
     do {
       let (p, st) = new_operand OPE_INTEGER st;
       st \<leftarrow> update_ope p (ope_integer_update (\<lambda>_. i)) st;
       Some (p, st)
     }"

text \<open>\<open>if (exp->dst && exp->dst->type == OPE_TEMP) free(exp->dst)\<close>\<close>

definition free_temp :: "nat option \<Rightarrow> trans_state \<Rightarrow> trans_state option" where
  "free_temp dst st =
     (case dst of
       None \<Rightarrow> Some st
     | Some p \<Rightarrow>
         do {
           a \<leftarrow> opes st p;
           if ope_type a = OPE_TEMP then free_operand (Some p) st else Some st
         })"

definition try_deref :: trans_visitor where
  "try_deref exp st =
     do {
       dst \<leftarrow> nd_dst exp;
       a \<leftarrow> opes st dst;
       if ope_type a = OPE_ADDR then
         do {
           let (tmp, st) = new_operand OPE_TEMP st;
           st \<leftarrow> gen IR_DEREF_R (Some dst) None (Some tmp) st;
           Some (set_dst (Some tmp) exp, st)
         }
       else Some (exp, st)
     }"

section \<open>Expressions\<close>

definition translate_exp_is_id :: "trans_call \<Rightarrow> trans_visitor" where
  "translate_exp_is_id visit exp st =
     do {
       id \<leftarrow> child 0 exp;
       s \<leftarrow> val_s id;
       found \<leftarrow> query s (tr_symtab st);
       case found of
         None \<Rightarrow> Some (exp, st)
       | Some ent \<Rightarrow>
           do {
             st \<leftarrow> free_temp (nd_dst exp) st;
             if class_of (symbol_type ent) = CMM_STRUCT then
               do {
                 let (dst, st) = new_operand OPE_ADDR st;
                 st \<leftarrow> update_ope dst (ope_base_type_update (\<lambda>_. Some (symbol_type ent))) st;
                 st \<leftarrow> gen IR_ADDR (symbol_address ent) None (Some dst) st;
                 Some (set_base (Some dst) (set_dst (Some dst) exp), st)
               }
             else if class_of (symbol_type ent) = CMM_ARRAY then
               do {
                 (dst, st) \<leftarrow> new_integer 0 st;
                 let (base, st) = new_operand OPE_ADDR st;
                 st \<leftarrow> gen IR_ADDR (symbol_address ent) None (Some base) st;
                 Some (set_base (Some base) (set_dst (Some dst) exp), st)
               }
             else Some (set_dst (symbol_address ent) exp, st)
           }
     }"

definition translate_exp_is_const :: "trans_call \<Rightarrow> trans_visitor" where
  "translate_exp_is_const visit nd st =
     do {
       _ \<leftarrow> c_assert (nd_tag nd = EXP_is_INT \<or> nd_tag nd = EXP_is_FLOAT);
       c \<leftarrow> child 0 nd;
       if nd_tag c = TERM_INT then
         do {
           i \<leftarrow> val_i c;
           (const_ope, st) \<leftarrow> new_integer i st;
           st \<leftarrow> free_operand (nd_dst nd) st;
           Some (set_dst (Some const_ope) nd, st)
         }
       else if nd_tag c = TERM_FLOAT then
         do {
           f \<leftarrow> val_f c;
           let (const_ope, st) = new_operand OPE_FLOAT st;
           st \<leftarrow> update_ope const_ope (ope_real_update (\<lambda>_. f)) st;
           st \<leftarrow> free_operand (nd_dst nd) st;
           Some (set_dst (Some const_ope) nd, st)
         }
       else Some (nd, st)
     }"

text \<open>A child that gets a fresh temporary as its target and is then translated.\<close>

definition visit_value :: "trans_call \<Rightarrow> trans_visitor" where
  "visit_value visit nd st =
     (case new_operand OPE_TEMP st of (tmp, st) \<Rightarrow> visit Dispatch (set_dst (Some tmp) nd) st)"

definition translate_exp_is_assign :: "trans_call \<Rightarrow> trans_visitor" where
  "translate_exp_is_assign visit assign_exp st =
     do {
       _ \<leftarrow> c_assert (nd_tag assign_exp = EXP_is_ASSIGN);
       lexp \<leftarrow> child 0 assign_exp;
       rexp \<leftarrow> child 1 assign_exp;
       (lexp, st) \<leftarrow> visit_value visit lexp st;
       (rexp, st) \<leftarrow> visit_value visit rexp st;
       (rexp, st) \<leftarrow> try_deref rexp st;
       st \<leftarrow> free_operand (nd_dst assign_exp) st;
       let dst = (if nd_dst assign_exp = None then None else nd_dst lexp);
       l \<leftarrow> nd_dst lexp;
       la \<leftarrow> opes st l;
       r \<leftarrow> nd_dst rexp;
       ra \<leftarrow> opes st r;
       st \<leftarrow> (if ope_type la = OPE_VAR \<and> ope_type ra = OPE_TEMP
              then Some (snd (replace_operand_global (Some l) (Some r) st))
              else if ope_type la = OPE_ADDR then gen IR_DEREF_L (Some l) (Some r) None st
              else gen IR_ASSIGN (Some r) None (Some l) st);
       Some (set_dst dst (put_child 1 rexp (put_child 0 lexp assign_exp)), st)
     }"

text \<open>The offset of this level: \<open>idx->dst\<close> scaled by the element size.\<close>

definition scale_index :: "nat \<Rightarrow> cint \<Rightarrow> trans_state \<Rightarrow> (nat \<times> trans_state) option" where
  "scale_index off sz st =
     do {
       a \<leftarrow> opes st off;
       if ope_type a = OPE_INTEGER then
         do {
           i \<leftarrow> cmul (ope_integer a) sz;
           st \<leftarrow> update_ope off (ope_integer_update (\<lambda>_. i)) st;
           Some (off, st)
         }
       else
         do {
           let (p, st) = new_operand OPE_ADDR st;
           (array_size, st) \<leftarrow> new_integer sz st;
           st \<leftarrow> gen IR_MUL (Some off) (Some array_size) (Some p) st;
           Some (p, st)
         }
     }"

text \<open>The total offset \<open>addr + off\<close>.\<close>

definition add_offset :: "nat \<Rightarrow> nat \<Rightarrow> trans_state \<Rightarrow> (nat \<times> trans_state) option" where
  "add_offset addr off st =
     do {
       a \<leftarrow> opes st addr;
       b \<leftarrow> opes st off;
       if ope_type a = OPE_INTEGER \<and> ope_type b = OPE_INTEGER then
         do {
           i \<leftarrow> cadd (ope_integer a) (ope_integer b);
           st \<leftarrow> update_ope addr (ope_integer_update (\<lambda>_. i)) st;
           Some (addr, st)
         }
       else if ope_type a = OPE_INTEGER \<and> ope_integer a = 0 then Some (off, st)
       else if ope_type b = OPE_INTEGER \<and> ope_integer b = 0 then Some (addr, st)
       else
         do {
           let (p, st) = new_operand OPE_ADDR st;
           st \<leftarrow> gen IR_ADD (Some addr) (Some off) (Some p) st;
           Some (p, st)
         }
     }"

definition translate_exp_is_exp_idx :: "trans_call \<Rightarrow> trans_visitor" where
  "translate_exp_is_exp_idx visit exp st =
     (if nd_dst exp = None then Some (exp, st)
      else
        do {
          base \<leftarrow> child 0 exp;
          (base, st) \<leftarrow> visit_value visit base st;
          idx \<leftarrow> child 1 exp;
          (idx, st) \<leftarrow> visit_value visit idx st;
          (idx, st) \<leftarrow> try_deref idx st;
          t \<leftarrow> nd_type exp;
          sz \<leftarrow> type_size t;
          idx_dst \<leftarrow> nd_dst idx;
          (off, st) \<leftarrow> scale_index idx_dst sz st;
          (base, st) \<leftarrow> (if nd_base base = None then
                           do {
                             (zero, st) \<leftarrow> new_integer 0 st;
                             Some (set_dst (Some zero) (set_base (nd_dst base) base), st)
                           }
                         else Some (base, st));
          addr \<leftarrow> nd_dst base;
          (addr, st) \<leftarrow> add_offset addr off st;
          st \<leftarrow> free_temp (nd_dst exp) st;
          let exp = put_child 1 idx (put_child 0 base exp);
          if class_of t = CMM_ARRAY then Some (set_base (nd_base base) (set_dst (Some addr) exp), st)
          else
            do {
              a \<leftarrow> opes st addr;
              let from = (if nd_base base = None then nd_dst base else nd_base base);
              let (dst, st) = new_operand OPE_ADDR st;
              st \<leftarrow> update_ope dst (ope_base_type_update (\<lambda>_. Some t)) st;
              st \<leftarrow> (if ope_type a = OPE_INTEGER \<and> ope_integer a = 0
                     then gen IR_ASSIGN from None (Some dst) st
                     else gen IR_ADD from (Some addr) (Some dst) st);
              Some (set_dst (Some dst) exp, st)
            }
        })"

definition translate_exp_is_exp :: "trans_call \<Rightarrow> trans_visitor" where
  "translate_exp_is_exp visit exp st =
     do {
       c \<leftarrow> child 0 exp;
       (c, st) \<leftarrow> visit Dispatch (set_dst (nd_dst exp) c) st;
       Some (set_dst (nd_dst c) (put_child 0 c exp), st)
     }"

text \<open>
  The operand of the unary operation gets a temporary, and that temporary is the one that is
  examined and used; the operand itself is not translated.
\<close>

definition translate_unary_operation :: "trans_call \<Rightarrow> trans_visitor" where
  "translate_unary_operation visit exp st =
     do {
       rexp \<leftarrow> child 0 exp;
       let (tmp, st) = new_operand OPE_TEMP st;
       let exp = put_child 0 (set_dst (Some tmp) rexp) exp;
       let (const_ope, st) = new_operand OPE_NOT_USED st;
       a \<leftarrow> opes st tmp;
       if ope_type a = OPE_INTEGER then
         do {
           i \<leftarrow> cneg (ope_integer a);
           st \<leftarrow> update_ope const_ope (\<lambda>c. c\<lparr>ope_type := OPE_INTEGER, ope_integer := i\<rparr>) st;
           st \<leftarrow> free_operand (nd_dst exp) st;
           Some (set_dst (Some const_ope) exp, st)
         }
       else if ope_type a = OPE_FLOAT then
         do {
           st \<leftarrow> update_ope const_ope (\<lambda>c. c\<lparr>ope_type := OPE_FLOAT, ope_real := f32_neg (ope_real a)\<rparr>) st;
           st \<leftarrow> free_operand (nd_dst exp) st;
           Some (set_dst (Some const_ope) exp, st)
         }
       else
         do {
           st \<leftarrow> free_operand (Some const_ope) st;
           (p, st) \<leftarrow> new_integer 0 st;
           st \<leftarrow> gen IR_SUB (Some p) (Some tmp) (nd_dst exp) st;
           Some (exp, st)
         }
     }"

text \<open>The macro \<open>CALC\<close> for the two members; another operator leaves the member at zero.\<close>

definition calc_int :: "char \<Rightarrow> cint \<Rightarrow> cint \<Rightarrow> cint option" where
  "calc_int op a b =
     (if op = CHR ''+'' then cadd a b
      else if op = CHR ''-'' then csub a b
      else if op = CHR ''*'' then cmul a b
      else if op = CHR ''/'' then cdiv a b
      else Some 0)"

definition calc_float :: "char \<Rightarrow> f32 \<Rightarrow> f32 \<Rightarrow> f32" where
  "calc_float op a b =
     (if op = CHR ''+'' then f32_add a b
      else if op = CHR ''-'' then f32_sub a b
      else if op = CHR ''*'' then f32_mul a b
      else if op = CHR ''/'' then f32_div a b
      else 0)"

definition binary_ir :: "char \<Rightarrow> IR_Type option" where
  "binary_ir op =
     (if op = CHR ''+'' then Some IR_ADD
      else if op = CHR ''-'' then Some IR_SUB
      else if op = CHR ''*'' then Some IR_MUL
      else if op = CHR ''/'' then Some IR_DIV
      else None)"

definition translate_binary_operation :: "trans_call \<Rightarrow> trans_visitor" where
  "translate_binary_operation visit exp st =
     (if nd_dst exp = None then Some (exp, st)
      else
        do {
          lexp \<leftarrow> child 0 exp;
          rexp \<leftarrow> child 1 exp;
          (lexp, st) \<leftarrow> visit_value visit lexp st;
          (rexp, st) \<leftarrow> visit_value visit rexp st;
          (lexp, st) \<leftarrow> try_deref lexp st;
          (rexp, st) \<leftarrow> try_deref rexp st;
          let exp = put_child 1 rexp (put_child 0 lexp exp);
          lope \<leftarrow> nd_dst lexp;
          rope \<leftarrow> nd_dst rexp;
          a \<leftarrow> opes st lope;
          b \<leftarrow> opes st rope;
          op \<leftarrow> operator0 exp;
          if ope_type a = ope_type b \<and> is_const a then
            do {
              let (const_ope, st) = new_operand OPE_NOT_USED st;
              st \<leftarrow> (if ope_type a = OPE_INTEGER then
                       do {
                         i \<leftarrow> calc_int op (ope_integer a) (ope_integer b);
                         update_ope const_ope (\<lambda>c. c\<lparr>ope_type := OPE_INTEGER, ope_integer := i\<rparr>) st
                       }
                     else
                       update_ope const_ope
                         (\<lambda>c. c\<lparr>ope_type := OPE_FLOAT, ope_real := calc_float op (ope_real a) (ope_real b)\<rparr>) st);
              st \<leftarrow> free_operand (nd_dst exp) st;
              Some (set_dst (Some const_ope) exp, st)
            }
          else
            do {
              st \<leftarrow> (if ope_type a = ope_type b then
                       (case new_operand OPE_NOT_USED st of (c, st) \<Rightarrow> free_operand (Some c) st)
                     else Some st);
              type \<leftarrow> binary_ir op;
              st \<leftarrow> gen type (Some lope) (Some rope) (nd_dst exp) st;
              Some (exp, st)
            }
        })"

definition translate_exp_is_exp_field :: "trans_call \<Rightarrow> trans_visitor" where
  "translate_exp_is_exp_field visit exp st =
     do {
       struc \<leftarrow> child 0 exp;
       let (tmp, st) = new_operand OPE_ADDR st;
       (struc, st) \<leftarrow> visit Dispatch (set_dst (Some tmp) struc) st;
       field \<leftarrow> child 1 exp;
       f \<leftarrow> val_s field;
       t \<leftarrow> nd_type struc;
       (flds, _) \<leftarrow> struct_table t;
       table \<leftarrow> field_table flds;
       found \<leftarrow> query_without_fallback f table;
       let exp = put_child 0 struc exp;
       case found of
         None \<Rightarrow> Some (exp, st)
       | Some ent \<Rightarrow>
           do {
             (off, st) \<leftarrow> new_integer (symbol_offset ent) st;
             st \<leftarrow> free_temp (nd_dst exp) st;
             let (dst, st) = new_operand OPE_ADDR st;
             st \<leftarrow> gen IR_ADD (nd_dst struc) (Some off) (Some dst) st;
             Some (set_dst (Some dst) exp, st)
           }
     }"

section \<open>Calls\<close>

text \<open>Turning the value of an argument into what is passed.\<close>

definition reference_type :: "Type option \<Rightarrow> bool" where
  "reference_type t =
     (case t of None \<Rightarrow> False | Some t \<Rightarrow> class_of t = CMM_ARRAY \<or> class_of t = CMM_STRUCT)"

definition pass_value :: trans_visitor where
  "pass_value arg st =
     do {
       p \<leftarrow> nd_dst arg;
       a \<leftarrow> opes st p;
       (arg, st) \<leftarrow> (if reference_type (ope_base_type a) then
                       do {
                         _ \<leftarrow> c_assert (ope_type a = OPE_REF \<or> ope_type a = OPE_ADDR);
                         if ope_type a = OPE_REF then
                           do {
                             let (dst, st) = new_operand OPE_ADDR st;
                             st \<leftarrow> gen IR_ADDR (Some p) None (Some dst) st;
                             Some (set_dst (Some dst) arg, st)
                           }
                         else Some (arg, st)
                       }
                     else try_deref arg st);
       st \<leftarrow> gen IR_ARG (nd_dst arg) None None st;
       Some (arg, st)
     }"

primrec pass_arg :: "trans_call \<Rightarrow> Node list \<Rightarrow> trans_state \<Rightarrow> (Node list \<times> trans_state) option" where
  "pass_arg visit [] st = Some ([], st)"
| "pass_arg visit (arg # sibling) st =
     do {
       (arg, st) \<leftarrow> visit_value visit arg st;
       (sibling, st) \<leftarrow> pass_arg visit sibling st;
       (arg, st) \<leftarrow> pass_value arg st;
       Some (arg # sibling, st)
     }"

definition translate_call :: "trans_call \<Rightarrow> trans_visitor" where
  "translate_call visit call st =
     do {
       func \<leftarrow> child 0 call;
       let (dst, st) = (case nd_dst call of None \<Rightarrow> new_operand OPE_TEMP st | Some p \<Rightarrow> (p, st));
       let call = set_dst (Some dst) call;
       name \<leftarrow> val_s func;
       if name = ''read'' then
         do { st \<leftarrow> gen IR_READ None None (Some dst) st; Some (call, st) }
       else if name = ''write'' then
         do {
           arg \<leftarrow> child 1 call;
           (arg, st) \<leftarrow> visit_value visit arg st;
           (arg, st) \<leftarrow> try_deref arg st;
           st \<leftarrow> gen IR_WRITE (nd_dst arg) None None st;
           Some (put_child 1 arg call, st)
         }
       else
         do {
           (args, st) \<leftarrow> pass_arg visit (tl (nd_child call)) st;
           let (f, st) = new_operand OPE_FUNC st;
           st \<leftarrow> update_ope f (ope_name_update (\<lambda>_. name)) st;
           st \<leftarrow> gen IR_CALL (Some f) None (Some dst) st;
           Some (set_child (func # args) call, st)
         }
     }"

section \<open>Conditions\<close>

definition translate_cond_exp :: "trans_call \<Rightarrow> trans_visitor" where
  "translate_cond_exp visit exp st =
     do {
       (exp, st) \<leftarrow> visit_value visit exp st;
       (const_zero, st) \<leftarrow> new_integer 0 st;
       st \<leftarrow> gen IR_BNE (nd_dst exp) (Some const_zero) (nd_label_true exp) st;
       st \<leftarrow> gen IR_JMP (nd_label_false exp) None None st;
       Some (exp, st)
     }"

definition translate_cond_not :: "trans_call \<Rightarrow> trans_visitor" where
  "translate_cond_not visit exp st =
     do {
       sub_exp \<leftarrow> child 0 exp;
       (sub_exp, st) \<leftarrow> visit Cond (set_labels (nd_label_false exp) (nd_label_true exp) sub_exp) st;
       Some (put_child 0 sub_exp exp, st)
     }"

definition translate_cond_relop :: "trans_call \<Rightarrow> trans_visitor" where
  "translate_cond_relop visit exp st =
     do {
       left \<leftarrow> child 0 exp;
       right \<leftarrow> child 1 exp;
       let (ltmp, st) = new_operand OPE_TEMP st;
       let (rtmp, st) = new_operand OPE_TEMP st;
       (left, st) \<leftarrow> visit Dispatch (set_dst (Some ltmp) left) st;
       (right, st) \<leftarrow> visit Dispatch (set_dst (Some rtmp) right) st;
       (left, st) \<leftarrow> try_deref left st;
       (right, st) \<leftarrow> try_deref right st;
       op \<leftarrow> val_s exp;
       st \<leftarrow> gen (get_relop op) (nd_dst left) (nd_dst right) (nd_label_true exp) st;
       st \<leftarrow> gen IR_JMP (nd_label_false exp) None None st;
       Some (put_child 1 right (put_child 0 left exp), st)
     }"

definition translate_cond_and :: "trans_call \<Rightarrow> trans_visitor" where
  "translate_cond_and visit exp st =
     do {
       left \<leftarrow> child 0 exp;
       right \<leftarrow> child 1 exp;
       let (l, st) = new_operand OPE_LABEL st;
       (left, st) \<leftarrow> visit Cond (set_labels (Some l) (nd_label_false exp) left) st;
       st \<leftarrow> gen IR_LABEL (Some l) None None st;
       (right, st) \<leftarrow> visit Cond (set_labels (nd_label_true exp) (nd_label_false exp) right) st;
       Some (put_child 1 right (put_child 0 left exp), st)
     }"

definition translate_cond_or :: "trans_call \<Rightarrow> trans_visitor" where
  "translate_cond_or visit exp st =
     do {
       left \<leftarrow> child 0 exp;
       right \<leftarrow> child 1 exp;
       let (l, st) = new_operand OPE_LABEL st;
       (left, st) \<leftarrow> visit Cond (set_labels (nd_label_true exp) (Some l) left) st;
       st \<leftarrow> gen IR_LABEL (Some l) None None st;
       (right, st) \<leftarrow> visit Cond (set_labels (nd_label_true exp) (nd_label_false exp) right) st;
       Some (put_child 1 right (put_child 0 left exp), st)
     }"

fun cond_visitors :: "ProductionTag \<Rightarrow> (trans_call \<Rightarrow> trans_visitor)" where
  "cond_visitors EXP_is_AND = translate_cond_and"
| "cond_visitors EXP_is_OR = translate_cond_or"
| "cond_visitors EXP_is_RELOP = translate_cond_relop"
| "cond_visitors EXP_is_NOT = translate_cond_not"
| "cond_visitors _ = translate_cond_exp"

text \<open>A store of a constant into the target of a logical expression, if it has one.\<close>

definition store_bool :: "cint \<Rightarrow> nat option \<Rightarrow> trans_state \<Rightarrow> trans_state option" where
  "store_bool i dst st =
     (case dst of
       None \<Rightarrow> Some st
     | Some p \<Rightarrow> do { (v, st) \<leftarrow> new_integer i st; gen IR_ASSIGN (Some v) None (Some p) st })"

definition translate_cond_prepare :: "trans_call \<Rightarrow> trans_visitor" where
  "translate_cond_prepare visit nd st =
     do {
       let (t, st) = new_operand OPE_LABEL st;
       let (f, st) = new_operand OPE_LABEL st;
       let nd = set_labels (Some t) (Some f) nd;
       (nd, st) \<leftarrow> (case nd_dst nd of
                      None \<Rightarrow> Some (nd, st)
                    | Some p \<Rightarrow>
                        do {
                          a \<leftarrow> opes st p;
                          if ope_type a = OPE_TEMP then
                            do {
                              st \<leftarrow> free_operand (Some p) st;
                              let (b, st) = new_operand OPE_BOOL st;
                              Some (set_dst (Some b) nd, st)
                            }
                          else Some (nd, st)
                        });
       st \<leftarrow> store_bool 0 (nd_dst nd) st;
       (nd, st) \<leftarrow> visit Cond nd st;
       st \<leftarrow> gen IR_LABEL (nd_label_true nd) None None st;
       st \<leftarrow> store_bool 1 (nd_dst nd) st;
       st \<leftarrow> gen IR_LABEL (nd_label_false nd) None None st;
       Some (nd, st)
     }"

section \<open>Statements\<close>

definition translate_for :: "trans_call \<Rightarrow> trans_visitor" where
  "translate_for visit stmt st =
     do {
       init_exp \<leftarrow> child 0 stmt;
       cond_exp \<leftarrow> child 1 stmt;
       step_exp \<leftarrow> child 2 stmt;
       loop_stmt \<leftarrow> child 3 stmt;
       (init_exp, st) \<leftarrow> visit Dispatch init_exp st;
       let (begn, st) = new_operand OPE_LABEL st;
       let (ctrue, st) = new_operand OPE_LABEL st;
       let (cfalse, st) = new_operand OPE_LABEL st;
       let (ltrue, st) = new_operand OPE_LABEL st;
       st \<leftarrow> gen IR_LABEL (Some begn) None None st;
       (cond_exp, st) \<leftarrow> visit Cond (set_labels (Some ctrue) (Some cfalse) cond_exp) st;
       st \<leftarrow> gen IR_LABEL (nd_label_true cond_exp) None None st;
       (loop_stmt, st) \<leftarrow> visit Dispatch (set_labels (Some ltrue) (Some cfalse) loop_stmt) st;
       st \<leftarrow> gen IR_LABEL (nd_label_true loop_stmt) None None st;
       (step_exp, st) \<leftarrow> visit Dispatch step_exp st;
       st \<leftarrow> gen IR_JMP (Some begn) None None st;
       st \<leftarrow> gen IR_LABEL (nd_label_false cond_exp) None None st;
       Some (put_child 3 loop_stmt (put_child 2 step_exp (put_child 1 cond_exp (put_child 0 init_exp stmt))), st)
     }"

definition translate_while :: "trans_call \<Rightarrow> trans_visitor" where
  "translate_while visit stmt st =
     do {
       cond \<leftarrow> child 0 stmt;
       let (ctrue, st) = new_operand OPE_LABEL st;
       let (cfalse, st) = new_operand OPE_LABEL st;
       let (begn, st) = new_operand OPE_LABEL st;
       st \<leftarrow> gen IR_LABEL (Some begn) None None st;
       (cond, st) \<leftarrow> visit Cond (set_labels (Some ctrue) (Some cfalse) cond) st;
       st \<leftarrow> gen IR_LABEL (nd_label_true cond) None None st;
       (stmt, st) \<leftarrow> dispatch_child visit 1 (put_child 0 cond stmt) st;
       st \<leftarrow> gen IR_JMP (Some begn) None None st;
       st \<leftarrow> gen IR_LABEL (nd_label_false cond) None None st;
       Some (stmt, st)
     }"

definition translate_if_else :: "trans_call \<Rightarrow> trans_visitor" where
  "translate_if_else visit exp st =
     do {
       cond \<leftarrow> child 0 exp;
       let (ctrue, st) = new_operand OPE_LABEL st;
       let (cfalse, st) = new_operand OPE_LABEL st;
       let (next, st) = new_operand OPE_LABEL st;
       (cond, st) \<leftarrow> visit Cond (set_labels (Some ctrue) (Some cfalse) cond) st;
       st \<leftarrow> gen IR_LABEL (nd_label_true cond) None None st;
       (exp, st) \<leftarrow> dispatch_child visit 1 (put_child 0 cond exp) st;
       st \<leftarrow> gen IR_JMP (Some next) None None st;
       st \<leftarrow> gen IR_LABEL (nd_label_false cond) None None st;
       (exp, st) \<leftarrow> dispatch_child visit 2 exp st;
       st \<leftarrow> gen IR_LABEL (Some next) None None st;
       Some (exp, st)
     }"

definition translate_if :: "trans_call \<Rightarrow> trans_visitor" where
  "translate_if visit exp st =
     do {
       cond \<leftarrow> child 0 exp;
       let (ctrue, st) = new_operand OPE_LABEL st;
       let (cfalse, st) = new_operand OPE_LABEL st;
       (cond, st) \<leftarrow> visit Cond (set_labels (Some ctrue) (Some cfalse) cond) st;
       st \<leftarrow> gen IR_LABEL (nd_label_true cond) None None st;
       (exp, st) \<leftarrow> dispatch_child visit 1 (put_child 0 cond exp) st;
       st \<leftarrow> gen IR_LABEL (nd_label_false cond) None None st;
       Some (exp, st)
     }"

definition translate_return :: "trans_call \<Rightarrow> trans_visitor" where
  "translate_return visit exp st =
     do {
       sub_exp \<leftarrow> child 0 exp;
       (sub_exp, st) \<leftarrow> visit_value visit sub_exp st;
       (sub_exp, st) \<leftarrow> try_deref sub_exp st;
       st \<leftarrow> gen IR_RET (nd_dst sub_exp) None None st;
       Some (put_child 0 sub_exp exp, st)
     }"

definition translate_compst :: "trans_call \<Rightarrow> trans_visitor" where
  "translate_compst visit compst st =
     do {
       (cs, st) \<leftarrow> visit_all (visit Dispatch) (nd_child compst) st;
       Some (set_child cs compst, st)
     }"

text \<open>
  Entering and leaving the scope a node owns. The table that is popped is the one that was pushed
  exactly when the stack has its old height again.
\<close>

definition enter_scope :: "Node \<Rightarrow> trans_state \<Rightarrow> trans_state option" where
  "enter_scope nd st =
     do {
       table \<leftarrow> sema_symtab (nd_sema nd);
       s \<leftarrow> push_symtab table (tr_symtab st);
       Some (st\<lparr>tr_symtab := s\<rparr>)
     }"

definition leave_scope :: "nat \<Rightarrow> trans_state \<Rightarrow> trans_state option" where
  "leave_scope depth st =
     do {
       let s = snd (pop_symtab (tr_symtab st));
       _ \<leftarrow> c_assert (scopes (tr_symtab st) \<noteq> [] \<and> scope_cnt s = depth);
       Some (st\<lparr>tr_symtab := s\<rparr>)
     }"

definition translate_stmt_is_compst :: "trans_call \<Rightarrow> trans_visitor" where
  "translate_stmt_is_compst visit stmt st =
     do {
       let depth = scope_cnt (tr_symtab st);
       st \<leftarrow> enter_scope stmt st;
       (stmt, st) \<leftarrow> dispatch_child visit 0 stmt st;
       st \<leftarrow> leave_scope depth st;
       Some (stmt, st)
     }"

definition translate_stmt_is_exp :: "trans_call \<Rightarrow> trans_visitor" where
  "translate_stmt_is_exp visit stmt st = dispatch_child visit 0 stmt st"

section \<open>Definitions\<close>

definition translate_extdef_spec :: "trans_call \<Rightarrow> trans_visitor" where
  "translate_extdef_spec visit extdef st = Some (extdef, st)"

definition translate_extdef_func :: "trans_call \<Rightarrow> trans_visitor" where
  "translate_extdef_func visit extdef st =
     do {
       let depth = scope_cnt (tr_symtab st);
       st \<leftarrow> enter_scope extdef st;
       _ \<leftarrow> child 1 extdef;
       (extdef, st) \<leftarrow> dispatch_child visit 1 extdef st;
       (extdef, st) \<leftarrow> dispatch_child visit 2 extdef st;
       st \<leftarrow> leave_scope depth st;
       Some (extdef, st)
     }"

text \<open>Following the first children down to the identifier.\<close>

fun find_id :: "Node \<Rightarrow> Node option" where
  "find_id (Node t l v s a cs) =
     (if t = TERM_ID then Some (Node t l v s a cs)
      else case cs of [] \<Rightarrow> None | c # _ \<Rightarrow> find_id c)"

text \<open>The symbol of a name, which must exist, and a store of its address.\<close>

definition the_symbol :: "string \<Rightarrow> trans_state \<Rightarrow> Symbol option" where
  "the_symbol name st = do { found \<leftarrow> query name (tr_symtab st); found }"

definition set_address :: "string \<Rightarrow> nat \<Rightarrow> trans_state \<Rightarrow> trans_state option" where
  "set_address name p st =
     do {
       s \<leftarrow> update_symbol name (set_symbol_address (Some p)) (tr_symtab st);
       Some (st\<lparr>tr_symtab := s\<rparr>)
     }"

definition translate_param :: "Node \<Rightarrow> trans_state \<Rightarrow> trans_state option" where
  "translate_param param st =
     do {
       vardec \<leftarrow> child 1 param;
       id \<leftarrow> find_id vardec;
       name \<leftarrow> val_s id;
       ent \<leftarrow> the_symbol name st;
       (p, st) \<leftarrow> (if class_of (symbol_type ent) = CMM_ARRAY then
                     do {
                       let (p, st) = new_operand OPE_ADDR st;
                       st \<leftarrow> update_ope p (ope_base_type_update (\<lambda>_. Some (symbol_type ent))) st;
                       Some (p, st)
                     }
                   else Some (new_operand OPE_VAR st));
       st \<leftarrow> set_address name p st;
       gen IR_PARAM (Some p) None None st
     }"

primrec translate_params :: "Node list \<Rightarrow> trans_state \<Rightarrow> trans_state option" where
  "translate_params [] st = Some st"
| "translate_params (param # sibling) st =
     do { st \<leftarrow> translate_param param st; translate_params sibling st }"

definition translate_func_head :: "trans_call \<Rightarrow> trans_visitor" where
  "translate_func_head visit func st =
     do {
       funcname \<leftarrow> child 0 func;
       name \<leftarrow> val_s funcname;
       let (rs, st) = new_operand OPE_FUNC st;
       st \<leftarrow> update_ope rs (ope_name_update (\<lambda>_. name)) st;
       st \<leftarrow> gen IR_FUNC (Some rs) None None st;
       st \<leftarrow> translate_params (tl (nd_child func)) st;
       Some (func, st)
     }"

definition translate_dec_is_vardec :: "trans_call \<Rightarrow> trans_visitor" where
  "translate_dec_is_vardec visit dec st =
     do {
       vardec \<leftarrow> child 0 dec;
       iterator \<leftarrow> child 0 vardec;
       id \<leftarrow> find_id iterator;
       name \<leftarrow> val_s id;
       ent \<leftarrow> the_symbol name st;
       let t = symbol_type ent;
       is_int \<leftarrow> typecmp t Basic_INT;
       is_float \<leftarrow> typecmp t Basic_FLOAT;
       (p, st) \<leftarrow> (if \<not> is_int \<and> \<not> is_float then
                     do {
                       let (p, st) = new_operand OPE_REF st;
                       ts \<leftarrow> type_size t;
                       st \<leftarrow> update_ope p (ope_size_update (\<lambda>_. ts)) st;
                       (sz, st) \<leftarrow> new_integer ts st;
                       st \<leftarrow> gen IR_DEC (Some p) (Some sz) None st;
                       Some (p, st)
                     }
                   else Some (new_operand OPE_VAR st));
       st \<leftarrow> set_address name p st;
       st \<leftarrow> update_ope p (ope_base_type_update (\<lambda>_. Some t)) st;
       case child 1 dec of
         None \<Rightarrow> Some (dec, st)
       | Some init \<Rightarrow>
           do {
             (init, st) \<leftarrow> visit_value visit init st;
             (init, st) \<leftarrow> try_deref init st;
             a \<leftarrow> opes st p;
             q \<leftarrow> nd_dst init;
             b \<leftarrow> opes st q;
             st \<leftarrow> (if ope_type a = OPE_VAR \<and> ope_type b = OPE_TEMP
                    then Some (snd (replace_operand_global (Some p) (Some q) st))
                    else gen IR_ASSIGN (Some q) None (Some p) st);
             Some (put_child 1 init dec, st)
           }
     }"

definition translate_def_is_spec_dec :: "trans_call \<Rightarrow> trans_visitor" where
  "translate_def_is_spec_dec visit def st =
     do {
       spec \<leftarrow> child 0 def;
       (decs, st) \<leftarrow> visit_all (visit Dispatch) (tl (nd_child def)) st;
       Some (set_child (spec # decs) def, st)
     }"

definition translate_ast :: "trans_call \<Rightarrow> trans_visitor" where
  "translate_ast visit ast st =
     do {
       (cs, st) \<leftarrow> visit_all (visit Dispatch) (nd_child ast) st;
       Some (set_child cs ast, st)
     }"

section \<open>Dispatch\<close>

fun trans_visitors :: "ProductionTag \<Rightarrow> (trans_call \<Rightarrow> trans_visitor)" where
  "trans_visitors PROG_is_EXTDEF = translate_ast"
| "trans_visitors EXTDEF_is_SPEC = translate_extdef_spec"
| "trans_visitors EXTDEF_is_SPEC_FUNC_COMPST = translate_extdef_func"
| "trans_visitors FUNC_is_ID_VAR = translate_func_head"
| "trans_visitors COMPST_is_DEF_STMT = translate_compst"
| "trans_visitors DEC_is_VARDEC = translate_dec_is_vardec"
| "trans_visitors DEC_is_VARDEC_INITIALIZATION = translate_dec_is_vardec"
| "trans_visitors DEF_is_SPEC_DEC = translate_def_is_spec_dec"
| "trans_visitors STMT_is_COMPST = translate_stmt_is_compst"
| "trans_visitors STMT_is_EXP = translate_stmt_is_exp"
| "trans_visitors STMT_is_RETURN = translate_return"
| "trans_visitors STMT_is_IF = translate_if"
| "trans_visitors STMT_is_IF_ELSE = translate_if_else"
| "trans_visitors STMT_is_FOR = translate_for"
| "trans_visitors STMT_is_WHILE = translate_while"
| "trans_visitors EXP_is_EXP = translate_exp_is_exp"
| "trans_visitors EXP_is_BINARY = translate_binary_operation"
| "trans_visitors EXP_is_EXP_FIELD = translate_exp_is_exp_field"
| "trans_visitors EXP_is_UNARY = translate_unary_operation"
| "trans_visitors EXP_is_INT = translate_exp_is_const"
| "trans_visitors EXP_is_FLOAT = translate_exp_is_const"
| "trans_visitors EXP_is_ID = translate_exp_is_id"
| "trans_visitors EXP_is_ID_ARG = translate_call"
| "trans_visitors EXP_is_ASSIGN = translate_exp_is_assign"
| "trans_visitors EXP_is_EXP_IDX = translate_exp_is_exp_idx"
| "trans_visitors EXP_is_AND = translate_cond_prepare"
| "trans_visitors EXP_is_OR = translate_cond_prepare"
| "trans_visitors EXP_is_NOT = translate_cond_prepare"
| "trans_visitors EXP_is_RELOP = translate_cond_prepare"
| "trans_visitors _ = (\<lambda>visit. trans_default)"

definition mode_visitors :: "mode \<Rightarrow> ProductionTag \<Rightarrow> (trans_call \<Rightarrow> trans_visitor)" where
  "mode_visitors m tag = (case m of Dispatch \<Rightarrow> trans_visitors tag | Cond \<Rightarrow> cond_visitors tag)"

text \<open>
  The recursion descends to children, except that a logical expression is handed from
  \<open>translate_dispatcher\<close> to \<open>translate_cond\<close> and any other condition back.
\<close>

definition is_logic :: "ProductionTag \<Rightarrow> bool" where
  "is_logic tag \<longleftrightarrow> tag = EXP_is_AND \<or> tag = EXP_is_OR \<or> tag = EXP_is_NOT \<or> tag = EXP_is_RELOP"

definition rank :: "mode \<Rightarrow> Node \<Rightarrow> nat" where
  "rank m nd = 3 * size nd +
     (case m of Dispatch \<Rightarrow> (if is_logic (nd_tag nd) then 2 else 0) | Cond \<Rightarrow> 1)"

function translate_visit :: trans_call where
  "translate_visit m nd st =
     mode_visitors m (nd_tag nd)
       (\<lambda>m' nd' st'. if rank m' nd' < rank m nd then translate_visit m' nd' st' else None) nd st"
  by pat_completeness auto
termination
  by (relation "measure (\<lambda>(m, nd, st). rank m nd)") auto

declare translate_visit.simps [simp del]

definition translate_dispatcher :: trans_visitor where
  "translate_dispatcher nd st = translate_visit Dispatch nd st"

definition translate_cond :: trans_visitor where
  "translate_cond nd st = translate_visit Cond nd st"

text \<open>
  The interface \<open>translate\<close>. \<open>predef\<close> and \<open>blk_buf\<close> are those of \<open>print_instr\<close>; the
  message to \<open>stderr\<close> on an unsupported program is left out.
\<close>

definition translate :: "string option \<Rightarrow> Block list \<Rightarrow> Node option \<Rightarrow> trans_state \<Rightarrow> trans_state option" where
  "translate predef blk_buf prog st =
     do {
       st \<leftarrow> (case prog of
                None \<Rightarrow> Some st
              | Some nd \<Rightarrow> do { (_, st) \<leftarrow> translate_dispatcher nd st; Some st });
       if translate_state st = FINE then print_instr predef blk_buf st else Some st
     }"

section \<open>The recursion only descends\<close>

lemma rank_child: "size c < size nd \<Longrightarrow> rank m c < rank m' nd"
  by (simp add: rank_def split: mode.splits)

lemma visit_value_cong:
  assumes "\<And>h s. f Dispatch (upd_trans h nd) s = g Dispatch (upd_trans h nd) s"
  shows "visit_value f nd st = visit_value g nd st"
  by (simp add: visit_value_def assms split_def)

lemma pass_arg_cong:
  "(\<And>c s. c \<in> set args \<Longrightarrow> visit_value f c s = visit_value g c s) \<Longrightarrow> pass_arg f args st = pass_arg g args st"
  by (induction args arbitrary: st) (auto intro!: Option.bind_cong)

lemmas trans_visitor_defs =
  trans_default_def translate_exp_is_id_def translate_exp_is_const_def translate_exp_is_assign_def
  translate_exp_is_exp_idx_def translate_exp_is_exp_def translate_unary_operation_def
  translate_binary_operation_def translate_exp_is_exp_field_def translate_call_def
  translate_cond_exp_def translate_cond_not_def translate_cond_relop_def translate_cond_and_def
  translate_cond_or_def translate_cond_prepare_def translate_for_def translate_while_def
  translate_if_else_def translate_if_def translate_return_def translate_compst_def
  translate_stmt_is_compst_def translate_stmt_is_exp_def translate_extdef_spec_def
  translate_extdef_func_def translate_func_head_def translate_dec_is_vardec_def
  translate_def_is_spec_dec_def translate_ast_def

lemma dispatch_child_cong:
  assumes "\<And>c s. child k nd = Some c \<Longrightarrow> f Dispatch c s = g Dispatch c s"
  shows "dispatch_child f k nd st = dispatch_child g k nd st"
  using assms by (auto simp: dispatch_child_def split: option.splits intro!: Option.bind_cong)

lemma dispatch_child_other:
  "dispatch_child f k nd st = Some p \<Longrightarrow> j \<noteq> k \<Longrightarrow> child j (fst p) = child j nd"
  by (auto simp: dispatch_child_def bind_Some_iff child_put_child split: option.splits)

lemma mode_visitors_cong:
  assumes f: "\<And>m' c s. rank m' c < rank m nd \<Longrightarrow> f m' c s = g m' c s"
  shows "mode_visitors m (nd_tag nd) f nd st = mode_visitors m (nd_tag nd) g nd st"
proof -
  have ch: "f m' c s = g m' c s" if "child k nd = Some c" for m' c s k
    using that by (intro f rank_child size_child)
  have ch': "f m' (upd_trans h c) s = g m' (upd_trans h c) s" if "child k nd = Some c" for m' c s k h
    using that by (intro f rank_child) (simp add: size_child)
  have all: "f m' c s = g m' c s" if "c \<in> set (nd_child nd)" for m' c s
    using that by (intro f rank_child size_in_child)
  have all': "f m' (upd_trans h c) s = g m' (upd_trans h c) s" if "c \<in> set (nd_child nd)" for m' c s h
    using that by (intro f rank_child) (simp add: size_in_child)
  have tl: "f m' c s = g m' c s" if "c \<in> set (tl (nd_child nd))" for m' c s
    using that by (intro all) (metis list.set_sel(2) tl_Nil)
  have tl': "f m' (upd_trans h c) s = g m' (upd_trans h c) s" if "c \<in> set (tl (nd_child nd))" for m' c s h
    using that by (intro all') (metis list.set_sel(2) tl_Nil)
  have vv: "visit_value f c s = visit_value g c s" if "child k nd = Some c" for c s k
    using that by (intro visit_value_cong ch')
  have pa: "pass_arg f (tl (nd_child nd)) s = pass_arg g (tl (nd_child nd)) s" for s
    by (intro pass_arg_cong visit_value_cong tl')
  have dc: "dispatch_child f k nd s = dispatch_child g k nd s" for k s
    by (rule dispatch_child_cong) (rule ch)
  have dc1: "dispatch_child f k c s = dispatch_child g k c s" if "child k c = child k nd" for k s c
    by (rule dispatch_child_cong) (auto simp: that intro: ch)
  note congs = if_cong Option.bind_cong visit_all_cong option.case_cong prod.case_cong
  note facts = ch ch' all tl vv pa dc dc1 split_def Let_def child_put_child
  show ?thesis
  proof (cases m)
    case Dispatch
    have prep: "f Cond (upd_trans h (upd_trans h' nd)) s = g Cond (upd_trans h (upd_trans h' nd)) s"
      "f Cond (upd_trans h nd) s = g Cond (upd_trans h nd) s" if "is_logic (nd_tag nd)" for h h' s
      using that by (intro f; simp add: rank_def Dispatch)+
    have prepare: "translate_cond_prepare f nd st = translate_cond_prepare g nd st" if "is_logic (nd_tag nd)"
      unfolding translate_cond_prepare_def
      by (auto simp: prep [OF that] split_def Let_def bind_Some_iff split: option.splits if_splits intro!: Option.bind_cong)
    show ?thesis
      unfolding mode_visitors_def Dispatch
      apply (cases "nd_tag nd")
      apply (simp_all add: prepare is_logic_def)
      apply (simp_all add: trans_visitor_defs)
      apply (simp_all add: facts dispatch_child_other cong: congs)
      done
  next
    case Cond
    have self: "visit_value f nd st = visit_value g nd st" if "\<not> is_logic (nd_tag nd)"
      using that by (intro visit_value_cong f) (simp add: rank_def Cond)
    show ?thesis
      unfolding mode_visitors_def Cond
      apply (cases "nd_tag nd")
      apply (simp_all add: trans_visitor_defs self is_logic_def)
      apply (simp_all add: facts cong: congs)
      done
  qed
qed

lemma translate_visit_eq: "translate_visit m nd st = mode_visitors m (nd_tag nd) translate_visit nd st"
  by (subst translate_visit.simps) (rule mode_visitors_cong, simp)

lemma translate_visit_Node [simp]:
  "translate_visit Dispatch (Node t l v s a c) st = trans_visitors t translate_visit (Node t l v s a c) st"
  "translate_visit Cond (Node t l v s a c) st = cond_visitors t translate_visit (Node t l v s a c) st"
  by (subst translate_visit_eq, simp add: mode_visitors_def)+

end
