(* ===== verification/Driver.thy ===== *)
theory Driver
  imports Translate
begin

text \<open>
  The driver \<open>main.c\<close>: parse, analyse, translate. The parser that bison and flex generate is the
  parameter \<open>yyparse\<close>: from the source text to the flag \<open>is_syn_error\<close> and the tree \<open>prog\<close>.
\<close>

section \<open>The globals at program start\<close>

definition sema_start :: sema_state where
  "sema_start =
     \<lparr>scopes = [], scope_capacity = 1, semantic_error = False, is_in_struct = False, offset = 0,
      next_type = 0, sema_log = []\<rparr>"

definition trans_start :: "symtab_state \<Rightarrow> trans_state" where
  "trans_start tabs =
     \<lparr>opes = (\<lambda>_. None), next_ope = 0, nr_ope = 0, nr_label = 0, instr_buffer = [],
      ope_in_reg = replicate NR_REG None, past_end = None, dirty = replicate NR_REG False,
      sp_offset = 0, asm_file = [], curr_func = None, nr_arg = 0, tr_symtab = tabs,
      translate_state = FINE\<rparr>"

definition blk_buf_start :: "Block list" where
  "blk_buf_start = replicate MAX_LINE zero_block"

section \<open>Main\<close>

text \<open>
  The back half of \<open>main\<close>: analysis and translation of a tree without syntax error. The result is
  the exit code and the assembly file.
\<close>

definition compile :: "string option \<Rightarrow> Node \<Rightarrow> (int \<times> asm_line list) option" where
  "compile predef prog =
     do {
       (prog, st) \<leftarrow> analyze_program prog sema_start;
       if semantic_error st then Some (0, [])
       else
         do {
           st \<leftarrow> translate predef blk_buf_start (Some prog) (trans_start (symtab_state.truncate st));
           Some (0, asm_file st)
         }
     }"

text \<open>
  \<open>main\<close>: \<open>src\<close> is the content of the file \<open>argv[1]\<close> if it can be opened, \<open>out\<close> tells
  whether \<open>argv[2]\<close> can. With one argument \<open>argv[2]\<close> is the null pointer.
\<close>

definition main ::
  "(string \<Rightarrow> bool \<times> Node option) \<Rightarrow> string option \<Rightarrow> nat \<Rightarrow> string option \<Rightarrow> bool \<Rightarrow> (int \<times> asm_line list) option" where
  "main yyparse predef argc src out =
     (if argc \<le> 1 then Some (1, [])
      else if argc = 2 then None
      else
        case src of
          None \<Rightarrow> Some (1, [])
        | Some text' \<Rightarrow>
            if \<not> out then Some (1, [])
            else
              case yyparse text' of (is_syn_error, prog) \<Rightarrow>
                if is_syn_error then Some (0, [])
                else do { prog \<leftarrow> prog; compile predef prog })"

end
