(* ===== verification/Scoping.thy ===== *)
theory Scoping
  imports Driver
begin

text \<open>
  The analysis and the scopes: every visitor leaves the outer scopes alone and the stack of scopes
  at its height, and the error flag is set exactly when something has been reported.
\<close>

section \<open>What a visitor keeps\<close>

definition log_ok :: "sema_state \<Rightarrow> bool" where
  "log_ok st \<longleftrightarrow> (semantic_error st \<longleftrightarrow> sema_log st \<noteq> [])"

definition keeps :: "sema_state \<Rightarrow> sema_state \<Rightarrow> bool" where
  "keeps st st' \<longleftrightarrow> butlast (scopes st') = butlast (scopes st) \<and> scope_cnt st' = scope_cnt st \<and>
     (list_all tab_wf (scopes st) \<longrightarrow> list_all tab_wf (scopes st')) \<and>
     (log_ok st \<longrightarrow> log_ok st') \<and> (semantic_error st \<longrightarrow> semantic_error st')"

lemma keeps_refl [simp]: "keeps st st"
  by (simp add: keeps_def)

lemma keeps_trans: "keeps st st' \<Longrightarrow> keeps st' st'' \<Longrightarrow> keeps st st''"
  by (simp add: keeps_def)

lemma keeps_report:
  "keeps st st' \<Longrightarrow> keeps st (SEMA_ERROR_MSG l m st')" "keeps st st' \<Longrightarrow> keeps st (error_if b l m st')"
  by (auto simp: keeps_def SEMA_ERROR_MSG_def error_if_def log_ok_def)

lemma keeps_fields [simp]:
  "keeps st (st'\<lparr>offset := n\<rparr>) = keeps st st'" "keeps st (st'\<lparr>is_in_struct := b\<rparr>) = keeps st st'"
  "keeps st (st'\<lparr>next_type := k\<rparr>) = keeps st st'"
  "keeps (st\<lparr>offset := n\<rparr>) st' = keeps st st'" "keeps (st\<lparr>is_in_struct := b\<rparr>) st' = keeps st st'"
  "keeps (st\<lparr>next_type := k\<rparr>) st' = keeps st st'"
  by (auto simp: keeps_def log_ok_def)

lemma new_type_eq: "new_type st = (next_type st, st\<lparr>next_type := Suc (next_type st)\<rparr>)"
  by (simp add: new_type_def)

lemma insert_top_keeps:
  assumes "insert_top name type line st = Some (place, st')"
  shows "keeps st st'" "scopes st \<noteq> []"
proof -
  from assms obtain ty tab tab' where
    *: "get_symtab_top st = Some tab" "insert_sym name ty line tab = Some (place, tab')"
      "st' = st\<lparr>scopes := butlast (scopes st) @ [tab']\<rparr>"
    by (auto simp: insert_top_def bind_Some_iff)
  then show ne: "scopes st \<noteq> []" by (auto simp: get_symtab_top_def split: if_splits)
  with * have tab: "tab = last (scopes st)" by (auto simp: get_symtab_top_def split: if_splits)
  have "tab_wf tab \<Longrightarrow> tab_wf tab'" using insert_sym_map(1) * by blast
  with * ne tab show "keeps st st'"
    by (cases "scopes st" rule: rev_cases) (auto simp: keeps_def log_ok_def)
qed

lemma insert_sym_place:
  assumes "insert_sym name type line tab = Some (Some place, tab')"
  shows "tab_wf tab \<Longrightarrow> tab_wf (update_at place (set_symbol_offset off) tab')"
proof -
  assume wf: "tab_wf tab"
  from assms have "tab' = tab[unat (hash name) := tab ! unat (hash name) @ [Symbol name line type None 0]]"
    "place = (unat (hash name), length (tab ! unat (hash name)))" "unat (hash name) < length tab"
    by (auto simp: insert_sym_def Let_def bind_Some_iff split: if_splits)
  with wf show ?thesis
    by (simp add: update_at_def tab_wf_def nth_list_update list_update_append split: if_splits)
qed

lemma symbol_of_set [simp]:
  "symbol_of (set_symbol_offset n s) = symbol_of s" "symbol_of (set_symbol_type t s) = symbol_of s"
  "symbol_of (set_symbol_address a s) = symbol_of s"
  by (cases s; simp)+


lemma declare_symbol_keeps:
  assumes "declare_symbol name type line st = Some st'"
  shows "keeps st st'"
proof -
  from assms obtain nm ty tab place tab' n off where
    *: "get_symtab_top st = Some tab" "insert_sym nm ty line tab = Some (Some place, tab')"
      "st' = st\<lparr>scopes := butlast (scopes st) @ [update_at place (set_symbol_offset n) tab'], offset := off\<rparr>"
    by (auto simp: declare_symbol_def insert_top_def bind_Some_iff get_symtab_top_def)
  then have ne: "scopes st \<noteq> []" and tab: "tab = last (scopes st)"
    by (auto simp: get_symtab_top_def split: if_splits)
  from * insert_sym_place have "tab_wf tab \<Longrightarrow> tab_wf (update_at place (set_symbol_offset n) tab')" by blast
  with * ne tab show ?thesis
    by (cases "scopes st" rule: rev_cases) (auto simp: keeps_def log_ok_def)
qed

section \<open>Trees without function definitions\<close>

fun local_tree :: "Node \<Rightarrow> bool" where
  "local_tree (Node t l v s a cs) \<longleftrightarrow>
     t \<noteq> FUNC_is_ID_VAR \<and> t \<noteq> EXTDEF_is_SPEC_FUNC_COMPST \<and> t \<noteq> PROG_is_EXTDEF \<and> (\<forall>c\<in>set cs. local_tree c)"

lemma local_tree_iff:
  "local_tree nd \<longleftrightarrow> nd_tag nd \<noteq> FUNC_is_ID_VAR \<and> nd_tag nd \<noteq> EXTDEF_is_SPEC_FUNC_COMPST \<and>
     nd_tag nd \<noteq> PROG_is_EXTDEF \<and> (\<forall>c\<in>set (nd_child nd). local_tree c)"
  by (cases nd) simp

lemma local_tree_upd [simp]: "local_tree (upd_sema f nd) = local_tree nd"
  by (cases nd) simp

lemma local_tree_child: "local_tree nd \<Longrightarrow> child k nd = Some c \<Longrightarrow> local_tree c"
  by (auto simp: local_tree_iff [of nd] child_def)

text \<open>A recursive call that keeps the state on the trees of a set.\<close>

definition keeping :: "sema_visitor \<Rightarrow> Node set \<Rightarrow> bool" where
  "keeping visit nds \<longleftrightarrow>
     (\<forall>nd\<in>nds. \<forall>st nd' st'. visit nd st = Some (nd', st') \<longrightarrow> keeps st st' \<and> local_tree nd')"

lemma keepingD:
  "keeping visit nds \<Longrightarrow> visit nd st = Some (nd', st') \<Longrightarrow> nd \<in> nds \<Longrightarrow> keeps st st' \<and> local_tree nd'"
  by (auto simp: keeping_def)

lemma keeping_mono: "keeping visit A \<Longrightarrow> B \<subseteq> A \<Longrightarrow> keeping visit B"
  by (auto simp: keeping_def)

lemma local_put_child:
  "local_tree nd \<Longrightarrow> local_tree c \<Longrightarrow> local_tree (put_child k c nd)"
  by (auto simp: local_tree_iff [of nd] local_tree_iff [of "put_child k c nd"] dest: set_update_subset_insert [THEN subsetD])

lemma visit_all_keeps:
  assumes "keeping visit (set cs)" and "visit_all visit cs st = Some (cs', st')"
  shows "keeps st st' \<and> (\<forall>c\<in>set cs'. local_tree c)"
  using assms
proof (induction cs arbitrary: st cs' st')
  case (Cons c cs)
  from Cons.prems(2) obtain c1 s1 cs1 where
    *: "visit c st = Some (c1, s1)" "visit_all visit cs s1 = Some (cs1, st')" "cs' = c1 # cs1"
    by (auto simp: bind_Some_iff)
  have "keeps s1 st' \<and> (\<forall>c\<in>set cs1. local_tree c)"
    using Cons.IH [OF keeping_mono [OF Cons.prems(1)] *(2)] by auto
  moreover have "keeps st s1 \<and> local_tree c1" using keepingD [OF Cons.prems(1) *(1)] by simp
  ultimately show ?case using *(3) keeps_trans by auto
qed simp

lemma check_param_list_keeps:
  assumes "keeping visit (set args)" and "\<forall>c\<in>set args. local_tree c"
    and "check_param_list visit params args l st = Some (args', st')"
  shows "keeps st st' \<and> (\<forall>c\<in>set args'. local_tree c)"
  using assms
proof (induction params arbitrary: args args' st)
  case Nil
  then show ?case by (cases args) (auto simp: keeps_report)
next
  case (Cons param params)
  show ?case
  proof (cases args)
    case Nil
    with Cons.prems show ?thesis by (auto simp: keeps_report)
  next
    case (Cons arg rest)
    with Cons.prems(3) obtain a1 s1 m s2 rest' where
      *: "visit arg st = Some (a1, s1)" "s2 = error_if m (nd_lineno a1) ''parameter type mismatches'' s1"
        "check_param_list visit params rest l s2 = Some (rest', st')" "args' = a1 # rest'"
      by (auto simp: bind_Some_iff Let_def)
    have 1: "keeps st s1 \<and> local_tree a1"
      using keepingD [OF Cons.prems(1) *(1)] \<open>args = arg # rest\<close> by simp
    have "keeps s2 st' \<and> (\<forall>c\<in>set rest'. local_tree c)"
      using Cons.IH [OF keeping_mono [OF Cons.prems(1)] _ *(3)] Cons.prems(2) \<open>args = arg # rest\<close> by auto
    moreover have "keeps st s2" unfolding *(2) using 1 by (intro keeps_report(2)) simp
    ultimately show ?thesis using 1 *(4) keeps_trans by auto
  qed
qed

section \<open>Every visitor keeps the outer scopes\<close>

definition below :: "Node \<Rightarrow> Node set" where
  "below nd = {c. size c < size nd \<and> local_tree c}"

lemma below_child: "local_tree nd \<Longrightarrow> child k nd = Some c \<Longrightarrow> upd_sema f c \<in> below nd \<and> c \<in> below nd"
  by (simp add: below_def size_child local_tree_child)


abbreviation post :: "sema_state \<Rightarrow> Node \<times> sema_state \<Rightarrow> bool" where
  "post st \<equiv> \<lambda>(nd', st'). keeps st st' \<and> local_tree nd'"

lemma visitI:
  "keeping visit A \<Longrightarrow> c \<in> A \<Longrightarrow> keeps st s \<Longrightarrow>
     (\<And>c' s'. keeps st s' \<Longrightarrow> local_tree c' \<Longrightarrow> Q (c', s')) \<Longrightarrow> valid Q (visit c s)"
  unfolding valid_def keeping_def using keeps_trans by fastforce

lemma declareI:
  "keeps st s \<Longrightarrow> (\<And>s'. keeps st s' \<Longrightarrow> Q s') \<Longrightarrow> valid Q (declare_symbol name type line s)"
  unfolding valid_def using declare_symbol_keeps keeps_trans by blast

lemma insertI:
  "keeps st s \<Longrightarrow> (\<And>p s'. keeps st s' \<Longrightarrow> Q (p, s')) \<Longrightarrow> valid Q (insert_top name type line s)"
  unfolding valid_def using insert_top_keeps(1) keeps_trans by fastforce

lemma visit_allI:
  "keeping visit (set cs) \<Longrightarrow> keeps st s \<Longrightarrow>
     (\<And>cs' s'. keeps st s' \<Longrightarrow> \<forall>c\<in>set cs'. local_tree c \<Longrightarrow> Q (cs', s')) \<Longrightarrow> valid Q (visit_all visit cs s)"
  unfolding valid_def using visit_all_keeps keeps_trans by fastforce

lemma check_paramI:
  "keeping visit (set args) \<Longrightarrow> \<forall>c\<in>set args. local_tree c \<Longrightarrow> keeps st s \<Longrightarrow>
     (\<And>as s'. keeps st s' \<Longrightarrow> \<forall>c\<in>set as. local_tree c \<Longrightarrow> Q (as, s')) \<Longrightarrow>
     valid Q (check_param_list visit params args l s)"
  unfolding valid_def using check_param_list_keeps keeps_trans by fastforce

lemma block_keeps:
  assumes "new_symtab st = Some s1" and "keeps s1 s2"
  shows "keeps st (snd (pop_symtab s2))" "scopes (snd (pop_symtab s2)) = scopes st"
    "fst (pop_symtab s2) \<noteq> None"
proof -
  have 1: "scopes s1 = scopes st @ [calloc_symtab]" "log_ok s1 = log_ok st" "semantic_error s1 = semantic_error st"
    using assms(1) by (auto simp: new_symtab_def push_symtab_def Let_def log_ok_def split: if_splits)
  with assms(2) have ne: "scopes s2 \<noteq> []" by (auto simp: keeps_def)
  with 1 assms(2) show 2: "scopes (snd (pop_symtab s2)) = scopes st" by (simp add: keeps_def pop_symtab_def)
  show "fst (pop_symtab s2) \<noteq> None" using ne by (simp add: pop_symtab_def)
  have "log_ok (snd (pop_symtab s2)) = log_ok s2" "semantic_error (snd (pop_symtab s2)) = semantic_error s2"
    by (simp_all add: pop_symtab_def log_ok_def)
  with 1 2 assms(2) show "keeps st (snd (pop_symtab s2))" by (simp add: keeps_def)
qed

lemma local_set_child:
  "local_tree nd \<Longrightarrow> \<forall>c\<in>set cs. local_tree c \<Longrightarrow> local_tree (set_child cs nd)"
  by (simp add: local_tree_iff [of nd] local_tree_iff [of "set_child cs nd"])

lemma keeps_new_type: "new_type s = (a, s') \<Longrightarrow> keeps st s \<Longrightarrow> keeps st s'"
  by (auto simp: new_type_def)

lemma keeping_children:
  assumes "keeping visit (below nd)" and "local_tree nd" and "set cs \<subseteq> set (nd_child nd)"
  shows "keeping visit (set cs)" "keeping (\<lambda>c. visit (upd_sema f c)) (set cs)"
proof -
  have "c \<in> below nd" "upd_sema f c \<in> below nd" if "c \<in> set cs" for c
    using that assms(2,3) by (auto simp: below_def size_in_child local_tree_iff [of nd])
  with assms(1) show "keeping visit (set cs)" "keeping (\<lambda>c. visit (upd_sema f c)) (set cs)"
    by (auto simp: keeping_def)
qed

lemma visitors_keep:
  assumes k: "keeping visit (below nd)" and l: "local_tree nd"
    and tag: "nd_tag nd \<noteq> STRUCT_is_DEF" "nd_tag nd \<noteq> STRUCT_is_ID_DEF" "nd_tag nd \<noteq> STMT_is_COMPST"
      "nd_tag nd \<noteq> EXTDEC_is_VARDEC" "nd_tag nd \<noteq> EXP_is_ID_ARG"
  shows "valid (post st) (sema_visitors (nd_tag nd) visit nd st)"
proof -
  have tl: "set (tl (nd_child nd)) \<subseteq> set (nd_child nd)" by (cases "nd_child nd") auto
  note sub = keeping_children [OF k l]
  note vc = valid_rules visitI [OF k, where st = st] declareI [where st = st] insertI [where st = st]
    visit_allI [where st = st] valid_any
  show ?thesis
    using l [unfolded local_tree_iff [of nd]] tag
    apply (cases "nd_tag nd"; simp only: sema_visitors.simps)
    apply simp_all
    unfolding visitor_defs Let_def
    apply (rule vc | (auto simp: below_child [OF l] local_put_child local_set_child l sub tl local_tree_child [OF l] child_put_child
        split: option.split if_split intro!: keeps_report elim: keeps_new_type; fail))+
    done
qed

lemma extdec_keeps:
  assumes k: "keeping visit (below nd)" and l: "local_tree nd" and c: "set cs \<subseteq> set (nd_child nd)"
  shows "keeping (extdec_vardec visit t) (set cs)"
proof -
  have "valid (post st) (extdec_vardec visit t c st)" if "c \<in> set cs" for c st
  proof -
    from that l c have b: "set_type t c \<in> below nd"
      by (auto simp: below_def size_in_child local_tree_iff [of nd])
    show ?thesis
      unfolding extdec_vardec_def Let_def
      by (rule valid_rules visitI [OF k, where st = st] declareI [where st = st] | (auto simp: b; fail))+
  qed
  then show ?thesis by (auto simp: keeping_def valid_def)
qed

lemma struct_keeps:
  assumes k: "keeping visit (below nd)" and l: "local_tree nd"
  shows "valid (post st) (struct_is_id_def visit nd st)"
proof -
  have sub: "keeping visit (set (drop n (nd_child nd)))" for n
    by (rule keeping_children(1) [OF k l set_drop_subset])
  have loc: "\<forall>c\<in>set (take n (nd_child nd)). local_tree c" for n
    using l by (auto simp: local_tree_iff [of nd] dest: in_set_takeD)
  have meta: "valid (keeps st) (register_struct name this l s)" if "keeps st s" for s name this l
    unfolding register_struct_def Let_def
    by (rule valid_rules insertI [where st = st] | (auto simp: that intro!: keeps_report elim: keeps_new_type; fail))+
  have pop: "keeps st s3" if "new_symtab (st\<lparr>is_in_struct := True, offset := 0\<rparr>) = Some s1"
    "new_type s1 = (a, s2)" "keeps s2 s'" "pop_symtab s' = (t, s3)" for s1 s2 s3 s' a t
    using block_keeps(1) [OF that(1), of s'] that(2-4) by (auto simp: new_type_def)
  show ?thesis
    unfolding struct_is_id_def_def Let_def
    apply (rule valid_bind, rule valid_any)
    apply (rule valid_bind, rule valid_any)
    apply (rule valid_prod)
    apply (rule valid_bind)
    apply (rule visit_allI [OF sub keeps_refl])
    apply (simp only: prod.case)
    apply (rule valid_prod)
    apply (drule (3) pop)
    apply (rule valid_bind)
    apply (rule valid_weaken [where P = "keeps st"])
    apply (simp add: meta)
    using loc l apply (auto intro!: local_set_child)
    done
qed

lemma visitors_keep_all:
  assumes k: "keeping visit (below nd)" and l: "local_tree nd"
  shows "valid (post st) (sema_visitors (nd_tag nd) visit nd st)"
proof -
  have tl: "set (tl (nd_child nd)) \<subseteq> set (nd_child nd)" by (cases "nd_child nd") auto
  have ltl: "\<forall>c\<in>set (tl (nd_child nd)). local_tree c" using l tl by (auto simp: local_tree_iff [of nd])
  note sub = keeping_children [OF k l]
  have "valid (post st) (extdec_is_vardec visit nd st)"
    unfolding extdec_is_vardec_def
    by (rule valid_rules visit_allI [where st = st] | (auto simp: extdec_keeps [OF k l] local_set_child l; fail))+
  moreover have "valid (post st) (exp_is_id_arg visit nd st)"
    unfolding exp_is_id_arg_def
    by (rule valid_rules check_paramI [where st = st] valid_any |
      (auto simp: sub tl ltl local_set_child local_tree_child [OF l] l intro!: keeps_report; fail))+
  moreover have "valid (post st) (stmt_is_compst visit nd st)"
  proof (rule valid_any)
    fix r
    assume "stmt_is_compst visit nd st = Some r"
    then obtain s1 c c' s2 where
      *: "new_symtab st = Some s1" "child 0 nd = Some c" "visit (set_type (nd_type nd) c) s1 = Some (c', s2)"
        "r = (set_symtab (fst (pop_symtab s2)) (put_child 0 c' nd), snd (pop_symtab s2))"
      by (auto simp: stmt_is_compst_def bind_Some_iff split_def Let_def)
    then have "keeps s1 s2 \<and> local_tree c'" using keepingD [OF k *(3)] below_child [OF l *(2)] by simp
    with * show "post st r" by (simp add: block_keeps(1) local_put_child l)
  qed
  ultimately show ?thesis
    using visitors_keep [OF k l] struct_keeps [OF k l] by (cases "nd_tag nd") auto
qed

lemma sema_visit_keeps: "local_tree nd \<Longrightarrow> valid (post st) (sema_visit nd st)"
proof (induction "size nd" arbitrary: nd st rule: less_induct)
  case less
  then have "keeping sema_visit (below nd)"
    by (auto simp: keeping_def below_def valid_def)
  with less.prems show ?case by (simp add: sema_visit_eq [of nd] visitors_keep_all)
qed

section \<open>Function definitions and the program\<close>

lemma nd_sema_upd: "nd_sema (upd_sema f nd) = f (nd_sema nd)"
  by (cases nd) simp

text \<open>
  A function definition enters its name into the outer scope and stores the parameter list there
  later, so only the height of the stack is kept.
\<close>

definition level :: "sema_state \<Rightarrow> sema_state \<Rightarrow> bool" where
  "level st st' \<longleftrightarrow> scope_cnt st' = scope_cnt st \<and>
     (list_all tab_wf (scopes st) \<longrightarrow> list_all tab_wf (scopes st')) \<and>
     (log_ok st \<longrightarrow> log_ok st') \<and> (semantic_error st \<longrightarrow> semantic_error st')"

lemma keeps_level: "keeps st st' \<Longrightarrow> level st st'"
  by (simp add: keeps_def level_def)

lemma level_trans: "level st st' \<Longrightarrow> level st' st'' \<Longrightarrow> level st st''"
  by (simp add: level_def)

lemma level_offset [simp]: "level st (st'\<lparr>offset := n\<rparr>) = level st st'" "level (st\<lparr>offset := n\<rparr>) st' = level st st'"
  by (simp_all add: level_def log_ok_def)

lemma set_param_level: "level st (set_param addr params st)"
proof -
  have "tab_wf (map (map f) tab)" if "tab_wf tab" "\<And>s. symbol_of (f s) = symbol_of s" for f tab
    using that by (auto simp: tab_wf_def)
  then show ?thesis
    by (auto simp: level_def set_param_def Let_def list_all_iff log_ok_def split: Type.split)
qed

lemma get_params_keeps:
  assumes "keeping visit (set vars)" and "get_params visit vars st = Some (ps, vars', st')"
  shows "keeps st st'"
  using assms
proof (induction vars arbitrary: st ps vars')
  case (Cons var vars)
  from Cons.prems(2) obtain v s1 ps' vs where
    *: "visit var st = Some (v, s1)" "get_params visit vars s1 = Some (ps', vs, st')"
    by (auto simp: bind_Some_iff)
  have "keeps s1 st'" using Cons.IH [OF keeping_mono [OF Cons.prems(1)] *(2)] by auto
  moreover have "keeps st s1" using keepingD [OF Cons.prems(1) *(1)] by simp
  ultimately show ?case using keeps_trans by blast
qed simp

definition func_tree :: "Node \<Rightarrow> bool" where
  "func_tree nd \<longleftrightarrow> nd_tag nd = FUNC_is_ID_VAR \<and> (\<forall>c\<in>set (nd_child nd). local_tree c)"

definition extdef_tree :: "Node \<Rightarrow> bool" where
  "extdef_tree nd \<longleftrightarrow> local_tree nd \<or> nd_tag nd = EXTDEF_is_SPEC_FUNC_COMPST \<and>
     (\<exists>spec func compst. nd_child nd = [spec, func, compst] \<and> local_tree spec \<and> func_tree func \<and> local_tree compst)"

lemma keeping_local: "\<forall>c\<in>A. local_tree c \<Longrightarrow> keeping sema_visit A"
  using sema_visit_keeps by (auto simp: keeping_def valid_def)

lemma func_visit:
  assumes "func_tree nd" and "sema_visit nd st = Some (nd', st')"
  shows "\<exists>st0. new_symtab st0 \<noteq> None \<and> keeps st st0 \<and>
    (\<forall>s1. new_symtab st0 = Some s1 \<longrightarrow> level s1 st')"
proof -
  from assms have run: "func_is_id_var sema_visit nd st = Some (nd', st')"
    by (simp add: sema_visit_eq [of nd] func_tree_def)
  then obtain name addr symbol s1 s2 l m s3 ps vs s4 where
    *: "insert_top name (Some (Func_of addr name (nd_type nd) [])) l (st\<lparr>next_type := Suc (next_type st)\<rparr>) = Some (symbol, s1)"
      "s2 = error_if (symbol = None) l m s1" "new_symtab s2 = Some s3"
      "get_params sema_visit (tl (nd_child nd)) s3 = Some (ps, vs, s4)" "st' = set_param addr ps s4"
    by (auto simp: func_is_id_var_def bind_Some_iff Let_def new_type_def)
  have "keeps st s1" using insert_top_keeps(1) [OF *(1)] by simp
  then have "keeps st s2" unfolding *(2) by (rule keeps_report)
  moreover have "\<forall>c\<in>set (tl (nd_child nd)). local_tree c"
    using assms(1) by (cases "nd_child nd") (auto simp: func_tree_def)
  then have "keeps s3 s4" using get_params_keeps [OF keeping_local *(4)] by simp
  then have "level s3 st'" unfolding *(5) using keeps_level level_trans set_param_level by blast
  ultimately show ?thesis using *(3) by auto
qed

lemma extdef_visit:
  assumes "extdef_tree nd" and run: "sema_visit nd st = Some (nd', st')"
  shows "level st st' \<and> (nd_tag nd = EXTDEF_is_SPEC_FUNC_COMPST \<longrightarrow> sema_symtab (nd_sema nd') \<noteq> None)"
proof (cases "local_tree nd")
  case True
  with run sema_visit_keeps have "keeps st st'" by (fastforce simp: valid_def)
  with True show ?thesis using keeps_level by (auto simp: local_tree_iff [of nd])
next
  case False
  with assms(1) obtain spec func compst where
    nd: "nd_tag nd = EXTDEF_is_SPEC_FUNC_COMPST" "nd_child nd = [spec, func, compst]"
      and loc: "local_tree spec" "func_tree func" "local_tree compst"
    by (auto simp: extdef_tree_def)
  then obtain spec' s1 func' s2 compst' s3 where
    *: "sema_visit spec st = Some (spec', s1)"
      "sema_visit (set_type (nd_type spec') func) (s1\<lparr>offset := 0\<rparr>) = Some (func', s2)"
      "sema_visit (set_type (nd_type spec') compst) s2 = Some (compst', s3)"
      "st' = snd (pop_symtab (s3\<lparr>offset := offset s1\<rparr>))"
      "sema_symtab (nd_sema nd') = fst (pop_symtab (s3\<lparr>offset := offset s1\<rparr>))"
    using run
    by (auto simp: sema_visit_eq [of nd] extdef_is_spec_func_compst_def child_def bind_Some_iff split_def Let_def
        nd_sema_upd)
  have func: "func_tree (set_type (nd_type spec') func)" using loc(2) by (simp add: func_tree_def)
  obtain s0 s1' where 0: "new_symtab s0 = Some s1'" "keeps s1 s0" "level s1' s2"
    using func_visit [OF func *(2)] by auto
  have "keeps st s1" "keeps s2 s3"
    using sema_visit_keeps [of spec st] sema_visit_keeps [of "set_type (nd_type spec') compst" s2] loc *
    by (auto simp: valid_def)
  with 0 have "level st s0" "level s1' s3" using keeps_level level_trans by blast+
  moreover have "scopes s1' = scopes s0 @ [calloc_symtab]" "log_ok s1' = log_ok s0" "semantic_error s1' = semantic_error s0"
    using 0(1) by (auto simp: new_symtab_def push_symtab_def Let_def log_ok_def split: if_splits)
  ultimately show ?thesis
    by (cases "scopes s3" rule: rev_cases) (auto simp: level_def log_ok_def pop_symtab_def *(4,5) calloc_symtab_wf)
qed

subsection \<open>The trees of the grammar\<close>

abbreviation local_chain :: "Node list \<Rightarrow> bool" where
  "local_chain nds \<equiv> \<forall>nd\<in>set nds. local_tree nd"

lemma local_create [intro]:
  assumes "\<forall>c\<in>set args. local_chain c"
    and "tag \<noteq> FUNC_is_ID_VAR" "tag \<noteq> EXTDEF_is_SPEC_FUNC_COMPST" "tag \<noteq> PROG_is_EXTDEF"
  shows "local_chain (create_tree tag l args)"
  using assms by (auto simp: create_tree_def dest: in_set_takeD)

lemma local_set_val: "local_tree (set_val v nd) = local_tree nd"
  by (cases nd) simp

lemma local_terminal [simp]: "local_tree (id_node t)" "local_tree (int_node n)" "local_tree (float_node f)"
  by (simp_all add: id_node_def int_node_def float_node_def)

lemma local_exp: "local_chain (act_exp e)"
  by (induction e rule: act_exp.induct) (auto simp: create_tree_def local_set_val)

lemma local_vardec: "local_chain (act_vardec v)"
  by (induction v) (auto simp: create_tree_def)

lemma local_dec: "local_chain (act_dec d)"
  using local_vardec local_exp by (auto simp: act_dec_def create_tree_def Let_def split: option.splits)

lemma local_spec: "local_chain (act_spec sp)" and local_def: "local_chain (act_def d)"
  by (induction sp and d rule: act_spec_act_def.induct) (auto simp: create_tree_def local_dec)

lemma local_stmt: "local_chain (act_stmt st)"
  by (induction st rule: act_stmt.induct) (auto simp: create_tree_def local_exp local_def)

lemma local_extdecs: "local_chain (act_extdecs vs)"
  by (induction vs rule: act_extdecs.induct) (auto simp: create_tree_def local_vardec)

lemma local_param: "local_chain (act_param p)"
  by (auto simp: act_param_def create_tree_def local_spec local_vardec)

lemma act_spec_single: "\<exists>nd. act_spec s = [nd]"
  by (cases s rule: act_spec.cases) (auto simp: create_tree_def)

lemma extdef_chain: "\<forall>nd\<in>set (act_extdef d). extdef_tree nd"
proof (cases d)
  case (Ext_func_p s f ps l ds ss)
  obtain nd where "act_spec s = [nd]" using act_spec_single by blast
  moreover from this local_spec have "local_tree nd" by (metis list.set_intros(1))
  moreover have "local_chain (create_tree COMPST_is_DEF_STMT l [concat (map act_def ds), concat (map act_stmt ss)])"
    using local_def local_stmt by (intro local_create) auto
  ultimately show ?thesis
    using local_param by (auto simp: Ext_func_p extdef_tree_def func_tree_def create_tree_def)
qed (auto simp: extdef_tree_def create_tree_def local_spec local_extdecs)

lemma act_program_tree:
  assumes "act_program ds = Some prog"
  shows "nd_tag prog = PROG_is_EXTDEF" "\<forall>c\<in>set (nd_child prog). extdef_tree c" "nd_sema prog = no_sema"
proof -
  from assms obtain l where
    prog: "prog = Node PROG_is_EXTDEF l Val_none no_sema no_trans (concat (map act_extdef ds))"
    by (auto simp: act_program_def create_tree_def split: list.splits)
  show "nd_tag prog = PROG_is_EXTDEF" "nd_sema prog = no_sema" by (simp_all add: prog)
  show "\<forall>c\<in>set (nd_child prog). extdef_tree c" using extdef_chain by (auto simp: prog)
qed

lemma extdefs_level:
  assumes "\<forall>c\<in>set cs. extdef_tree c" and "visit_all sema_visit cs st = Some (cs', st')"
  shows "level st st'"
  using assms
proof (induction cs arbitrary: st cs')
  case (Cons c cs)
  then show ?case using extdef_visit level_trans
    by (auto simp: bind_Some_iff) blast
qed (simp add: level_def)

lemma predefine_level:
  assumes "predefine st = Some st'"
  shows "scope_cnt st' = 1" "list_all tab_wf (scopes st')" "log_ok st' = log_ok st" "semantic_error st' = semantic_error st"
proof -
  let ?s = "st\<lparr>scopes := [calloc_symtab], scope_capacity := 1\<rparr>"
  from assms obtain p1 s1 p2 t1 t2 n m where
    *: "insert_top ''read'' t1 (- 1) (?s\<lparr>next_type := n\<rparr>) = Some (p1, s1)"
      "insert_top ''write'' t2 (- 1) (s1\<lparr>next_type := m\<rparr>) = Some (p2, st')"
    by (auto simp: predefine_def new_symtab_start new_type_def bind_Some_iff)
  from insert_top_keeps(1) [OF *(1)] insert_top_keeps(1) [OF *(2)]
  have "keeps ?s st'" using keeps_trans by fastforce
  then show "scope_cnt st' = 1" "list_all tab_wf (scopes st')"
    by (auto simp: keeps_def calloc_symtab_wf)
  from * show "log_ok st' = log_ok st" "semantic_error st' = semantic_error st"
    by (auto simp: insert_top_def bind_Some_iff log_ok_def)
qed

lemma compst_scopes:
  assumes "nd_tag nd = STMT_is_COMPST" and "local_tree nd" and "sema_visit nd st = Some (nd', st')"
  shows "scopes st' = scopes st" "sema_symtab (nd_sema nd') \<noteq> None"
proof -
  from assms obtain s1 c c' s2 where
    *: "new_symtab st = Some s1" "child 0 nd = Some c" "sema_visit (set_type (nd_type nd) c) s1 = Some (c', s2)"
      "st' = snd (pop_symtab s2)" "sema_symtab (nd_sema nd') = fst (pop_symtab s2)"
    by (auto simp: sema_visit_eq [of nd] stmt_is_compst_def bind_Some_iff split_def Let_def nd_sema_upd)
  have "keeps s1 s2"
    using *(2,3) assms(2) sema_visit_keeps [of "set_type (nd_type nd) c" s1] by (auto simp: valid_def local_tree_child)
  with *(1) show "scopes st' = scopes st" "sema_symtab (nd_sema nd') \<noteq> None"
    unfolding *(4,5) by (rule block_keeps)+
qed

section \<open>Properties\<close>

lemma analyze_program_stack:
  assumes "act_program ds = Some prog" and "log_ok st" and "analyze_program prog st = Some (prog', st')"
  shows "scopes st' = [] \<and> sema_symtab (nd_sema prog') \<noteq> None \<and> (semantic_error st' \<longleftrightarrow> sema_log st' \<noteq> [])"
proof -
  from assms(3) obtain s1 cs s2 where
    *: "predefine st = Some s1" "visit_all sema_visit (nd_child prog) s1 = Some (cs, s2)"
      "st' = snd (pop_symtab s2)" "sema_symtab (nd_sema prog') = fst (pop_symtab s2)"
    using act_program_tree [OF assms(1)]
    by (auto simp: analyze_program_def sema_visit_eq [of prog] prog_is_extdef_def bind_Some_iff split_def Let_def nd_sema_upd)
  have "level s1 s2" using extdefs_level [OF _ *(2)] act_program_tree [OF assms(1)] by simp
  with predefine_level [OF *(1)] assms(2) have "scope_cnt s2 = 1" "log_ok s2" by (simp_all add: level_def)
  then show ?thesis
    by (cases "scopes s2" rule: rev_cases) (auto simp: *(3,4) pop_symtab_def log_ok_def)
qed

text \<open>
  C11: analysing a program of the grammar opens and closes every scope exactly once: the stack of
  scopes is empty afterwards, the table of the program is stored in its root, and the error flag
  is set exactly when a message has been written.
\<close>

theorem analyze_program_scopes:
  assumes "act_program ds = Some prog" and "log_ok st" and "analyze_program prog st = Some (prog', st')"
  shows "scopes st' = [] \<and> sema_symtab (nd_sema prog') \<noteq> None \<and> (semantic_error st' \<longleftrightarrow> sema_log st' \<noteq> [])"
  using assms by (rule analyze_program_stack)


definition demo_main :: "ExtDef_p list" where
  "demo_main = [Ext_func_p (Type_p (1, ''int'')) (1, ''main'') [] 1 [] [Return_p 1 (Int_p (1, 0))]]"

theorem analyze_program_scopes_witness:
  "\<exists>prog prog' st'. act_program demo_main = Some prog \<and> analyze_program prog sema_start = Some (prog', st') \<and>
     scopes st' = [] \<and> sema_symtab (nd_sema prog') \<noteq> None \<and> (semantic_error st' \<longleftrightarrow> sema_log st' \<noteq> [])"
proof -
  have "case act_program demo_main of None \<Rightarrow> False | Some prog \<Rightarrow> analyze_program prog sema_start \<noteq> None"
    by code_simp
  then obtain prog prog' st' where
    "act_program demo_main = Some prog" "analyze_program prog sema_start = Some (prog', st')"
    by (auto split: option.splits)
  moreover have "log_ok sema_start" by (simp add: log_ok_def sema_start_def)
  ultimately show ?thesis using analyze_program_scopes [of demo_main prog sema_start prog' st'] by blast
qed


definition demo_block :: Stmt_p where
  "demo_block = Compst_p 1 [Def_p (Type_p (1, ''int'')) [(Vid_p (1, ''x''), None)]]
     [Exp_stmt_p (Assign_p 1 (Id_p (1, ''x'')) (Int_p (1, 3)))]"



end
