(* ===== verification/Typing.thy ===== *)
theory Typing
  imports Driver
begin

text \<open>
  The type rules of expressions as a judgement, and the theorem that the visitors of
  \<open>semantic.c\<close> accept exactly the expressions the rules derive.
\<close>

section \<open>The rules\<close>

text \<open>
  Two types are compatible when \<open>typecmp\<close> says so; the null type, which a call of \<open>write\<close>
  has, is compatible with every type.
\<close>

definition compatible :: "Type option \<Rightarrow> Type option \<Rightarrow> bool" where
  "compatible t u \<longleftrightarrow> typecmp_ptr t u = Some True"

fun assignable :: "sema_state \<Rightarrow> Exp_p \<Rightarrow> bool" where
  "assignable st (Paren_p e) = assignable st e"
| "assignable st (Id_p x) \<longleftrightarrow>
     (\<exists>ent. query (snd x) st = Some (Some ent) \<and> class_of (symbol_type ent) \<notin> {CMM_FUNC, CMM_TYPE, CMM_ARRAY})"
| "assignable st (Idx_p _ _ _) = True"
| "assignable st (Field_p _ _ _) = True"
| "assignable st _ = False"

inductive typed :: "sema_state \<Rightarrow> Exp_p \<Rightarrow> Type option \<Rightarrow> bool" for st where
  int_const: "typed st (Int_p n) (Some Basic_INT)"
| float_const: "typed st (Float_p f) (Some Basic_FLOAT)"
| name: "query (snd x) st = Some (Some ent) \<Longrightarrow> class_of (symbol_type ent) \<noteq> CMM_TYPE \<Longrightarrow>
    typed st (Id_p x) (Some (symbol_type ent))"
| paren: "typed st e t \<Longrightarrow> typed st (Paren_p e) t"
| unary: "typed st e t \<Longrightarrow> compatible t (Some Basic_INT) \<Longrightarrow> typed st (Unary_p l op e) t"
| binary: "typed st a t \<Longrightarrow> typed st b u \<Longrightarrow> compatible t u \<Longrightarrow>
    compatible t (Some Basic_INT) \<or> compatible t (Some Basic_FLOAT) \<Longrightarrow> typed st (Binary_p l op a b) t"
| relop: "typed st a t \<Longrightarrow> typed st b u \<Longrightarrow> compatible t u \<Longrightarrow>
    compatible t (Some Basic_INT) \<or> compatible t (Some Basic_FLOAT) \<Longrightarrow> typed st (Relop_p l op a b) t"
| assign: "typed st a t \<Longrightarrow> typed st b u \<Longrightarrow> compatible t u \<Longrightarrow> assignable st a \<Longrightarrow>
    typed st (Assign_p l a b) t"
| index: "typed st a (Some (Array_of addr base n sz)) \<Longrightarrow> typed st i u \<Longrightarrow>
    (case u of None \<Rightarrow> True | Some v \<Rightarrow> class_of v = CMM_INT) \<Longrightarrow> typed st (Idx_p l a i) (Some base)"
| index_void: "typed st a None \<Longrightarrow> typed st i u \<Longrightarrow>
    (case u of None \<Rightarrow> True | Some v \<Rightarrow> class_of v = CMM_INT) \<Longrightarrow> typed st (Idx_p l a i) None"
| field: "typed st a (Some (Struct_of addr s (Field_table tab) sz ln)) \<Longrightarrow>
    query_without_fallback (snd f) tab = Some (Some ent) \<Longrightarrow> typed st (Field_p l a f) (Some (symbol_type ent))"
| call: "query (snd f) st = Some (Some ent) \<Longrightarrow> func_sig (symbol_type ent) = Some (params, ret) \<Longrightarrow>
    list_all2 (\<lambda>e p. \<exists>t. typed st e t \<and> compatible t (Some (snd p))) args params \<Longrightarrow>
    typed st (Call_p f args) ret"

section \<open>The node of an expression\<close>

primrec exp_node :: "Exp_p \<Rightarrow> Node" where
  "exp_node (Assign_p l a b) = Node EXP_is_ASSIGN l Val_none no_sema no_trans [exp_node a, exp_node b]"
| "exp_node (And_p l a b) = Node EXP_is_AND l Val_none no_sema no_trans [exp_node a, exp_node b]"
| "exp_node (Or_p l a b) = Node EXP_is_OR l Val_none no_sema no_trans [exp_node a, exp_node b]"
| "exp_node (Relop_p l s a b) = Node EXP_is_RELOP l (Val_s s) no_sema no_trans [exp_node a, exp_node b]"
| "exp_node (Binary_p l s a b) = Node EXP_is_BINARY l (Val_s s) no_sema no_trans [exp_node a, exp_node b]"
| "exp_node (Idx_p l a b) = Node EXP_is_EXP_IDX l Val_none no_sema no_trans [exp_node a, exp_node b]"
| "exp_node (Field_p l a f) = Node EXP_is_EXP_FIELD l Val_none no_sema no_trans [exp_node a, id_node f]"
| "exp_node (Paren_p a) = exp_node a"
| "exp_node (Unary_p l s a) = Node EXP_is_UNARY l (Val_s s) no_sema no_trans [exp_node a]"
| "exp_node (Call_p f args) = Node EXP_is_ID_ARG (fst f) Val_none no_sema no_trans (id_node f # map exp_node args)"
| "exp_node (Id_p t) = Node EXP_is_ID (fst t) Val_none no_sema no_trans [id_node t]"
| "exp_node (Int_p t) = Node EXP_is_INT (fst t) Val_none no_sema no_trans [int_node t]"
| "exp_node (Float_p t) = Node EXP_is_FLOAT (fst t) Val_none no_sema no_trans [float_node t]"

lemma act_exp_node: "act_exp e = [exp_node e]"
proof (induction e rule: act_exp.induct)
  case (10 f args)
  then have "concat (map act_exp args) = map exp_node args" by (induction args) auto
  then show ?case by (simp add: create_tree_def)
qed (simp_all add: create_tree_def)

section \<open>What a visit reports\<close>

definition reports :: "sema_state \<Rightarrow> (int \<times> string) list \<Rightarrow> sema_state" where
  "reports st l = st\<lparr>semantic_error := semantic_error st \<or> l \<noteq> [], sema_log := sema_log st @ l\<rparr>"

lemma reports_Nil [simp]: "reports st [] = st"
  by (simp add: reports_def)

lemma reports_reports [simp]: "reports (reports st l) m = reports st (l @ m)"
  by (simp add: reports_def)

lemma reports_eq [simp]: "reports st l = st \<longleftrightarrow> l = []"
  by (metis append_self_conv reports_Nil reports_def sema_state.select_convs(5) sema_state.surjective sema_state.update_convs(5))

lemma reports_self [simp]: "\<exists>l. st = reports st l"
  by (rule exI [of _ "[]"]) simp

lemma SEMA_ERROR_reports: "SEMA_ERROR_MSG l m st = reports st [(l, m)]"
  by (simp add: SEMA_ERROR_MSG_def reports_def)

lemma error_if_reports: "error_if b l m st = reports st (if b then [(l, m)] else [])"
  by (simp add: error_if_def SEMA_ERROR_reports)

lemma query_reports [simp]: "query s (reports st l) = query s st"
  by (simp add: query_def query_place_def reports_def)


lemma assignable_reports [simp]: "assignable (reports st l) e = assignable st e"
  by (induction e) simp_all

lemma typed_mono:
  assumes "typed st e t" and "\<And>s. query s st' = query s st"
  shows "typed st' e t"
  using assms(1)
proof induction
  case (assign a t b u l)
  have "assignable st' a" using \<open>assignable st a\<close> by (induction a) (simp_all add: assms(2))
  with assign show ?case by (auto intro: typed.intros)
next
  case (call f ent params ret args)
  from call(3) have "list_all2 (\<lambda>e p. \<exists>t. typed st' e t \<and> compatible t (Some (snd p))) args params"
    by (rule list_all2_mono) blast
  with call(1,2) show ?case by (intro typed.call) (simp_all add: assms(2))
qed (auto intro: typed.intros simp: assms(2))

lemma typed_reports [simp]: "typed (reports st l) e t = typed st e t"
  using typed_mono [of st e t "reports st l"] typed_mono [of "reports st l" e t st] by auto

definition same_head :: "Exp_p \<Rightarrow> Node \<Rightarrow> bool" where
  "same_head e nd \<longleftrightarrow> nd_tag nd = nd_tag (exp_node e) \<and>
     (nd_tag nd = EXP_is_ID \<longrightarrow> nd_child nd = nd_child (exp_node e))"

definition judged :: "sema_state \<Rightarrow> Exp_p \<Rightarrow> Node \<Rightarrow> sema_state \<Rightarrow> bool" where
  "judged st e nd st' \<longleftrightarrow>
     (\<exists>l. st' = reports st l \<and> same_head e nd \<and> (l = [] \<longrightarrow> typed st e (nd_type nd)))"

lemma nd_type_upd [simp]:
  "nd_type (set_type t nd) = t" "nd_type (put_child k c nd) = nd_type nd" "nd_type (set_child cs nd) = nd_type nd"
  "nd_type (Node tg l v s a cs) = sema_type s"
  by (cases nd; simp add: nd_type_def put_child_def)+

lemma is_lval_assignable:
  assumes "same_head e nd" and "is_lval nd st = Some True"
  shows "assignable st e"
  using assms
  by (induction e) (auto simp: same_head_def is_lval_def child_def id_node_def val_s_def bind_Some_iff split: if_splits option.splits)

lemma same_headI: "nd_tag nd = nd_tag (exp_node e) \<Longrightarrow> nd_tag (exp_node e) \<noteq> EXP_is_ID \<Longrightarrow> same_head e nd"
  by (simp add: same_head_def)

lemma judgedI: "same_head e nd \<Longrightarrow> (l = [] \<Longrightarrow> typed st e (nd_type nd)) \<Longrightarrow> judged st e nd (reports st l)"
  by (auto simp: judged_def)

lemma judged_self: "same_head e nd \<Longrightarrow> typed st e (nd_type nd) \<Longrightarrow> judged st e nd st"
  using judgedI [of e nd "[]" st] by simp

lemma is_lval_reports [simp]: "is_lval nd (reports st l) = is_lval nd st"
  by (simp add: is_lval_def)

lemma judged_args:
  assumes "\<And>e st nd st'. e \<in> set args \<Longrightarrow> sema_visit (exp_node e) st = Some (nd, st') \<Longrightarrow> judged st e nd st'"
    and "check_param_list sema_visit params (map exp_node args) ln st = Some (nds, st')"
  shows "\<exists>l. st' = reports st l \<and>
    (l = [] \<longrightarrow> list_all2 (\<lambda>e p. \<exists>t. typed st e t \<and> compatible t (Some (snd p))) args params)"
  using assms
proof (induction params arbitrary: args st nds)
  case Nil
  then show ?case by (cases args) (auto simp: error_if_reports)
next
  case (Cons p params)
  show ?case
  proof (cases args)
    case Nil
    with Cons.prems show ?thesis by (auto simp: error_if_reports)
  next
    case (Cons e es)
    with Cons.prems(2) obtain nd s1 ok nds' where
      *: "sema_visit (exp_node e) st = Some (nd, s1)" "typecmp_ptr (nd_type nd) (Some (snd p)) = Some ok"
        "check_param_list sema_visit params (map exp_node es) ln
           (error_if (\<not> ok) (nd_lineno nd) ''parameter type mismatches'' s1) = Some (nds', st')"
      by (auto simp: bind_Some_iff Let_def)
    obtain l where l: "s1 = reports st l" "l = [] \<Longrightarrow> typed st e (nd_type nd)"
      using Cons.prems(1) [OF _ *(1)] \<open>args = e # es\<close> by (auto simp: judged_def)
    obtain m where m: "st' = reports (error_if (\<not> ok) (nd_lineno nd) ''parameter type mismatches'' s1) m"
      "m = [] \<Longrightarrow> list_all2 (\<lambda>e p. \<exists>t. typed st e t \<and> compatible t (Some (snd p))) es params"
      using Cons.IH [OF _ *(3)] Cons.prems(1) \<open>args = e # es\<close> by (auto simp: l(1) error_if_reports)
    show ?thesis
      using l m *(2) \<open>args = e # es\<close>
      by (intro exI [of _ "l @ (if ok then [] else [(nd_lineno nd, ''parameter type mismatches'')]) @ m"])
        (auto simp: error_if_reports compatible_def)
  qed
qed

lemma array_baseD: "array_base t = Some base \<Longrightarrow> \<exists>addr n sz. t = Array_of addr base n sz"
  by (cases t) simp_all

lemma struct_tableD: "struct_table t = Some (flds, s) \<Longrightarrow> \<exists>addr sz ln. t = Struct_of addr s flds sz ln"
  by (cases t) simp_all

lemma judged_visit:
  assumes "\<And>st nd st'. sema_visit (exp_node e) st = Some (nd, st') \<Longrightarrow> judged st e nd st'"
    and "\<And>nd l. same_head e nd \<Longrightarrow> (l = [] \<Longrightarrow> typed st e (nd_type nd)) \<Longrightarrow> Q (nd, reports st l)"
  shows "valid Q (sema_visit (exp_node e) st)"
  using assms by (fastforce simp: valid_def judged_def)

lemma binary_judged:
  assumes "\<And>st nd st'. sema_visit (exp_node a) st = Some (nd, st') \<Longrightarrow> judged st a nd st'"
    and "\<And>st nd st'. sema_visit (exp_node b) st = Some (nd, st') \<Longrightarrow> judged st b nd st'"
    and nd: "nd_child nd = [exp_node a, exp_node b]"
    and e: "nd_tag nd = nd_tag (exp_node e)" "nd_tag (exp_node e) \<noteq> EXP_is_ID"
    and rule: "\<And>t u. typed st a t \<Longrightarrow> typed st b u \<Longrightarrow> compatible t u \<Longrightarrow>
      compatible t (Some Basic_INT) \<or> compatible t (Some Basic_FLOAT) \<Longrightarrow> typed st e t"
  shows "valid (\<lambda>(nd', st'). judged st e nd' st') (exp_is_binary sema_visit nd st)"
proof -
  have c: "child 0 nd = Some (exp_node a)" "child 1 nd = Some (exp_node b)" by (simp_all add: child_def nd)
  show ?thesis
    unfolding exp_is_binary_def Let_def c Option.bind.simps
    by (rule valid_rules judged_visit [OF assms(1)] judged_visit [OF assms(2)] valid_any |
       (auto simp: e same_head_def SEMA_ERROR_reports compatible_def intro!: judgedI rule; fail))+
qed


lemma index_judged:
  assumes a: "la = [] \<Longrightarrow> typed st a (nd_type na)" and b: "lb = [] \<Longrightarrow> typed st b (nd_type nb)"
    and nd: "nd_tag nd = EXP_is_EXP_IDX" "nd_type nd = None"
    and st': "st' = error_if (case nd_type nb of None \<Rightarrow> False | Some t \<Rightarrow> class_of t \<noteq> CMM_INT) ln m (reports st (la @ lb))"
  shows "case (case nd_type na of
       None \<Rightarrow> (nd, st')
     | Some t \<Rightarrow> (case array_base t of
           None \<Rightarrow> (nd, SEMA_ERROR_MSG ln' m' st')
         | Some base \<Rightarrow> (set_type (Some base) nd, st'))) of (nd', st'') \<Rightarrow> judged st (Idx_p l a b) nd' st''"
proof -
  define bad where "bad = (case nd_type nb of None \<Rightarrow> False | Some t \<Rightarrow> class_of t \<noteq> CMM_INT)"
  define errs where "errs = la @ lb @ (if bad then [(ln, m)] else [])"
  have s: "st' = reports st errs" by (simp add: st' error_if_reports errs_def bad_def)
  have h: "same_head (Idx_p l a b) n" if "nd_tag n = EXP_is_EXP_IDX" for n
    using that by (intro same_headI) simp_all
  have t: "typed st a (nd_type na)" "typed st b (nd_type nb)" "\<not> bad" if "errs = []"
    using that a b by (auto simp: errs_def split: if_splits)
  have i: "(case nd_type nb of None \<Rightarrow> True | Some v \<Rightarrow> class_of v = CMM_INT)" if "\<not> bad"
    using that by (simp add: bad_def split: option.splits)
  show ?thesis
  proof (cases "nd_type na")
    case None
    have "typed st (Idx_p l a b) None" if "errs = []"
      using t [OF that] i None by (auto intro: typed.index_void)
    with None show ?thesis by (simp add: s) (rule judgedI [OF h], simp_all add: nd)
  next
    case (Some t0)
    show ?thesis
    proof (cases "array_base t0")
      case None
      with Some show ?thesis by (simp add: s SEMA_ERROR_reports) (rule judgedI [OF h], simp_all add: nd)
    next
      case base: (Some base)
      then obtain addr n sz where t0: "t0 = Array_of addr base n sz" by (auto dest: array_baseD)
      have "typed st (Idx_p l a b) (Some base)" if "errs = []"
        using t [OF that] i Some t0 by (auto intro: typed.index)
      with Some base show ?thesis by (simp add: s) (rule judgedI [OF h], simp_all add: nd)
    qed
  qed
qed

lemma visit_exp: "valid (\<lambda>(nd, st'). judged st e nd st') (sema_visit (exp_node e) st)"
proof (induction e arbitrary: st)
  case (Binary_p l op a b)
  have "valid (\<lambda>(nd, st'). judged st (Binary_p l op a b) nd st')
    (exp_is_binary sema_visit (exp_node (Binary_p l op a b)) st)"
    by (rule binary_judged [of a b]) (use Binary_p.IH in \<open>auto simp: valid_def intro: typed.binary\<close>)
  then show ?case by simp
next
  case (Relop_p l op a b)
  have "valid (\<lambda>(nd, st'). judged st (Relop_p l op a b) nd st')
    (exp_is_binary sema_visit (exp_node (Relop_p l op a b)) st)"
    by (rule binary_judged [of a b]) (use Relop_p.IH in \<open>auto simp: valid_def intro: typed.relop\<close>)
  then show ?case by simp
next
  case (Int_p n)
  show ?case by (auto simp: exp_is_int_def same_head_def intro!: judged_self typed.intros)
next
  case (Float_p n)
  show ?case by (auto simp: exp_is_float_def same_head_def intro!: judged_self typed.intros)
next
  case (Paren_p e)
  show ?case
    unfolding exp_node.simps
    by (rule valid_weaken [OF Paren_p.IH]) (auto simp: judged_def same_head_def intro: typed.paren)
next
  case (And_p l a b)
  show ?case by simp
next
  case (Or_p l a b)
  show ?case by simp
next
  case (Id_p x)
  let ?nd = "exp_node (Id_p x)"
  have c: "child 0 ?nd = Some (id_node x)" "val_s (id_node x) = Some (snd x)"
    by (simp_all add: child_def id_node_def val_s_def)
  have "valid (\<lambda>(nd, st'). judged st (Id_p x) nd st') (exp_is_id sema_visit ?nd st)"
    unfolding exp_is_id_def c Option.bind.simps
    by (rule valid_rules valid_any |
      (auto simp: SEMA_ERROR_reports same_head_def split: option.split if_split
        intro!: judgedI judged_self intro: typed.name; fail))+
  then show ?case by simp
next
  case (Assign_p l a b)
  let ?nd = "exp_node (Assign_p l a b)"
  have c: "child 0 ?nd = Some (exp_node a)" "child 1 ?nd = Some (exp_node b)" by (simp_all add: child_def)
  note IH = Assign_p.IH [unfolded valid_def]
  have "valid (\<lambda>(nd, st'). judged st (Assign_p l a b) nd st') (exp_is_assign sema_visit ?nd st)"
    unfolding exp_is_assign_def Let_def c Option.bind.simps
    by (rule valid_rules judged_visit valid_any |
       (use IH in \<open>auto simp: SEMA_ERROR_reports error_if_reports compatible_def
          intro!: same_headI judgedI typed.assign dest: is_lval_assignable\<close>; fail))+
  then show ?case by simp
next
  case (Unary_p l op a)
  let ?nd = "exp_node (Unary_p l op a)"
  have c: "child 0 ?nd = Some (exp_node a)" by (simp_all add: child_def)
  note IH = Unary_p.IH [unfolded valid_def]
  have "valid (\<lambda>(nd, st'). judged st (Unary_p l op a) nd st') (exp_is_unary sema_visit ?nd st)"
    unfolding exp_is_unary_def Let_def c Option.bind.simps
    by (rule valid_rules judged_visit valid_any |
       (use IH in \<open>auto simp: same_head_def SEMA_ERROR_reports error_if_reports compatible_def
          intro!: judgedI typed.unary\<close>; fail))+
  then show ?case by simp
next
  case (Idx_p l a b)
  let ?nd = "exp_node (Idx_p l a b)"
  have c: "child 0 ?nd = Some (exp_node a)" "child 1 ?nd = Some (exp_node b)" by (simp_all add: child_def)
  have IH: "judged s a nd s'" if "sema_visit (exp_node a) s = Some (nd, s')" for s nd s'
    using Idx_p.IH(1) [of s] that by (simp add: valid_def)
  have IH': "judged s b nd s'" if "sema_visit (exp_node b) s = Some (nd, s')" for s nd s'
    using Idx_p.IH(2) [of s] that by (simp add: valid_def)
  have "valid (\<lambda>(nd, st'). judged st (Idx_p l a b) nd st') (exp_is_exp_idx sema_visit ?nd st)"
    unfolding exp_is_exp_idx_def Let_def c Option.bind.simps
    apply (rule valid_bind, rule judged_visit [OF IH], assumption, simp only: prod.case)
    apply (rule valid_bind, rule judged_visit [OF IH'], assumption, simp only: prod.case)
    apply (rule valid_SomeI, rule index_judged, assumption)
    by (simp_all add: no_sema_def)
  then show ?case by simp
next
  case (Field_p l a f)
  let ?nd = "exp_node (Field_p l a f)"
  have c: "child 0 ?nd = Some (exp_node a)" by (simp_all add: child_def)
  note IH = Field_p.IH [unfolded valid_def]
  have "valid (\<lambda>(nd, st'). judged st (Field_p l a f) nd st') (exp_is_exp_field sema_visit ?nd st)"
    unfolding exp_is_exp_field_def Let_def c Option.bind.simps
    by (rule valid_rules judged_visit valid_any |
       (use IH in \<open>auto simp: same_head_def SEMA_ERROR_reports error_if_reports compatible_def child_put_child
          child_def id_node_def val_s_def field_table_def
          split: option.splits if_splits Fields.splits intro!: judgedI dest!: struct_tableD intro: typed.field\<close>; fail))+
  then show ?case by simp
next
  case (Call_p f args)
  let ?nd = "exp_node (Call_p f args)"
  have c: "child 0 ?nd = Some (id_node f)" "val_s (id_node f) = Some (snd f)" "tl (nd_child ?nd) = map exp_node args"
    by (simp_all add: child_def id_node_def val_s_def)
  have args: "valid Q (check_param_list sema_visit params (map exp_node args) ln st)"
    if "\<And>nds l. (l = [] \<Longrightarrow> list_all2 (\<lambda>e p. \<exists>t. typed st e t \<and> compatible t (Some (snd p))) args params) \<Longrightarrow>
      Q (nds, reports st l)" for Q params ln
  proof (rule valid_any)
    fix r
    assume r: "check_param_list sema_visit params (map exp_node args) ln st = Some r"
    have "judged s e nd s'" if "e \<in> set args" "sema_visit (exp_node e) s = Some (nd, s')" for e s nd s'
      using Call_p.IH [OF that(1), of s] that(2) by (simp add: valid_def)
    from judged_args [where args = args and params = params and ln = ln and st = st and nds = "fst r" and st' = "snd r",
        OF this] r
    obtain l where "snd r = reports st l"
      "l = [] \<longrightarrow> list_all2 (\<lambda>e p. \<exists>t. typed st e t \<and> compatible t (Some (snd p))) args params"
      by auto
    then show "Q r" using that [of l "fst r"] by (cases r) auto
  qed
  have "valid (\<lambda>(nd, st'). judged st (Call_p f args) nd st') (exp_is_id_arg sema_visit ?nd st)"
    unfolding exp_is_id_arg_def Let_def c Option.bind.simps
    by (rule valid_rules args valid_any |
       (auto simp: same_head_def SEMA_ERROR_reports intro!: judgedI intro: typed.call; fail))+
  then show ?case by simp
qed

section \<open>Every typed expression is accepted\<close>

lemma accept_args:
  assumes "list_all2 (\<lambda>e p. \<exists>t. (\<exists>nd. sema_visit (exp_node e) st = Some (nd, st) \<and> nd_type nd = t) \<and>
      compatible t (Some (snd p))) args params"
  shows "\<exists>nds. check_param_list sema_visit params (map exp_node args) ln st = Some (nds, st)"
  using assms
proof (induction rule: list_all2_induct)
  case (Cons e es p ps)
  then obtain nd nds where "sema_visit (exp_node e) st = Some (nd, st)" "compatible (nd_type nd) (Some (snd p))"
    "check_param_list sema_visit ps (map exp_node es) ln st = Some (nds, st)" by auto
  then show ?case by (simp add: compatible_def error_if_def)
qed (simp add: error_if_def)

lemma typecmp_basic:
  assumes "v = Basic_INT \<or> v = Basic_FLOAT"
  shows "\<exists>b. typecmp_ptr t (Some v) = Some b"
proof (cases t)
  case None
  then show ?thesis by (auto simp: typecmp_ptr_def)
next
  case (Some u)
  show ?thesis
  proof (cases "class_of u = class_of v")
    case True
    with assms have "u = v" by (cases u) auto
    with Some show ?thesis by (auto simp: typecmp_ptr_def)
  next
    case False
    with Some show ?thesis by (auto simp: typecmp_ptr_def typecmp_class)
  qed
qed

lemmas typecmp_number = typecmp_basic [of Basic_INT, simplified] typecmp_basic [of Basic_FLOAT, simplified]

lemma assignable_lval:
  assumes "assignable st e" and "same_head e nd"
  shows "is_lval nd st = Some True"
  using assms
  by (induction e) (auto simp: same_head_def is_lval_def child_def id_node_def val_s_def)

lemma typed_accepted:
  assumes "typed st e t"
  shows "\<exists>nd. sema_visit (exp_node e) st = Some (nd, st) \<and> nd_type nd = t"
  using assms
proof induction
  case (int_const n)
  then show ?case by (simp add: exp_is_int_def)
next
  case (float_const f)
  then show ?case by (simp add: exp_is_float_def)
next
  case (name x ent)
  then show ?case by (simp add: exp_is_id_def child_def id_node_def val_s_def)
next
  case (paren e t)
  then show ?case by simp
next
  case (unary e t l op)
  then show ?case by (auto simp: exp_is_unary_def child_def compatible_def)
next
  case (binary a t b u l op)
  then show ?case
    using typecmp_number [of t] by (auto simp: exp_is_binary_def child_def compatible_def Let_def)
next
  case (relop a t b u l op)
  then show ?case
    using typecmp_number [of t] by (auto simp: exp_is_binary_def child_def compatible_def Let_def)
next
  case (assign a t b u l)
  then obtain na nb where
    *: "sema_visit (exp_node a) st = Some (na, st)" "nd_type na = t" "sema_visit (exp_node b) st = Some (nb, st)" "nd_type nb = u"
    by auto
  have "same_head a na" using visit_exp [of st a] *(1) by (auto simp: valid_def judged_def)
  with assign * show ?case by (simp add: exp_is_assign_def child_def compatible_def assignable_lval error_if_def)
next
  case (index a addr base n sz i u l)
  then show ?case by (auto simp: exp_is_exp_idx_def child_def Let_def error_if_def split: option.splits)
next
  case (index_void a i u l)
  then show ?case by (auto simp: no_sema_def exp_is_exp_idx_def child_def Let_def error_if_def split: option.splits)
next
  case (field a addr s tab sz ln f ent l)
  then show ?case by (auto simp: exp_is_exp_field_def child_def Let_def field_table_def id_node_def val_s_def put_child_def)
next
  case (call f ent params ret args)
  have "list_all2 (\<lambda>e p. \<exists>t. (\<exists>nd. sema_visit (exp_node e) st = Some (nd, st) \<and> nd_type nd = t) \<and>
      compatible t (Some (snd p))) args params"
    using call(3) by (rule list_all2_mono) blast
  from accept_args [OF this, of "fst f"] call(1,2) show ?case
    by (auto simp: exp_is_id_arg_def child_def id_node_def val_s_def)
qed

section \<open>Properties\<close>

text \<open>
  C4: the visitors accept an expression without a message, leaving the state as it is, exactly when
  the type rules derive a type for it, and the type they store in its node is the derived one.
\<close>

theorem expression_check_sound_complete:
  assumes "act_exp e = [nd]"
  shows "typed st e t \<longleftrightarrow> (\<exists>nd'. sema_visit nd st = Some (nd', st) \<and> nd_type nd' = t)"
proof
  show "typed st e t \<Longrightarrow> \<exists>nd'. sema_visit nd st = Some (nd', st) \<and> nd_type nd' = t"
    using typed_accepted [of st e t] assms by (simp add: act_exp_node)
next
  assume "\<exists>nd'. sema_visit nd st = Some (nd', st) \<and> nd_type nd' = t"
  then obtain nd' where "sema_visit (exp_node e) st = Some (nd', st)" "nd_type nd' = t"
    using assms by (auto simp: act_exp_node)
  moreover obtain l where "st = reports st l" "l = [] \<longrightarrow> typed st e (nd_type nd')"
    using visit_exp [of st e] calculation(1) by (auto simp: valid_def judged_def)
  ultimately show "typed st e t" by (metis reports_eq)
qed

definition demo_env :: sema_state where
  "demo_env = sema_start\<lparr>scopes := [calloc_symtab[32 := [Symbol ''a'' 1 (Array_of 0 Basic_INT 10 40) None 0]]]\<rparr>"

definition demo_exp :: Exp_p where
  "demo_exp = Assign_p 1 (Idx_p 1 (Id_p (1, ''a'')) (Int_p (1, 2))) (Binary_p 1 ''+'' (Int_p (1, 3)) (Int_p (1, 4)))"

text \<open>\<open>a[2] = 3 + 4\<close> with an array \<open>a\<close> of integers.\<close>

theorem expression_check_sound_complete_witness:
  "typed demo_env demo_exp (Some Basic_INT)"
proof -
  have "case sema_visit (exp_node demo_exp) demo_env of None \<Rightarrow> False | Some (nd', st') \<Rightarrow>
      nd_type nd' = Some Basic_INT \<and> sema_log st' = []"
    by code_simp
  then obtain nd' st' where
    *: "sema_visit (exp_node demo_exp) demo_env = Some (nd', st')" "nd_type nd' = Some Basic_INT" "sema_log st' = []"
    by (auto split: option.splits)
  obtain l where "st' = reports demo_env l"
    using visit_exp [of demo_env demo_exp] *(1) by (auto simp: valid_def judged_def)
  moreover from this *(3) have "l = []" by (simp add: reports_def demo_env_def sema_start_def)
  ultimately have "sema_visit (exp_node demo_exp) demo_env = Some (nd', demo_env)" using *(1) by simp
  with *(2) show ?thesis
    using expression_check_sound_complete [OF act_exp_node [of demo_exp], of demo_env "Some Basic_INT"] by blast
qed

definition demo_condition :: "f32 \<Rightarrow> f32 \<Rightarrow> ExtDef_p list" where
  "demo_condition x y =
     [Ext_func_p (Type_p (1, ''int'')) (1, ''main'') [] 1 []
       [If_p 2 (Relop_p 2 ''<'' (Float_p (2, x)) (Float_p (2, y))) (Return_p 2 (Int_p (2, 1))),
        Return_p 3 (Int_p (3, 0))]]"


end
