(* ===== verification/Lexer.thy ===== *)
theory Lexer
  imports Ast Strtab "HOL-Library.Sublist"
begin

text \<open>
  The lexer \<open>lexical.l\<close>: the patterns and start conditions of its rules, the actions and helper
  functions of its C parts, and the scanning loop \<open>yylex\<close> that flex generates for it: the longest
  match wins, and among rules that match the same length the first one. The text still to be read is
  part of the state.
\<close>

section \<open>Patterns\<close>

datatype rexp =
    Zero
  | One
  | Sat "char \<Rightarrow> bool"
  | Alt rexp rexp
  | Seq rexp rexp
  | Star rexp

primrec nullable :: "rexp \<Rightarrow> bool" where
  "nullable Zero = False"
| "nullable One = True"
| "nullable (Sat _) = False"
| "nullable (Alt r s) = (nullable r \<or> nullable s)"
| "nullable (Seq r s) = (nullable r \<and> nullable s)"
| "nullable (Star _) = True"

fun rx_alt :: "rexp \<Rightarrow> rexp \<Rightarrow> rexp" where
  "rx_alt Zero s = s"
| "rx_alt r Zero = r"
| "rx_alt r s = Alt r s"

fun rx_seq :: "rexp \<Rightarrow> rexp \<Rightarrow> rexp" where
  "rx_seq Zero s = Zero"
| "rx_seq One s = s"
| "rx_seq r s = Seq r s"

text \<open>What may follow the character \<open>c\<close> in a match.\<close>

primrec after :: "char \<Rightarrow> rexp \<Rightarrow> rexp" where
  "after c Zero = Zero"
| "after c One = Zero"
| "after c (Sat p) = (if p c then One else Zero)"
| "after c (Alt r s) = rx_alt (after c r) (after c s)"
| "after c (Seq r s) = rx_alt (rx_seq (after c r) s) (if nullable r then after c s else Zero)"
| "after c (Star r) = rx_seq (after c r) (Star r)"

text \<open>The length of the longest prefix a pattern matches.\<close>

fun match_len :: "rexp \<Rightarrow> string \<Rightarrow> nat option" where
  "match_len Zero text' = None"
| "match_len r [] = (if nullable r then Some 0 else None)"
| "match_len r (c # text') =
     (case match_len (after c r) text' of
       Some n \<Rightarrow> Some (Suc n)
     | None \<Rightarrow> if nullable r then Some 0 else None)"

definition lit :: "string \<Rightarrow> rexp" where
  "lit w = foldr (\<lambda>c r. Seq (Sat (\<lambda>d. d = c)) r) w One"

definition rx_plus :: "rexp \<Rightarrow> rexp" where
  "rx_plus r = Seq r (Star r)"

subsection \<open>The character classes\<close>

definition in_range :: "char \<Rightarrow> char \<Rightarrow> char \<Rightarrow> bool" where
  "in_range lo hi c \<longleftrightarrow> (of_char lo :: int) \<le> of_char c \<and> (of_char c :: int) \<le> of_char hi"

definition digit :: "char \<Rightarrow> bool" where
  "digit c = in_range (CHR ''0'') (CHR ''9'') c"

definition letter :: "char \<Rightarrow> bool" where
  "letter c \<longleftrightarrow> in_range (CHR ''a'') (CHR ''z'') c \<or> in_range (CHR ''A'') (CHR ''Z'') c"

definition blank :: "char \<Rightarrow> bool" where
  "blank c \<longleftrightarrow> c = CHR '' '' \<or> c = CHR 0x09"

abbreviation newline :: char where
  "newline \<equiv> CHR 0x0A"

text \<open>The pattern \<open>.\<close>\<close>

definition not_newline :: "char \<Rightarrow> bool" where
  "not_newline c \<longleftrightarrow> c \<noteq> newline"

section \<open>Tokens and state\<close>

datatype yytokentype =
    T_FLOAT | T_INT | T_ID | T_TYPE
  | T_RELOP | T_PLUS | T_MINUS | T_STAR | T_DIV | T_AND | T_OR | T_NOT
  | T_DOT | T_LB | T_RB | T_LP | T_RP | T_LC | T_RC | T_FOR | T_WHILE | T_STRUCT | T_RETURN
  | T_ASSIGNOP | T_SEMI | T_COMMA | T_IF | T_ELSE | T_SUB_ELSE

text \<open>The union \<open>yylval\<close>.\<close>

datatype yylval = Lval_nd Node | Lval_lineno int | Lval_op int string

type_synonym token = "yytokentype \<times> yylval"

datatype start_cond = INITIAL | ONE_LINE_COMMENT | MULTI_LINE_COMMENT | ONE_LINE_IN_MULTI_LINE

record YYLTYPE =
  first_line :: int
  last_line :: int
  first_column :: int
  last_column :: int

text \<open>\<open>yyin\<close> is the text still to be read, \<open>yyout\<close> what has been written to the standard output.\<close>

record lex_state =
  yyin :: string
  yyout :: string
  lex_cond :: start_cond
  yylineno :: int
  yycolumn :: int
  yylloc :: YYLTYPE
  n_unpaired :: int
  is_syn_error :: bool
  lex_strtab :: strtab_state

type_synonym lex_action = "string \<Rightarrow> lex_state \<Rightarrow> (token option \<times> lex_state) option"

definition YY_USER_ACTION :: "nat \<Rightarrow> lex_state \<Rightarrow> lex_state" where
  "YY_USER_ACTION yyleng st =
     st\<lparr>yylloc := \<lparr>first_line = yylineno st, last_line = yylineno st, first_column = yycolumn st,
                    last_column = yycolumn st + int yyleng - 1\<rparr>,
        yycolumn := yycolumn st + int yyleng\<rparr>"

section \<open>The helper functions\<close>

definition ErrorMsg :: "string \<Rightarrow> string \<Rightarrow> int \<Rightarrow> lex_state \<Rightarrow> lex_state" where
  "ErrorMsg desc lexeme lineno st =
     st\<lparr>yyout := yyout st @ ''Error type A at Line '' @ dec_int lineno @ '': '' @ desc @ '' '' @ [CHR 0x27] @
         lexeme @ [CHR 0x27, newline]\<rparr>"

text \<open>
  \<open>strtol\<close> on a text that starts with a digit: a prefix \<open>0x\<close> is skipped for the radix 16, reading
  stops at the first character that is no digit of the radix, and the result is clamped to
  \<open>LONG_MAX\<close>. The assignment to the \<open>int\<close> member keeps the low 32 bits.
\<close>

definition digit_val :: "char \<Rightarrow> int" where
  "digit_val c =
     (if digit c then of_char c - 48
      else if in_range (CHR ''a'') (CHR ''z'') c then of_char c - 87
      else if in_range (CHR ''A'') (CHR ''Z'') c then of_char c - 55
      else 36)"

definition radix_val :: "int \<Rightarrow> string \<Rightarrow> int" where
  "radix_val radix = foldl (\<lambda>v c. radix * v + digit_val c) 0"

definition strtol :: "int \<Rightarrow> string \<Rightarrow> int" where
  "strtol radix s =
     (let s = (if radix = 16 \<and> (take 2 s = ''0x'' \<or> take 2 s = ''0X'') then drop 2 s else s)
      in min (radix_val radix (takeWhile (\<lambda>c. digit_val c < radix) s)) (2 ^ 63 - 1))"

text \<open>
  \<open>atof\<close> on digits, a point and digits: the nearest \<open>double\<close>, which the assignment to the
  \<open>float\<close> member rounds again.
\<close>

definition double_round :: "nat \<Rightarrow> nat \<Rightarrow> nat \<times> nat" where
  "double_round n d =
     (if n = 0 then (0, 1)
      else let ex = max (- 1074) (rat_log2 n d - 52)
           in (round_div (n * 2 ^ nat (- ex)) (d * 2 ^ nat ex) * 2 ^ nat ex, 2 ^ nat (- ex)))"

definition atof :: "string \<Rightarrow> f32" where
  "atof s =
     (let whole = takeWhile digit s; frac = drop (Suc (length whole)) s;
          (n, d) = double_round (dec_val (whole @ frac)) (10 ^ length frac)
      in f32_round False n d)"

definition lex_terminal :: "ProductionTag \<Rightarrow> node_val \<Rightarrow> lex_state \<Rightarrow> Node" where
  "lex_terminal tag v st = Node tag (yylineno st) v no_sema no_trans []"

definition lex_num :: "int \<Rightarrow> lex_action" where
  "lex_num radix yytext st =
     Some (Some (T_INT, Lval_nd (lex_terminal TERM_INT (Val_i (word_of_int (strtol radix yytext))) st)), st)"

definition lex_sym :: "yytokentype \<Rightarrow> lex_action" where
  "lex_sym type yytext st = Some (Some (type, Lval_lineno (yylineno st)), st)"

definition lex_op :: "yytokentype \<Rightarrow> lex_action" where
  "lex_op type yytext st =
     do {
       (p, tab) \<leftarrow> register_str yytext (lex_strtab st);
       s \<leftarrow> str_at tab p;
       Some (Some (type, Lval_op (yylineno st) s), st\<lparr>lex_strtab := tab\<rparr>)
     }"

definition lex_node :: "yytokentype \<Rightarrow> ProductionTag \<Rightarrow> lex_action" where
  "lex_node type tag yytext st =
     do {
       (p, tab) \<leftarrow> register_str yytext (lex_strtab st);
       s \<leftarrow> str_at tab p;
       Some (Some (type, Lval_nd (lex_terminal tag (Val_s s) st)), st\<lparr>lex_strtab := tab\<rparr>)
     }"

definition check_oct :: "string \<Rightarrow> lex_state \<Rightarrow> bool \<times> lex_state" where
  "check_oct yytext st =
     (if list_ex (\<lambda>ch. ch = CHR ''8'' \<or> ch = CHR ''9'') yytext
      then (False, (ErrorMsg ''Illegal octal number'' yytext (yylineno st) st)\<lparr>is_syn_error := True\<rparr>)
      else (True, st))"

definition char_less :: "char \<Rightarrow> char \<Rightarrow> bool" where
  "char_less c d \<longleftrightarrow> (of_char c :: int) < of_char d"

definition check_hex :: "string \<Rightarrow> lex_state \<Rightarrow> bool \<times> lex_state" where
  "check_hex yytext st =
     (if list_ex (\<lambda>ch. char_less (CHR ''f'') ch \<and> \<not> char_less (CHR ''z'') ch \<or>
                       char_less (CHR ''F'') ch \<and> \<not> char_less (CHR ''Z'') ch) (drop 2 yytext)
      then (False, (ErrorMsg ''Illegal hexadecimal number'' yytext (yylineno st) st)\<lparr>is_syn_error := True\<rparr>)
      else (True, st))"

section \<open>The actions\<close>

definition act_float :: lex_action where
  "act_float yytext st = Some (Some (T_FLOAT, Lval_nd (lex_terminal TERM_FLOAT (Val_f (atof yytext)) st)), st)"

definition act_hex :: lex_action where
  "act_hex yytext st =
     (let (good, st) = check_hex yytext st;
          st = (if \<not> good then st\<lparr>is_syn_error := True\<rparr> else st)
      in lex_num 16 yytext st)"

definition act_oct :: lex_action where
  "act_oct yytext st =
     (let (good, st) = check_oct yytext st;
          st = (if \<not> good then st\<lparr>is_syn_error := True\<rparr> else st)
      in lex_num 8 yytext st)"

definition act_begin :: "start_cond \<Rightarrow> lex_action" where
  "act_begin c yytext st = Some (None, st\<lparr>lex_cond := c\<rparr>)"

definition act_open :: lex_action where
  "act_open yytext st = Some (None, st\<lparr>n_unpaired := n_unpaired st + 1, lex_cond := MULTI_LINE_COMMENT\<rparr>)"

definition act_newline :: lex_action where
  "act_newline yytext st = Some (None, st\<lparr>yycolumn := 1\<rparr>)"

definition act_skip :: lex_action where
  "act_skip yytext st = Some (None, st)"

definition act_mystery :: lex_action where
  "act_mystery yytext st =
     Some (None, (ErrorMsg ''Mysterious character'' yytext (yylineno st) st)\<lparr>is_syn_error := True\<rparr>)"

definition act_nest :: lex_action where
  "act_nest yytext st = Some (None, st\<lparr>n_unpaired := n_unpaired st + 1\<rparr>)"

definition act_close :: lex_action where
  "act_close yytext st =
     (let st = st\<lparr>n_unpaired := n_unpaired st - 1\<rparr>
      in Some (None, if n_unpaired st = 0 then st\<lparr>lex_cond := INITIAL\<rparr> else st))"

text \<open>The default rule of flex.\<close>

definition act_echo :: lex_action where
  "act_echo yytext st = Some (None, st\<lparr>yyout := yyout st @ yytext\<rparr>)"

section \<open>The rules\<close>

definition ident_start :: "char \<Rightarrow> bool" where
  "ident_start c \<longleftrightarrow> letter c \<or> c = CHR ''_''"

definition ident_char :: "char \<Rightarrow> bool" where
  "ident_char c \<longleftrightarrow> letter c \<or> digit c \<or> c = CHR ''_''"

definition initial_rules :: "(rexp \<times> lex_action) list" where
  "initial_rules =
     [(lit ''='', lex_sym T_ASSIGNOP),
      (lit '','', lex_sym T_COMMA),
      (lit '';'', lex_sym T_SEMI),
      (lit ''.'', lex_sym T_DOT),
      (lit ''('', lex_sym T_LP),
      (lit '')'', lex_sym T_RP),
      (lit ''['', lex_sym T_LB),
      (lit '']'', lex_sym T_RB),
      (lit ''{'', lex_sym T_LC),
      (lit ''}'', lex_sym T_RC),
      (lit ''if'', lex_sym T_IF),
      (lit ''for'', lex_sym T_FOR),
      (lit ''else'', lex_sym T_ELSE),
      (lit ''while'', lex_sym T_WHILE),
      (lit ''struct'', lex_sym T_STRUCT),
      (lit ''return'', lex_sym T_RETURN),
      (lit ''+'', lex_op T_PLUS),
      (lit ''-'', lex_op T_MINUS),
      (lit ''*'', lex_op T_STAR),
      (lit ''/'', lex_op T_DIV),
      (lit ''!'', lex_op T_NOT),
      (lit ''||'', lex_op T_OR),
      (lit ''&&'', lex_op T_AND),
      (Alt (lit ''>'') (Alt (lit ''<'') (Alt (lit ''>='') (Alt (lit ''<='') (Alt (lit ''=='') (lit ''!=''))))),
       lex_op T_RELOP),
      (Alt (lit ''int'') (lit ''float''), lex_node T_TYPE TERM_ID),
      (Seq (Sat ident_start) (Star (Sat ident_char)), lex_node T_ID TERM_ID),
      (Seq (rx_plus (Sat digit)) (Seq (Sat (\<lambda>c. c = CHR ''.'')) (rx_plus (Sat digit))), act_float),
      (Seq (lit ''0'') (Seq (Sat (\<lambda>c. c = CHR ''x'' \<or> c = CHR ''X'')) (rx_plus (Sat (\<lambda>c. digit c \<or> letter c)))),
       act_hex),
      (Seq (lit ''0'') (rx_plus (Sat digit)), act_oct),
      (Alt (lit ''0'') (Seq (Sat (\<lambda>c. digit c \<and> c \<noteq> CHR ''0'')) (Star (Sat digit))), lex_num 10),
      (lit ''//'', act_begin ONE_LINE_COMMENT),
      (lit ''/*'', act_open),
      (Sat (\<lambda>c. c = newline), act_newline),
      (Sat blank, act_skip),
      (Sat not_newline, act_mystery)]"

fun cond_rules :: "start_cond \<Rightarrow> (rexp \<times> lex_action) list" where
  "cond_rules INITIAL = initial_rules"
| "cond_rules MULTI_LINE_COMMENT =
     [(lit ''/*'', act_nest),
      (lit ''//'', act_begin ONE_LINE_IN_MULTI_LINE),
      (lit ''*/'', act_close),
      (Sat (\<lambda>c. c = newline), act_skip),
      (Sat not_newline, act_skip)]"
| "cond_rules ONE_LINE_IN_MULTI_LINE =
     [(Sat (\<lambda>c. c = newline), act_begin MULTI_LINE_COMMENT),
      (Sat not_newline, act_skip)]"
| "cond_rules ONE_LINE_COMMENT =
     [(Sat (\<lambda>c. c = newline), act_begin INITIAL),
      (Sat not_newline, act_skip)]"

section \<open>Scanning\<close>

text \<open>The longest match, the first rule among equals.\<close>

fun longest :: "(rexp \<times> 'a) list \<Rightarrow> string \<Rightarrow> (nat \<times> 'a) option" where
  "longest [] text' = None"
| "longest ((r, a) # rules) text' =
     (case (match_len r text', longest rules text') of
       (Some n, Some (m, b)) \<Rightarrow> if m \<le> n then Some (n, a) else Some (m, b)
     | (Some n, None) \<Rightarrow> Some (n, a)
     | (None, best) \<Rightarrow> best)"

text \<open>One match and its action; the line counter is advanced before the action runs.\<close>

definition lex_step :: "lex_state \<Rightarrow> (token option \<times> lex_state) option" where
  "lex_step st =
     do {
       (yyleng, action) \<leftarrow> longest (cond_rules (lex_cond st) @ [(Sat (\<lambda>_. True), act_echo)]) (yyin st);
       let yytext = take yyleng (yyin st);
       let st = st\<lparr>yyin := drop yyleng (yyin st), yylineno := yylineno st + int (count_list yytext newline)\<rparr>;
       action yytext (YY_USER_ACTION yyleng st)
     }"

section \<open>What a pattern matches\<close>

inductive_set star :: "string set \<Rightarrow> string set" for A where
  star_Nil: "[] \<in> star A"
| star_append: "u \<in> A \<Longrightarrow> v \<in> star A \<Longrightarrow> u @ v \<in> star A"

primrec lang :: "rexp \<Rightarrow> string set" where
  "lang Zero = {}"
| "lang One = {[]}"
| "lang (Sat p) = {[c] | c. p c}"
| "lang (Alt r s) = lang r \<union> lang s"
| "lang (Seq r s) = {u @ v | u v. u \<in> lang r \<and> v \<in> lang s}"
| "lang (Star r) = star (lang r)"

lemma lang_rx_alt [simp]: "lang (rx_alt r s) = lang r \<union> lang s"
  by (induction r s rule: rx_alt.induct) auto

lemma lang_rx_seq [simp]: "lang (rx_seq r s) = lang (Seq r s)"
  by (induction r s rule: rx_seq.induct) auto

lemma nullable_lang: "nullable r \<longleftrightarrow> [] \<in> lang r"
  by (induction r) (auto intro: star.intros)

lemma star_Cons_iff: "c # w \<in> star A \<longleftrightarrow> (\<exists>u v. w = u @ v \<and> c # u \<in> A \<and> v \<in> star A)"
proof
  assume "c # w \<in> star A"
  then show "\<exists>u v. w = u @ v \<and> c # u \<in> A \<and> v \<in> star A"
    by (induction "c # w" rule: star.induct) (metis Cons_eq_append_conv)
next
  assume "\<exists>u v. w = u @ v \<and> c # u \<in> A \<and> v \<in> star A"
  then show "c # w \<in> star A" using star_append [of "c # _" A] by fastforce
qed

lemma lang_after: "lang (after c r) = {w. c # w \<in> lang r}"
proof (induction r)
  case (Seq r s)
  then show ?case by (auto simp: nullable_lang Cons_eq_append_conv)
next
  case (Star r)
  then show ?case by (auto simp: star_Cons_iff)
qed auto

text \<open>The longest prefix of a text that lies in a language.\<close>

fun is_longest :: "string set \<Rightarrow> string \<Rightarrow> nat option \<Rightarrow> bool" where
  "is_longest L s None \<longleftrightarrow> (\<forall>u. prefix u s \<longrightarrow> u \<notin> L)"
| "is_longest L s (Some n) \<longleftrightarrow> n \<le> length s \<and> take n s \<in> L \<and> (\<forall>u. prefix u s \<and> u \<in> L \<longrightarrow> length u \<le> n)"

lemma match_len_Nil: "match_len r [] = (if nullable r then Some 0 else None)"
  by (cases r) simp_all

lemma match_len_Cons:
  "match_len r (c # s) =
     (case match_len (after c r) s of Some n \<Rightarrow> Some (Suc n) | None \<Rightarrow> if nullable r then Some 0 else None)"
  by (cases r) (simp_all split: option.split)

declare match_len.simps [simp del]

lemma is_longest_Cons:
  assumes "is_longest {w. c # w \<in> L} s res"
  shows "is_longest L (c # s) (case res of Some n \<Rightarrow> Some (Suc n) | None \<Rightarrow> if [] \<in> L then Some 0 else None)"
  using assms by (cases res) (auto simp: prefix_Cons)

lemma match_len_longest: "is_longest (lang r) s (match_len r s)"
proof (induction s arbitrary: r)
  case Nil
  then show ?case by (simp add: match_len_Nil nullable_lang)
next
  case (Cons c s)
  from is_longest_Cons [OF this [of "after c r", unfolded lang_after]] show ?case
    unfolding match_len_Cons nullable_lang .
qed

text \<open>Among several patterns: the longest word any of them matches, by the first that matches it.\<close>

definition bounded :: "(rexp \<times> 'a) list \<Rightarrow> string \<Rightarrow> nat \<Rightarrow> bool" where
  "bounded rules s n \<longleftrightarrow> (\<forall>r a u. (r, a) \<in> set rules \<longrightarrow> prefix u s \<longrightarrow> u \<in> lang r \<longrightarrow> length u \<le> n)"

lemma bounded_match:
  assumes "bounded ((r, b) # rules) s m" and "match_len r s = Some k"
  shows "k \<le> m"
proof -
  have "k \<le> length s" "take k s \<in> lang r" using match_len_longest [of r s] assms(2) by simp_all
  with assms(1) take_is_prefix [of k s] show ?thesis unfolding bounded_def by fastforce
qed

lemma longest_le:
  assumes "longest rules s = Some (n, a)" and "bounded rules s m"
  shows "n \<le> m"
  using assms
proof (induction rules arbitrary: n a)
  case (Cons ra rules)
  obtain r b where [simp]: "ra = (r, b)" by fastforce
  from Cons.prems(2) have "bounded rules s m" and *: "match_len r s = Some k \<Longrightarrow> k \<le> m" for k
    using bounded_match [of r b rules s m k] by (auto simp: bounded_def)
  with Cons show ?case by (auto split: option.splits prod.splits if_splits)
qed simp

lemma longest_eqI:
  assumes "prefix w s" and "bounded rules s (length w)"
    and "List.find (\<lambda>(r, a). w \<in> lang r) rules = Some (r, a)"
  shows "longest rules s = Some (length w, a)"
  using assms(2,3)
proof (induction rules)
  case (Cons ra rules)
  obtain q b where [simp]: "ra = (q, b)" by fastforce
  have bd: "bounded rules s (length w)" and le: "match_len q s = Some k \<Longrightarrow> k \<le> length w" for k
    using Cons.prems(1) bounded_match [of q b rules s "length w" k] by (auto simp: bounded_def)
  have w: "take (length w) s = w" using assms(1) by (auto simp: prefix_def)
  show ?case
  proof (cases "w \<in> lang q")
    case True
    with assms(1) match_len_longest [of q s] have "match_len q s = Some (length w)"
      using le by (cases "match_len q s") (auto intro: antisym)
    with True Cons.prems show ?thesis
      using longest_le [OF _ bd] by (auto split: option.splits)
  next
    case False
    with w match_len_longest [of q s] have "match_len q s \<noteq> Some (length w)" by auto
    with False Cons.prems show ?thesis
      using Cons.IH [OF bd] le by (auto split: option.splits simp: order.antisym)
  qed
qed simp

lemma longest_total:
  assumes "(r, a) \<in> set rules" and "u \<in> lang r" and "prefix u s"
  shows "\<exists>n b. longest rules s = Some (n, b) \<and> length u \<le> n"
  using assms(1)
proof (induction rules)
  case (Cons ra rules)
  obtain q b where [simp]: "ra = (q, b)" by fastforce
  show ?case
  proof (cases "(r, a) = ra")
    case True
    with assms(2,3) match_len_longest [of r s] obtain n where "match_len r s = Some n" "length u \<le> n"
      by (cases "match_len r s") auto
    with True show ?thesis by (auto split: option.splits)
  next
    case False
    with Cons obtain n c where "longest rules s = Some (n, c)" "length u \<le> n" by auto
    then show ?thesis by (auto split: option.splits)
  qed
qed simp

lemma longest_in:
  "longest rules s = Some (n, a) \<Longrightarrow> \<exists>r. (r, a) \<in> set rules \<and> match_len r s = Some n"
  by (induction rules arbitrary: n a) (auto split: option.splits prod.splits if_splits)

lemma longest_pos:
  assumes "longest rules s = Some (n, a)" and "\<forall>(r, a) \<in> set rules. \<not> nullable r"
  shows "0 < n \<and> n \<le> length s"
proof -
  from longest_in [OF assms(1)] obtain r where *: "(r, a) \<in> set rules" "match_len r s = Some n" by blast
  with assms(2) match_len_longest [of r s] show ?thesis
    by (cases n) (auto simp: nullable_lang)
qed

abbreviation all_rules :: "start_cond \<Rightarrow> (rexp \<times> lex_action) list" where
  "all_rules c \<equiv> cond_rules c @ [(Sat (\<lambda>_. True), act_echo)]"

lemmas action_defs =
  lex_sym_def lex_op_def lex_node_def lex_num_def act_float_def act_hex_def act_oct_def act_begin_def
  act_open_def act_newline_def act_skip_def act_mystery_def act_nest_def act_close_def act_echo_def
  check_hex_def check_oct_def

lemma ErrorMsg_fields [simp]:
  "yyin (ErrorMsg d l n st) = yyin st" "yyout (ErrorMsg d l n st) \<noteq> []" "lex_cond (ErrorMsg d l n st) = lex_cond st"
  "yylineno (ErrorMsg d l n st) = yylineno st" "n_unpaired (ErrorMsg d l n st) = n_unpaired st"
  "lex_strtab (ErrorMsg d l n st) = lex_strtab st"
  by (simp_all add: ErrorMsg_def)

lemma lit_simps: "lit [] = One" "lit (c # w) = Seq (Sat (\<lambda>d. d = c)) (lit w)"
  by (simp_all add: lit_def)

lemma not_nullable: "\<forall>(r, a) \<in> set (all_rules c). \<not> nullable r"
  by (cases c) (simp_all add: initial_rules_def rx_plus_def lit_simps)

definition keeps_input :: "lex_action \<Rightarrow> bool" where
  "keeps_input a \<longleftrightarrow> (\<forall>yytext st t st'. a yytext st = Some (t, st') \<longrightarrow> yyin st' = yyin st)"

lemma keeps_input_actions:
  "keeps_input (lex_sym k)" "keeps_input (lex_op k)" "keeps_input (lex_node k g)" "keeps_input (lex_num n)"
  "keeps_input act_float" "keeps_input act_hex" "keeps_input act_oct" "keeps_input (act_begin c)"
  "keeps_input act_open" "keeps_input act_newline" "keeps_input act_skip" "keeps_input act_mystery"
  "keeps_input act_nest" "keeps_input act_close" "keeps_input act_echo"
  by (auto simp: keeps_input_def action_defs bind_Some_iff Let_def split: if_splits)

lemma action_keeps_input: "\<forall>(r, a) \<in> set (all_rules c). keeps_input a"
  by (cases c) (simp_all add: initial_rules_def keeps_input_actions)

lemma lex_step_consumes:
  assumes "lex_step st = Some (t, st')"
  shows "length (yyin st') < length (yyin st)"
proof -
  from assms obtain n a where l: "longest (all_rules (lex_cond st)) (yyin st) = Some (n, a)" and
    a: "a (take n (yyin st)) (YY_USER_ACTION n (st\<lparr>yyin := drop n (yyin st),
      yylineno := yylineno st + int (count_list (take n (yyin st)) newline)\<rparr>)) = Some (t, st')"
    by (auto simp: lex_step_def bind_Some_iff Let_def)
  from longest_in [OF l] action_keeps_input have "keeps_input a" by blast
  with a longest_pos [OF l not_nullable] show ?thesis
    by (auto simp: keeps_input_def YY_USER_ACTION_def)
qed

text \<open>\<open>yylex\<close>: match until an action returns a token; \<^const>\<open>None\<close> as the token is the end of the text.\<close>

function yylex :: "lex_state \<Rightarrow> (token option \<times> lex_state) option" where
  "yylex st =
     (if yyin st = [] then Some (None, st)
      else
        do {
          (t, st) \<leftarrow> lex_step st;
          case t of Some tok \<Rightarrow> Some (Some tok, st) | None \<Rightarrow> yylex st
        })"
  by pat_completeness auto
termination
  by (relation "measure (length \<circ> yyin)") (auto dest: lex_step_consumes)

declare yylex.simps [simp del]

lemma yylex_consumes:
  assumes "yylex st = Some (Some t, st')"
  shows "length (yyin st') < length (yyin st)"
  using assms
proof (induction st rule: yylex.induct)
  case (1 st)
  from "1.prems" obtain u st1 where *: "yyin st \<noteq> []" "lex_step st = Some (u, st1)"
    "(case u of Some tok \<Rightarrow> Some (Some tok, st1) | None \<Rightarrow> yylex st1) = Some (Some t, st')"
    by (auto simp: yylex.simps [of st] bind_Some_iff split: if_splits)
  with lex_step_consumes [OF *(2)] "1.IH" [OF *(1,2)] show ?case
    by (force split: option.splits)
qed

text \<open>The tokens of the whole text, one call of \<open>yylex\<close> after the other.\<close>

function lex_all :: "lex_state \<Rightarrow> (token list \<times> lex_state) option" where
  "lex_all st =
     do {
       (t, st) \<leftarrow> yylex st;
       case t of
         None \<Rightarrow> Some ([], st)
       | Some tok \<Rightarrow> do { (toks, st) \<leftarrow> lex_all st; Some (tok # toks, st) }
     }"
  by pat_completeness auto
termination
  by (relation "measure (length \<circ> yyin)") (auto dest: yylex_consumes)

declare lex_all.simps [simp del]

text \<open>The globals at program start, with the text to be read.\<close>

definition lex_start :: "string \<Rightarrow> lex_state" where
  "lex_start text' =
     \<lparr>yyin = text', yyout = [], lex_cond = INITIAL, yylineno = 1, yycolumn = 1,
      yylloc = \<lparr>first_line = 1, last_line = 1, first_column = 1, last_column = 1\<rparr>,
      n_unpaired = 0, is_syn_error = False, lex_strtab = init_strtab strtab_start\<rparr>"

section \<open>The scanner never gets stuck\<close>

lemma star_Sat [simp]: "star {[c] | c. p c} = {w. \<forall>c \<in> set w. p c}"
proof -
  have "w \<in> star {[c] | c. p c} \<Longrightarrow> \<forall>c \<in> set w. p c" for w
    by (induction rule: star.induct) auto
  moreover have "(\<forall>c \<in> set w. p c) \<Longrightarrow> w \<in> star {[c] | c. p c}" for w
  proof (induction w)
    case (Cons c w)
    then show ?case using star_append [of "[c]" "{[c] | c. p c}" w] by auto
  qed (rule star_Nil)
  ultimately show ?thesis by blast
qed

lemma lang_lit [simp]: "lang (lit w) = {w}"
  by (induction w) (auto simp: lit_simps)

lemma match_len_Sat [simp]: "match_len (Sat p) (c # s) = (if p c then Some 1 else None)"
proof -
  have "match_len One s = Some 0" by (cases s) (simp_all add: match_len_Nil match_len_Cons match_len.simps)
  then show ?thesis by (simp add: match_len_Cons match_len.simps)
qed

lemma match_len_lit [simp]: "match_len (lit w) s = (if prefix w s then Some (length w) else None)"
proof -
  have "is_longest {w} s (match_len (lit w) s)" using match_len_longest [of "lit w" s] by simp
  then show ?thesis
    by (cases "match_len (lit w) s") (auto simp: take_is_prefix dest: prefix_length_le split: if_splits)
qed

lemma longest_snoc:
  "longest (rules @ [(r, a)]) s =
     (case (longest rules s, match_len r s) of
       (Some (n, b), Some m) \<Rightarrow> if m \<le> n then Some (n, b) else Some (m, a)
     | (Some (n, b), None) \<Rightarrow> Some (n, b)
     | (None, m) \<Rightarrow> map_option (\<lambda>n. (n, a)) m)"
proof (induction rules)
  case Nil
  then show ?case by (simp split: option.splits)
next
  case (Cons q rules)
  obtain q1 q2 where q: "q = (q1, q2)" by fastforce
  show ?case
    by (cases "longest rules s"; cases "match_len r s"; cases "match_len q1 s") (use Cons in \<open>auto simp: q\<close>)
qed

lemma one_char_rule: "\<exists>r a. (r, a) \<in> set (cond_rules k) \<and> [c] \<in> lang r"
proof (cases "c = newline")
  case True
  have "\<exists>a. (Sat (\<lambda>c. c = newline), a) \<in> set (cond_rules k)" by (cases k) (auto simp: initial_rules_def lit_simps)
  with True show ?thesis by fastforce
next
  case False
  have "\<exists>a. (Sat not_newline, a) \<in> set (cond_rules k)" by (cases k) (auto simp: initial_rules_def lit_simps)
  with False show ?thesis by (fastforce simp: not_newline_def)
qed

text \<open>One of the rules of the file always matches, so the default rule never does.\<close>

lemma longest_all_rules:
  assumes "s \<noteq> []"
  shows "\<exists>n a. longest (cond_rules k) s = Some (n, a) \<and> longest (all_rules k) s = Some (n, a)"
proof -
  obtain c s' where [simp]: "s = c # s'" using assms by (cases s) auto
  obtain r a where "(r, a) \<in> set (cond_rules k)" "[c] \<in> lang r" using one_char_rule by blast
  from longest_total [OF this, of s] obtain n b where "longest (cond_rules k) s = Some (n, b)" "1 \<le> n" by auto
  then show ?thesis by (simp add: longest_snoc)
qed

text \<open>The invariant of a run and what one action does to it.\<close>

definition lex_ok :: "lex_state \<Rightarrow> bool" where
  "lex_ok st \<longleftrightarrow>
     strtab_wf (lex_strtab st) \<and> (is_syn_error st \<longleftrightarrow> yyout st \<noteq> []) \<and>
     (if lex_cond st = INITIAL \<or> lex_cond st = ONE_LINE_COMMENT then n_unpaired st = 0 else 0 < n_unpaired st)"

definition good_action :: "start_cond \<Rightarrow> lex_action \<Rightarrow> bool" where
  "good_action k a \<longleftrightarrow>
     (\<forall>yytext st. lex_ok st \<longrightarrow> lex_cond st = k \<longrightarrow>
        (\<exists>t st'. a yytext st = Some (t, st') \<and> lex_ok st' \<and> yylineno st' = yylineno st \<and>
           n_unpaired st' \<le> n_unpaired st + 1 \<and> yyin st' = yyin st))"

lemma register_lexeme:
  assumes "strtab_wf tab"
  obtains p tab' where "register_str s tab = Some (p, tab')" "str_at tab' p = Some s" "strtab_wf tab'"
  using strs.reg_total [OF assms, of s] strs.reg_wf [OF assms] strs.reg_deref [OF assms] by blast

lemma good_actions:
  "good_action k (lex_sym t)" "good_action k (lex_num n)" "good_action k act_float" "good_action k act_hex"
  "good_action k act_oct" "good_action k act_newline" "good_action k act_skip" "good_action k act_mystery"
  "good_action MULTI_LINE_COMMENT act_nest" "good_action MULTI_LINE_COMMENT act_close" "good_action INITIAL act_open"
  "good_action INITIAL (act_begin ONE_LINE_COMMENT)" "good_action ONE_LINE_COMMENT (act_begin INITIAL)"
  "good_action MULTI_LINE_COMMENT (act_begin ONE_LINE_IN_MULTI_LINE)"
  "good_action ONE_LINE_IN_MULTI_LINE (act_begin MULTI_LINE_COMMENT)"
  by (simp_all add: good_action_def lex_ok_def action_defs Let_def)

lemma good_registering:
  "good_action k (lex_op t)" "good_action k (lex_node t g)"
proof -
  have "\<exists>u st'. lex_op t yytext st = Some (u, st') \<and> lex_ok st' \<and> yylineno st' = yylineno st \<and>
      n_unpaired st' \<le> n_unpaired st + 1 \<and> yyin st' = yyin st"
    "\<exists>u st'. lex_node t g yytext st = Some (u, st') \<and> lex_ok st' \<and> yylineno st' = yylineno st \<and>
      n_unpaired st' \<le> n_unpaired st + 1 \<and> yyin st' = yyin st"
    if ok: "lex_ok st" for yytext st
  proof -
    obtain p tab where *: "register_str yytext (lex_strtab st) = Some (p, tab)" "str_at tab p = Some yytext" "strtab_wf tab"
      using ok register_lexeme [of "lex_strtab st" yytext] unfolding lex_ok_def by blast
    show "\<exists>u st'. lex_op t yytext st = Some (u, st') \<and> lex_ok st' \<and> yylineno st' = yylineno st \<and>
        n_unpaired st' \<le> n_unpaired st + 1 \<and> yyin st' = yyin st"
      using ok * by (simp add: lex_ok_def lex_op_def)
    show "\<exists>u st'. lex_node t g yytext st = Some (u, st') \<and> lex_ok st' \<and> yylineno st' = yylineno st \<and>
        n_unpaired st' \<le> n_unpaired st + 1 \<and> yyin st' = yyin st"
      using ok * by (simp add: lex_ok_def lex_node_def)
  qed
  then show "good_action k (lex_op t)" "good_action k (lex_node t g)"
    unfolding good_action_def by blast+
qed

lemma rules_good: "\<forall>(r, a) \<in> set (cond_rules k). good_action k a"
  by (cases k) (simp_all add: initial_rules_def good_actions good_registering)

definition lex_reads :: "lex_state \<Rightarrow> lex_state \<Rightarrow> bool" where
  "lex_reads st st' \<longleftrightarrow>
     (\<exists>w. yyin st = w @ yyin st' \<and> yylineno st' = yylineno st + int (count_list w newline) \<and>
          n_unpaired st' \<le> n_unpaired st + int (length w))"

lemma lex_reads_refl: "lex_reads st st"
  by (auto simp: lex_reads_def)

lemma lex_reads_trans: "lex_reads st st' \<Longrightarrow> lex_reads st' st'' \<Longrightarrow> lex_reads st st''"
  unfolding lex_reads_def by (force simp: count_list_append intro: exI [of _ "_ @ _"])

lemma lex_step_ok:
  assumes "lex_ok st" and "yyin st \<noteq> []"
  shows "\<exists>t st'. lex_step st = Some (t, st') \<and> lex_ok st' \<and> lex_reads st st'"
proof -
  obtain n a where l: "longest (cond_rules (lex_cond st)) (yyin st) = Some (n, a)"
    "longest (all_rules (lex_cond st)) (yyin st) = Some (n, a)"
    using longest_all_rules [OF assms(2)] by blast
  from longest_in [OF l(1)] rules_good have good: "good_action (lex_cond st) a" by blast
  have n: "0 < n" "n \<le> length (yyin st)" using longest_pos [OF l(2) not_nullable] by simp_all
  define st1 where "st1 = YY_USER_ACTION n (st\<lparr>yyin := drop n (yyin st),
      yylineno := yylineno st + int (count_list (take n (yyin st)) newline)\<rparr>)"
  have 1: "lex_ok st1" "lex_cond st1 = lex_cond st" "yyin st1 = drop n (yyin st)" "n_unpaired st1 = n_unpaired st"
    "yylineno st1 = yylineno st + int (count_list (take n (yyin st)) newline)"
    using assms(1) by (simp_all add: st1_def lex_ok_def YY_USER_ACTION_def)
  with good obtain t st' where "a (take n (yyin st)) st1 = Some (t, st')" "lex_ok st'" "yylineno st' = yylineno st1"
    "n_unpaired st' \<le> n_unpaired st1 + 1" "yyin st' = yyin st1"
    unfolding good_action_def by metis
  moreover from this 1 n have "lex_reads st st'"
    unfolding lex_reads_def by (intro exI [of _ "take n (yyin st)"]) simp
  ultimately show ?thesis using l(2) by (simp add: lex_step_def st1_def [symmetric])
qed

lemma yylex_ok:
  assumes "lex_ok st"
  shows "\<exists>t st'. yylex st = Some (t, st') \<and> lex_ok st' \<and> lex_reads st st' \<and> (t = None \<longrightarrow> yyin st' = [])"
  using assms
proof (induction st rule: yylex.induct)
  case (1 st)
  show ?case
  proof (cases "yyin st = []")
    case True
    with 1 show ?thesis by (simp add: yylex.simps [of st] lex_reads_refl)
  next
    case False
    from lex_step_ok [OF "1.prems" this] obtain t st1 where
      *: "lex_step st = Some (t, st1)" "lex_ok st1" "lex_reads st st1" by blast
    show ?thesis
    proof (cases t)
      case None
      from "1.IH" [OF False *(1)] None *(2) obtain t' st2 where
        "yylex st1 = Some (t', st2)" "lex_ok st2" "lex_reads st1 st2" "t' = None \<longrightarrow> yyin st2 = []" by auto
      with False * None show ?thesis by (auto simp: yylex.simps [of st] intro: lex_reads_trans)
    next
      case (Some tok)
      with False * show ?thesis by (simp add: yylex.simps [of st])
    qed
  qed
qed

lemma lex_all_ok:
  assumes "lex_ok st"
  shows "\<exists>toks st'. lex_all st = Some (toks, st') \<and> lex_ok st' \<and> lex_reads st st' \<and> yyin st' = []"
  using assms
proof (induction st rule: lex_all.induct)
  case (1 st)
  from yylex_ok [OF "1.prems"] obtain t st1 where
    *: "yylex st = Some (t, st1)" "lex_ok st1" "lex_reads st st1" "t = None \<longrightarrow> yyin st1 = []" by blast
  show ?case
  proof (cases t)
    case None
    with * show ?thesis by (simp add: lex_all.simps [of st])
  next
    case (Some tok)
    from "1.IH" [OF *(1) refl Some *(2)] obtain toks st2 where
      "lex_all st1 = Some (toks, st2)" "lex_ok st2" "lex_reads st1 st2" "yyin st2 = []" by blast
    with * Some show ?thesis by (auto simp: lex_all.simps [of st] intro: lex_reads_trans)
  qed
qed

lemma lex_start_ok [simp]: "lex_ok (lex_start s)"
  by (simp add: lex_ok_def lex_start_def init_strtab_wf)

section \<open>Comments\<close>

definition advance :: "nat \<Rightarrow> lex_state \<Rightarrow> lex_state" where
  "advance n st = YY_USER_ACTION n (st\<lparr>yyin := drop n (yyin st),
      yylineno := yylineno st + int (count_list (take n (yyin st)) newline)\<rparr>)"

lemma advance_fields [simp]:
  "yyin (advance n st) = drop n (yyin st)" "yyout (advance n st) = yyout st" "lex_cond (advance n st) = lex_cond st"
  "yylineno (advance n st) = yylineno st + int (count_list (take n (yyin st)) newline)"
  "n_unpaired (advance n st) = n_unpaired st" "is_syn_error (advance n st) = is_syn_error st"
  "lex_strtab (advance n st) = lex_strtab st"
  by (simp_all add: advance_def YY_USER_ACTION_def)

lemma lex_step_eq:
  assumes "longest (cond_rules (lex_cond st)) (yyin st) = Some (n, a)" and "yyin st \<noteq> []"
  shows "lex_step st = a (take n (yyin st)) (advance n st)"
  using assms longest_all_rules [OF assms(2), of "lex_cond st"]
  by (simp add: lex_step_def advance_def Let_def)

text \<open>
  How a comment ends, read off the text: after \<open>//\<close> the rest of the line is skipped, \<open>/*\<close>
  opens a level and \<open>*/\<close> closes one.
\<close>

definition skip_line :: "string \<Rightarrow> string" where
  "skip_line s = tl (dropWhile not_newline s)"

lemma length_skip_line: "length (skip_line s) \<le> length s"
  unfolding skip_line_def using length_dropWhile_le [of not_newline s] by simp

function skip_comment :: "nat \<Rightarrow> string \<Rightarrow> string" where
  "skip_comment d s =
     (if d = 0 \<or> s = [] then s
      else if take 2 s = ''/*'' then skip_comment (Suc d) (drop 2 s)
      else if take 2 s = ''//'' then skip_comment d (skip_line (drop 2 s))
      else if take 2 s = ''*/'' then skip_comment (d - 1) (drop 2 s)
      else skip_comment d (tl s))"
  by pat_completeness auto
termination
proof (relation "measure (length \<circ> snd)")
  fix d and s :: string
  assume "\<not> (d = 0 \<or> s = [])"
  then show "((d, skip_line (drop 2 s)), d, s) \<in> measure (length \<circ> snd)"
    using length_skip_line [of "drop 2 s"] by (cases s) auto
qed auto

declare skip_comment.simps [simp del]

definition skips :: "lex_state \<Rightarrow> lex_state \<Rightarrow> bool" where
  "skips st st' \<longleftrightarrow>
     yylex st = yylex st' \<and> yyout st' = yyout st \<and> is_syn_error st' = is_syn_error st \<and> lex_strtab st' = lex_strtab st \<and>
     yylineno st' + int (count_list (yyin st') newline) = yylineno st + int (count_list (yyin st) newline)"

lemma skips_refl: "skips st st"
  by (simp add: skips_def)

lemma skips_trans: "skips st st' \<Longrightarrow> skips st' st'' \<Longrightarrow> skips st st''"
  by (simp add: skips_def)

lemma skips_step:
  assumes "longest (cond_rules (lex_cond st)) (yyin st) = Some (n, a)" and "yyin st \<noteq> []"
    and "a (take n (yyin st)) (advance n st) = Some (None, st')"
    and "yyin st' = drop n (yyin st)" "yyout st' = yyout st" "is_syn_error st' = is_syn_error st"
      "lex_strtab st' = lex_strtab st" "yylineno st' = yylineno (advance n st)"
  shows "skips st st'"
proof -
  have "count_list (yyin st) newline = count_list (take n (yyin st)) newline + count_list (drop n (yyin st)) newline"
    by (metis append_take_drop_id count_list_append)
  moreover have "yylex st = yylex st'"
    using lex_step_eq [OF assms(1,2)] assms(2,3) by (subst yylex.simps) simp
  ultimately show ?thesis using assms(4-8) by (simp add: skips_def)
qed

lemma line_step:
  assumes "lex_cond st = ONE_LINE_IN_MULTI_LINE \<and> k = MULTI_LINE_COMMENT \<or> lex_cond st = ONE_LINE_COMMENT \<and> k = INITIAL"
    and "yyin st = c # s"
  shows "skips st (if c = newline then (advance 1 st)\<lparr>lex_cond := k\<rparr> else advance 1 st)"
  by (rule skips_step [where n = 1 and a = "if c = newline then act_begin k else act_skip"])
     (use assms in \<open>auto simp: not_newline_def act_begin_def act_skip_def\<close>)

lemma line_comment:
  assumes "lex_cond st = ONE_LINE_IN_MULTI_LINE \<and> k = MULTI_LINE_COMMENT \<or> lex_cond st = ONE_LINE_COMMENT \<and> k = INITIAL"
  shows "\<exists>st'. skips st st' \<and> yyin st' = skip_line (yyin st) \<and> n_unpaired st' = n_unpaired st \<and>
    (yyin st' = [] \<or> lex_cond st' = k)"
  using assms
proof (induction "yyin st" arbitrary: st)
  case Nil
  then show ?case by (intro exI [of _ st]) (simp add: skips_refl skip_line_def)
next
  case (Cons c s)
  show ?case
  proof (cases "c = newline")
    case True
    with line_step [OF Cons.prems Cons.hyps(2) [symmetric]] Cons.hyps(2) [symmetric] show ?thesis
      by (intro exI [of _ "(advance 1 st)\<lparr>lex_cond := k\<rparr>"]) (simp add: skip_line_def not_newline_def)
  next
    case False
    have "s = yyin (advance 1 st)" using Cons.hyps(2) [symmetric] by simp
    from Cons.hyps(1) [OF this] Cons.prems obtain st' where "skips (advance 1 st) st'" "yyin st' = skip_line s"
      "n_unpaired st' = n_unpaired st" "yyin st' = [] \<or> lex_cond st' = k"
      using Cons.hyps(2) [symmetric] by auto
    with line_step [OF Cons.prems Cons.hyps(2) [symmetric]] False Cons.hyps(2) [symmetric] show ?thesis
      by (intro exI [of _ st']) (auto simp: skip_line_def not_newline_def intro: skips_trans)
  qed
qed

definition comment_end :: "nat \<Rightarrow> lex_state \<Rightarrow> lex_state \<Rightarrow> bool" where
  "comment_end d st st' \<longleftrightarrow>
     skips st st' \<and> yyin st' = skip_comment d (yyin st) \<and> (yyin st' = [] \<or> lex_cond st' = INITIAL \<and> n_unpaired st' = 0)"

lemma comment_end_after:
  assumes "skips st st1" and "comment_end e st1 st'" and "skip_comment d (yyin st) = skip_comment e (yyin st1)"
  shows "\<exists>st'. comment_end d st st'"
  using assms by (auto simp: comment_end_def intro!: exI [of _ st'] intro: skips_trans)

lemma prefix_take2: "length w = 2 \<Longrightarrow> prefix w s \<longleftrightarrow> take 2 s = w"
  by (metis append_eq_conv_conj prefix_def)

lemma multi_rules:
  assumes "s \<noteq> []"
  shows "longest (cond_rules MULTI_LINE_COMMENT) s =
    (if take 2 s = ''/*'' then Some (2, act_nest)
     else if take 2 s = ''//'' then Some (2, act_begin ONE_LINE_IN_MULTI_LINE)
     else if take 2 s = ''*/'' then Some (2, act_close)
     else Some (1, act_skip))"
proof -
  obtain c s' where s: "s = c # s'" using assms by (cases s) auto
  have "match_len (lit w) s = (if take 2 s = w then Some 2 else None)" if "length w = 2" for w
    using that by (simp add: prefix_take2)
  moreover have "longest [(Sat (\<lambda>c. c = newline), act_skip), (Sat not_newline, act_skip)] s = Some (1, act_skip)"
    by (simp add: s not_newline_def)
  ultimately show ?thesis by (simp del: match_len_lit match_len_Sat)
qed

lemma in_comment:
  assumes "lex_cond st = MULTI_LINE_COMMENT" and "n_unpaired st = int d" and "0 < d"
  shows "\<exists>st'. comment_end d st st'"
  using assms
proof (induction d "yyin st" arbitrary: st rule: skip_comment.induct)
  case (1 d st)
  let ?s = "yyin st"
  consider "?s = []" | "?s \<noteq> []" "take 2 ?s = ''/*''" | "?s \<noteq> []" "take 2 ?s = ''//''"
    | "?s \<noteq> []" "take 2 ?s = ''*/''" | "?s \<noteq> []" "take 2 ?s \<notin> {''/*'', ''//'', ''*/''}" by blast
  then show ?case
  proof cases
    case 1
    then show ?thesis by (intro exI [of _ st]) (simp add: comment_end_def skips_refl skip_comment.simps [of d "[]"])
  next
    case 2
    let ?st = "(advance 2 st)\<lparr>n_unpaired := n_unpaired st + 1\<rparr>"
    have "skips st ?st"
      by (rule skips_step [where n = 2 and a = act_nest]) (use 2 "1.prems" in \<open>simp_all del: cond_rules.simps add: multi_rules act_nest_def\<close>)
    moreover obtain st' where "comment_end (Suc d) ?st st'"
      using "1.hyps"(1) [of ?st] 2 "1.prems" by auto
    ultimately show ?thesis
      by (rule comment_end_after) (use 2 "1.prems" in \<open>simp add: skip_comment.simps [of d "yyin st"]\<close>)
  next
    case 3
    let ?st = "(advance 2 st)\<lparr>lex_cond := ONE_LINE_IN_MULTI_LINE\<rparr>"
    have s: "skips st ?st"
      by (rule skips_step [where n = 2 and a = "act_begin ONE_LINE_IN_MULTI_LINE"])
         (use 3 "1.prems" in \<open>simp_all del: cond_rules.simps add: multi_rules act_begin_def\<close>)
    obtain st1 where st1: "skips ?st st1" "yyin st1 = skip_line (yyin ?st)" "n_unpaired st1 = n_unpaired ?st"
      "yyin st1 = [] \<or> lex_cond st1 = MULTI_LINE_COMMENT"
      using line_comment [of ?st MULTI_LINE_COMMENT] by auto
    have "\<exists>st'. comment_end d st1 st'"
    proof (cases "yyin st1 = []")
      case True
      then show ?thesis by (intro exI [of _ st1]) (simp add: comment_end_def skips_refl skip_comment.simps [of d "[]"])
    next
      case False
      with st1 "1.hyps"(2) [of st1] 3 "1.prems" show ?thesis by auto
    qed
    then obtain st' where "comment_end d st1 st'" by blast
    with skips_trans [OF s st1(1)] show ?thesis
      by (rule comment_end_after) (use 3 "1.prems" st1(2) in \<open>simp add: skip_comment.simps [of d "yyin st"]\<close>)
  next
    case 4
    let ?st = "(advance 2 st)\<lparr>n_unpaired := n_unpaired st - 1\<rparr>"
    let ?st' = "if d = 1 then ?st\<lparr>lex_cond := INITIAL\<rparr> else ?st"
    have s: "skips st ?st'"
      by (rule skips_step [where n = 2 and a = act_close])
         (use 4 "1.prems" in \<open>simp_all del: cond_rules.simps add: multi_rules act_close_def Let_def\<close>)
    show ?thesis
    proof (cases "d = 1")
      case True
      with s 4 "1.prems" show ?thesis
        by (intro exI [of _ ?st']) (simp add: comment_end_def skip_comment.simps [of "Suc 0" "yyin st"] skip_comment.simps [of 0])
    next
      case False
      with "1.hyps"(3) [of ?st] 4 "1.prems" obtain st' where "comment_end (d - 1) ?st st'" by auto
      with s False show ?thesis
        using comment_end_after [of st ?st "d - 1" st' d] 4 "1.prems" by (simp add: skip_comment.simps [of d "yyin st"])
    qed
  next
    case 5
    have s: "skips st (advance 1 st)"
      by (rule skips_step [where n = 1 and a = act_skip])
         (use 5 "1.prems" in \<open>simp_all del: cond_rules.simps add: multi_rules act_skip_def\<close>)
    moreover obtain st' where "comment_end d (advance 1 st) st'"
      using "1.hyps"(4) [of "advance 1 st"] 5 "1.prems" by (auto simp: drop_Suc)
    ultimately show ?thesis
      by (rule comment_end_after) (use 5 "1.prems" in \<open>simp add: skip_comment.simps [of d "yyin st"] drop_Suc\<close>)
  qed
qed

lemma match_len_SeqSat [simp]:
  "match_len (Seq (Sat p) r) (c # s) = (if p c then map_option Suc (match_len r s) else None)"
proof -
  have "rx_alt r Zero = r" by (cases r) simp_all
  then show ?thesis by (simp add: match_len_Cons match_len.simps(1) split: option.splits)
qed

lemma match_len_plus_fail [simp]: "\<not> p c \<Longrightarrow> match_len (Seq (rx_plus (Sat p)) r) (c # s) = None"
  by (simp add: rx_plus_def match_len_Cons match_len.simps(1))

lemma match_len_Seq_lit_fail [simp]: "c \<noteq> d \<Longrightarrow> match_len (Seq (lit (d # w)) r) (c # s) = None"
  by (simp add: lit_simps match_len_Cons match_len.simps(1))

lemma is_longest_unique:
  assumes "is_longest L s x" and "is_longest L s y"
  shows "x = y"
proof -
  have "n \<le> m" if "is_longest L s (Some n)" "is_longest L s (Some m)" for n m
    using that take_is_prefix [of n s] by fastforce
  then have "n = m" if "is_longest L s (Some n)" "is_longest L s (Some m)" for n m
    using that by (meson order.antisym)
  moreover have "\<not> (is_longest L s (Some n) \<and> is_longest L s None)" for n
    using take_is_prefix [of n s] by auto
  ultimately show ?thesis using assms by (metis option.exhaust)
qed

lemma is_longest_Un:
  assumes "is_longest A s x" and "is_longest B s y"
  shows "is_longest (A \<union> B) s
     (case (x, y) of (Some n, Some m) \<Rightarrow> Some (max n m) | (Some n, None) \<Rightarrow> Some n | (None, y) \<Rightarrow> y)"
proof (cases "\<exists>n m. x = Some n \<and> y = Some m")
  case True
  then obtain n m where [simp]: "x = Some n" "y = Some m" by blast
  have "length u \<le> max n m" if "prefix u s" "u \<in> A \<or> u \<in> B" for u
    using assms that by (auto simp: le_max_iff_disj)
  with assms show ?thesis by (auto simp: max_def)
next
  case False
  with assms show ?thesis by (cases x; cases y) auto
qed

lemma match_len_Alt [simp]:
  "match_len (Alt q r) s =
     (case (match_len q s, match_len r s) of
       (Some n, Some m) \<Rightarrow> Some (max n m)
     | (Some n, None) \<Rightarrow> Some n
     | (None, x) \<Rightarrow> x)"
  by (rule is_longest_unique [OF match_len_longest], unfold lang.simps,
      rule is_longest_Un [OF match_len_longest match_len_longest])

lemma initial_open:
  "longest initial_rules (CHR ''/'' # CHR ''*'' # s) = Some (2, act_open)"
  "longest initial_rules (CHR ''/'' # CHR ''/'' # s) = Some (2, act_begin ONE_LINE_COMMENT)"
  by (simp_all add: initial_rules_def ident_start_def letter_def digit_def in_range_def
    not_newline_def blank_def)

lemma comment_skips:
  assumes "lex_cond st = INITIAL" and "n_unpaired st = 0" and "yyin st = ''/*'' @ s"
  shows "\<exists>st'. skips st st' \<and> yyin st' = skip_comment 1 s \<and> (yyin st' = [] \<or> lex_cond st' = INITIAL \<and> n_unpaired st' = 0)"
proof -
  let ?st = "(advance 2 st)\<lparr>n_unpaired := 1, lex_cond := MULTI_LINE_COMMENT\<rparr>"
  have "skips st ?st"
    by (rule skips_step [where n = 2 and a = act_open])
       (use assms in \<open>simp_all add: initial_open act_open_def\<close>)
  moreover obtain st' where "comment_end 1 ?st st'"
    using in_comment [of ?st 1] by auto
  ultimately show ?thesis using assms by (auto simp: comment_end_def intro: skips_trans)
qed

section \<open>Words\<close>

lemma space_class [simp]:
  "\<not> digit (CHR '' '')" "\<not> letter (CHR '' '')" "\<not> ident_char (CHR '' '')" "\<not> ident_start (CHR '' '')"
  by (simp_all add: ident_start_def ident_char_def letter_def digit_def in_range_def)

lemma no_space:
  "\<forall>(r, a) \<in> set initial_rules. \<forall>u \<in> lang r. CHR '' '' \<in> set u \<longrightarrow> length u \<le> 1"
  by (auto simp: initial_rules_def rx_plus_def) (use space_class in blast)+

lemma longest_word:
  assumes "w \<noteq> []" and "List.find (\<lambda>(r, a). w \<in> lang r) initial_rules = Some (r, a)"
  shows "longest initial_rules (w @ CHR '' '' # s) = Some (length w, a)"
proof (rule longest_eqI [OF _ _ assms(2)])
  show "bounded initial_rules (w @ CHR '' '' # s) (length w)"
    unfolding bounded_def
  proof (intro allI impI)
    fix r b u
    assume u: "(r, b) \<in> set initial_rules" "prefix u (w @ CHR '' '' # s)" "u \<in> lang r"
    show "length u \<le> length w"
    proof (rule ccontr)
      assume "\<not> length u \<le> length w"
      with u(2) obtain v where "u = w @ CHR '' '' # v" by (auto simp: prefix_append prefix_Cons dest: prefix_length_le)
      with u(1,3) no_space assms(1) show False by (cases w) fastforce+
    qed
  qed
qed simp

lemma lex_word:
  assumes "w \<noteq> []" and "List.find (\<lambda>(r, a). w \<in> lang r) initial_rules = Some (r, a)"
    and "lex_cond st = INITIAL" and "yyin st = w @ CHR '' '' # s"
  shows "lex_step st = a w (advance (length w) st)"
  using lex_step_eq [of st "length w" a] longest_word [OF assms(1,2)] assms(3,4) by simp

subsection \<open>The text of a token\<close>

definition sym_texts :: "(yytokentype \<times> string) list" where
  "sym_texts =
     [(T_ASSIGNOP, ''=''), (T_COMMA, '',''), (T_SEMI, '';''), (T_DOT, ''.''), (T_LP, ''(''), (T_RP, '')''),
      (T_LB, ''[''), (T_RB, '']''), (T_LC, ''{''), (T_RC, ''}''), (T_IF, ''if''), (T_FOR, ''for''),
      (T_ELSE, ''else''), (T_WHILE, ''while''), (T_STRUCT, ''struct''), (T_RETURN, ''return'')]"

definition op_texts :: "(yytokentype \<times> string) list" where
  "op_texts =
     [(T_PLUS, ''+''), (T_MINUS, ''-''), (T_STAR, ''*''), (T_DIV, ''/''), (T_NOT, ''!''), (T_OR, ''||''),
      (T_AND, ''&&''), (T_RELOP, ''>''), (T_RELOP, ''<''), (T_RELOP, ''>=''), (T_RELOP, ''<=''),
      (T_RELOP, ''==''), (T_RELOP, ''!='')]"

definition reserved :: "string list" where
  "reserved = [''if'', ''for'', ''else'', ''while'', ''struct'', ''return'', ''int'', ''float'']"

definition ident_word :: "string \<Rightarrow> bool" where
  "ident_word w \<longleftrightarrow> w \<noteq> [] \<and> ident_start (hd w) \<and> list_all ident_char (tl w)"

fun token_line :: "token \<Rightarrow> int" where
  "token_line (k, Lval_nd nd) = nd_lineno nd"
| "token_line (k, Lval_lineno l) = l"
| "token_line (k, Lval_op l s) = l"

fun token_text :: "token \<Rightarrow> string" where
  "token_text (k, Lval_nd nd) = (case nd_val nd of Val_s s \<Rightarrow> s | Val_i i \<Rightarrow> dec_cint i | _ \<Rightarrow> [])"
| "token_text (k, Lval_lineno _) = (case map_of sym_texts k of Some w \<Rightarrow> w | None \<Rightarrow> [])"
| "token_text (k, Lval_op _ s) = s"

text \<open>The tokens of the language; a floating constant has no exact decimal text and is left out.\<close>

definition node_token_ok :: "yytokentype \<Rightarrow> Node \<Rightarrow> bool" where
  "node_token_ok k nd =
     (case nd_val nd of
       Val_s s \<Rightarrow> nd = id_node (nd_lineno nd, s) \<and>
         (k = T_TYPE \<and> (s = ''int'' \<or> s = ''float'') \<or> k = T_ID \<and> ident_word s \<and> s \<notin> set reserved)
     | Val_i i \<Rightarrow> nd = int_node (nd_lineno nd, i) \<and> k = T_INT \<and> 0 \<le> sint i
     | _ \<Rightarrow> False)"

fun token_ok :: "token \<Rightarrow> bool" where
  "token_ok (k, Lval_nd nd) = node_token_ok k nd"
| "token_ok (k, Lval_lineno _) = (map_of sym_texts k \<noteq> None)"
| "token_ok (k, Lval_op _ s) = ((k, s) \<in> set op_texts)"

fun print_tokens :: "int \<Rightarrow> token list \<Rightarrow> string" where
  "print_tokens line [] = []"
| "print_tokens line (t # ts) =
     replicate (nat (token_line t - line)) newline @ token_text t @ '' '' @ print_tokens (token_line t) ts"

subsection \<open>The rule of a word\<close>

definition word_rule :: "string \<Rightarrow> lex_action \<Rightarrow> bool" where
  "word_rule w a \<longleftrightarrow> w \<noteq> [] \<and> newline \<notin> set w \<and> (\<exists>r. List.find (\<lambda>(r, a). w \<in> lang r) initial_rules = Some (r, a))"

lemma mem_lang: "w \<in> lang r \<longleftrightarrow> nullable (fold after w r)"
proof (induction w arbitrary: r)
  case (Cons c w)
  have "c # w \<in> lang r \<longleftrightarrow> w \<in> lang (after c r)" by (simp add: lang_after)
  with Cons show ?case by simp
qed (simp add: nullable_lang)

lemmas class_defs = ident_start_def ident_char_def letter_def digit_def in_range_def not_newline_def blank_def

lemma sym_rules: "list_all (\<lambda>(k, w). word_rule w (lex_sym k)) sym_texts"
  by (simp add: sym_texts_def word_rule_def initial_rules_def mem_lang lit_simps del: lang_lit lang.simps)

lemma op_rules: "list_all (\<lambda>(k, w). word_rule w (lex_op k)) op_texts"
  by (simp add: op_texts_def word_rule_def initial_rules_def mem_lang lit_simps del: lang_lit lang.simps)

lemma type_rules: "list_all (\<lambda>w. word_rule w (lex_node T_TYPE TERM_ID)) [''int'', ''float'']"
  by (simp add: word_rule_def initial_rules_def mem_lang lit_simps del: lang_lit lang.simps)

lemma lang_SeqSat: "w \<in> lang (Seq (Sat p) r) \<longleftrightarrow> w \<noteq> [] \<and> p (hd w) \<and> tl w \<in> lang r"
proof (cases w)
  case (Cons c v)
  have "c # v \<in> lang (Seq (Sat p) r) \<longleftrightarrow> v \<in> lang (after c (Seq (Sat p) r))" by (simp only: lang_after mem_Collect_eq)
  also have "\<dots> \<longleftrightarrow> p c \<and> v \<in> lang r" by simp
  finally show ?thesis by (simp add: Cons)
qed simp

lemma ident_word_lang: "w \<in> lang (Seq (Sat ident_start) (Star (Sat ident_char))) \<longleftrightarrow> ident_word w"
  unfolding lang_SeqSat by (simp add: ident_word_def list_all_iff)

lemma ident_neq: "ident_word w \<Longrightarrow> \<not> ident_start c \<Longrightarrow> w \<noteq> c # v"
  by (auto simp: ident_word_def)

lemma ident_newline: "ident_word w \<Longrightarrow> newline \<notin> set w"
  by (cases w) (auto simp: ident_word_def list_all_iff class_defs)

lemma ident_rule:
  assumes "ident_word w" and "w \<notin> set reserved"
  shows "word_rule w (lex_node T_ID TERM_ID)"
proof -
  have "w \<noteq> []" using assms(1) by (auto simp: ident_word_def)
  with assms ident_newline [OF assms(1)] ident_word_lang [of w] show ?thesis
    by (simp add: word_rule_def initial_rules_def ident_neq class_defs reserved_def del: lang.simps(5))
qed

lemma digit_iff: "digit c \<longleftrightarrow> 48 \<le> (of_char c :: nat) \<and> (of_char c :: nat) < 58"
proof -
  have "(of_char c :: int) = int (of_char c)" by (simp only: of_nat_of_char)
  then show ?thesis unfolding digit_def in_range_def by auto
qed

lemma dec_nat_digit: "c \<in> set (dec_nat n) \<Longrightarrow> digit c"
  using dec_nat_digits by (simp add: digit_iff)

lemma dec_nat_leading: "hd (dec_nat n) = CHR ''0'' \<Longrightarrow> dec_nat n = ''0''"
proof (induction n rule: dec_nat.induct)
  case (1 n)
  show ?case
  proof (cases "n < 10")
    case True
    with "1.prems" have "char_of (48 + n) = CHR ''0''" by (simp add: dec_nat.simps [of n])
    with True show ?thesis by (simp add: dec_nat.simps [of n])
  next
    case False
    with "1.prems" have "hd (dec_nat (n div 10)) = CHR ''0''" by (simp add: dec_nat.simps [of n])
    moreover have "dec_nat 0 = ''0''" by code_simp
    ultimately have "dec_nat (n div 10) = dec_nat 0" using "1.IH" False by simp
    with False show ?thesis by (simp only: dec_nat_inject)
  qed
qed

lemma digits_neq: "(\<forall>c \<in> set w. digit c) \<Longrightarrow> \<not> digit c \<Longrightarrow> w \<noteq> c # v"
  by auto

lemma nil_plus: "[] \<notin> lang (rx_plus (Sat p))" "[] \<notin> lang (Seq (Sat p) r)"
  by (simp_all add: rx_plus_def)

lemma digit_lit:
  "digit (Char b0 b1 b2 b3 b4 b5 b6 b7) \<longleftrightarrow> in_range (CHR ''0'') (CHR ''9'') (Char b0 b1 b2 b3 b4 b5 b6 b7)"
  "in_range lo hi (Char b0 b1 b2 b3 b4 b5 b6 b7) \<longleftrightarrow>
     (of_char lo :: int) \<le> of_char (Char b0 b1 b2 b3 b4 b5 b6 b7) \<and> (of_char (Char b0 b1 b2 b3 b4 b5 b6 b7) :: int) \<le> of_char hi"
  by (simp_all only: digit_def in_range_def)

lemma dec_nat_rule: "word_rule (dec_nat n) (lex_num 10)"
proof -
  let ?w = "dec_nat n"
  have d: "\<forall>c \<in> set ?w. digit c" using dec_nat_digit by blast
  then have hd: "digit (hd ?w)" by simp
  then have "\<not> ident_start (hd ?w)" by (auto simp: class_defs)
  then have "?w \<notin> lang (Seq (Sat ident_start) (Star (Sat ident_char)))" by (simp only: lang_SeqSat) simp
  moreover have "?w \<notin> lang (Seq (rx_plus (Sat digit)) (Seq (Sat (\<lambda>c. c = CHR ''.'')) (rx_plus (Sat digit))))"
  proof
    assume "?w \<in> lang (Seq (rx_plus (Sat digit)) (Seq (Sat (\<lambda>c. c = CHR ''.'')) (rx_plus (Sat digit))))"
    then have "CHR ''.'' \<in> set ?w" by (auto simp: rx_plus_def)
    with d show False by (auto simp: class_defs)
  qed
  moreover have "?w \<notin> lang (Seq (lit ''0'') r)" if "[] \<notin> lang r" for r
  proof
    assume "?w \<in> lang (Seq (lit ''0'') r)"
    then have "hd ?w = CHR ''0''" "?w \<noteq> ''0''" using that by auto
    then show False using dec_nat_leading by blast
  qed
  moreover have "?w = ''0'' \<or> ?w \<in> lang (Seq (Sat (\<lambda>c. digit c \<and> c \<noteq> CHR ''0'')) (Star (Sat digit)))"
    unfolding lang_SeqSat using dec_nat_leading [of n] hd d by (cases ?w) auto
  moreover have "newline \<notin> set ?w" using d by (auto simp: class_defs)
  moreover have "?w \<noteq> c # v" if "\<not> digit c" for c v using d that by auto
  ultimately show ?thesis
    by (simp add: word_rule_def initial_rules_def nil_plus digit_lit del: lang.simps(5))
qed

lemma strtol_dec:
  assumes "int n < 2 ^ 63"
  shows "strtol 10 (dec_nat n) = int n"
proof -
  have d: "\<forall>c \<in> set (dec_nat n). digit c" using dec_nat_digit by blast
  have v: "digit_val c = int (of_char c - 48) \<and> digit_val c < 10" if "digit c" for c
  proof -
    have "(of_char c :: int) = int (of_char c)" by (simp only: of_nat_of_char)
    with that show ?thesis by (simp add: digit_val_def digit_iff)
  qed
  have "radix_val 10 w = int (dec_val w)" if "\<forall>c \<in> set w. digit c" for w
    using that unfolding radix_val_def dec_val_def
    by (induction w rule: rev_induct) (use v in auto)
  then have r: "radix_val 10 (dec_nat n) = int n" using d by simp
  have tw: "takeWhile (\<lambda>c. digit_val c < 10) (dec_nat n) = dec_nat n"
    using d v unfolding takeWhile_eq_all_conv by blast
  show ?thesis using assms by (simp add: strtol_def tw r)
qed

lemma lex_all_skips: "skips st st' \<Longrightarrow> lex_all st = lex_all st'"
  by (simp add: lex_all.simps [of st] lex_all.simps [of st'] skips_def)

lemma initial_blank:
  "longest initial_rules (CHR '' '' # s) = Some (1, act_skip)"
  "longest initial_rules (newline # s) = Some (1, act_newline)"
  by (simp_all add: initial_rules_def class_defs)

lemma blank_skips:
  assumes "lex_cond st = INITIAL" and "yyin st = CHR '' '' # s"
  shows "skips st (advance 1 st)"
  by (rule skips_step [where n = 1 and a = act_skip]) (use assms in \<open>simp_all add: initial_blank act_skip_def\<close>)

lemma count_replicate [simp]: "count_list (replicate k c) c = k"
  by (induction k) simp_all

lemma newlines_skip:
  assumes "lex_cond st = INITIAL" and "yyin st = replicate k newline @ s"
  shows "\<exists>st'. skips st st' \<and> lex_cond st' = INITIAL \<and> yyin st' = s"
  using assms
proof (induction k arbitrary: st)
  case 0
  then show ?case by (auto intro: skips_refl)
next
  case (Suc k)
  let ?st = "(advance 1 st)\<lparr>yycolumn := 1\<rparr>"
  have "skips st ?st"
    by (rule skips_step [where n = 1 and a = act_newline]) (use Suc.prems in \<open>simp_all add: initial_blank act_newline_def\<close>)
  moreover obtain st' where "skips ?st st'" "lex_cond st' = INITIAL" "yyin st' = s"
    using Suc.IH [of ?st] Suc.prems by auto
  ultimately show ?case by (blast intro: skips_trans)
qed

text \<open>A token's text, followed by a blank, is read back as the token.\<close>

lemma word_rule_step:
  assumes "word_rule w a" and "lex_cond st = INITIAL" and "yyin st = w @ CHR '' '' # s"
  shows "lex_step st = a w (advance (length w) st)" "yylineno (advance (length w) st) = yylineno st"
    "yyin (advance (length w) st) = CHR '' '' # s" "w \<noteq> []"
  using assms lex_word [OF _ _ assms(2,3)] by (auto simp: word_rule_def)

definition same_run :: "lex_state \<Rightarrow> lex_state \<Rightarrow> bool" where
  "same_run st st' \<longleftrightarrow> lex_cond st' = INITIAL \<and> strtab_wf (lex_strtab st') \<and> is_syn_error st' = is_syn_error st \<and>
     yylineno st' = yylineno st"

lemma token_step:
  assumes "token_ok t" and "lex_cond st = INITIAL" and "strtab_wf (lex_strtab st)"
    and "yyin st = token_text t @ CHR '' '' # s" and "token_line t = yylineno st"
  shows "\<exists>st'. lex_step st = Some (Some t, st') \<and> yyin st' = CHR '' '' # s \<and> same_run st st'"
proof -
  obtain k v where t: "t = (k, v)" by fastforce
  obtain p tab where reg: "register_str (token_text t) (lex_strtab st) = Some (p, tab)"
    "str_at tab p = Some (token_text t)" "strtab_wf tab"
    using register_lexeme [OF assms(3)] by blast
  show ?thesis
  proof (cases v)
    case (Lval_lineno l)
    with assms(1) t obtain w where w: "map_of sym_texts k = Some w" by auto
    then have "word_rule w (lex_sym k)" using sym_rules by (auto simp: list_all_iff dest: map_of_SomeD)
    from word_rule_step [OF this assms(2), of s] assms w show ?thesis
      by (auto simp: t Lval_lineno lex_sym_def same_run_def)
  next
    case (Lval_op l w)
    with assms(1) t have "word_rule w (lex_op k)" using op_rules by (auto simp: list_all_iff)
    from word_rule_step [OF this assms(2), of s] assms reg show ?thesis
      by (auto simp: t Lval_op lex_op_def same_run_def)
  next
    case (Lval_nd nd)
    then have nd: "node_token_ok k nd" "nd_lineno nd = yylineno st" using assms(1,5) by (simp_all add: t)
    show ?thesis
    proof (cases "nd_val nd")
      case (Val_s w)
      with nd have k: "k = T_TYPE \<and> (w = ''int'' \<or> w = ''float'') \<or> k = T_ID \<and> ident_word w \<and> w \<notin> set reserved"
        and n: "nd = Node TERM_ID (yylineno st) (Val_s w) no_sema no_trans []"
        by (auto simp: node_token_ok_def id_node_def)
      then have "word_rule w (lex_node k TERM_ID)" using type_rules ident_rule by auto
      from word_rule_step [OF this assms(2), of s] assms reg Val_s n show ?thesis
        by (auto simp: t Lval_nd lex_node_def lex_terminal_def same_run_def)
    next
      case (Val_i i)
      with nd have k: "k = T_INT" "0 \<le> sint i" and n: "nd = Node TERM_INT (yylineno st) (Val_i i) no_sema no_trans []"
        by (auto simp: node_token_ok_def int_node_def)
      have w: "dec_cint i = dec_nat (nat (sint i))" using k(2) by (simp add: dec_cint_def dec_int_def)
      have "sint i < 2 ^ 31" using sint_less [of i] by simp
      then have "strtol 10 (dec_nat (nat (sint i))) = sint i" using strtol_dec [of "nat (sint i)"] k(2) by simp
      then have "word_of_int (strtol 10 (dec_nat (nat (sint i)))) = i" by simp
      with word_rule_step [OF dec_nat_rule assms(2), of "nat (sint i)" s] assms Val_i n k(1) w show ?thesis
        by (auto simp: t Lval_nd lex_num_def lex_terminal_def same_run_def)
    qed (use nd in \<open>simp_all add: node_token_ok_def\<close>)
  qed
qed

lemma token_text_nonempty: "token_ok t \<Longrightarrow> token_text t \<noteq> []"
  by (cases t; cases "snd t")
     (auto simp: node_token_ok_def ident_word_def dec_cint_def dec_int_def op_texts_def sym_texts_def
       split: node_val.splits option.splits if_splits)

lemma print_lex:
  assumes "list_all token_ok toks" and "sorted (yylineno st # map token_line toks)"
    and "lex_cond st = INITIAL" and "strtab_wf (lex_strtab st)" and "yyin st = print_tokens (yylineno st) toks"
  shows "\<exists>st'. lex_all st = Some (toks, st') \<and> is_syn_error st' = is_syn_error st"
  using assms
proof (induction toks arbitrary: st)
  case Nil
  then show ?case by (simp add: lex_all.simps [of st] yylex.simps [of st])
next
  case (Cons t toks)
  from newlines_skip [OF Cons.prems(3)] Cons.prems(5) obtain st1 where
    1: "skips st st1" "lex_cond st1 = INITIAL" "yyin st1 = token_text t @ CHR '' '' # print_tokens (token_line t) toks"
    by auto
  have "yylineno st1 = token_line t" "strtab_wf (lex_strtab st1)" "is_syn_error st1 = is_syn_error st"
    using 1(1,3) Cons.prems by (auto simp: skips_def count_list_append)
  moreover obtain st2 where 2: "lex_step st1 = Some (Some t, st2)" "yyin st2 = CHR '' '' # print_tokens (token_line t) toks"
    "same_run st1 st2"
    using token_step [OF _ 1(2) _ 1(3)] calculation Cons.prems(1) by auto
  moreover have "yylex st1 = Some (Some t, st2)"
    using 2(1) 1(3) by (subst yylex.simps) simp
  moreover have "\<exists>st'. lex_all (advance 1 st2) = Some (toks, st') \<and> is_syn_error st' = is_syn_error (advance 1 st2)"
    using Cons.IH [of "advance 1 st2"] Cons.prems(1,2) 2 calculation(1) by (simp add: same_run_def)
  moreover have "lex_all st2 = lex_all (advance 1 st2)"
    using lex_all_skips [OF blank_skips [OF _ 2(2)]] 2(3) by (simp add: same_run_def)
  ultimately show ?case
    using lex_all_skips [OF 1(1)] by (auto simp: lex_all.simps [of st1] same_run_def)
qed

section \<open>Properties\<close>

text \<open>
  C13: the lexer reads every text to its end: the loop terminates and never gets stuck, the line
  counter has counted every line, the comment counter stays between 0 and the length of the text, and
  the syntax error flag is set exactly when a message was written (in particular the default rule, which
  would copy characters to the output, never fires).
\<close>

theorem lexer_total:
  "\<exists>toks st. lex_all (lex_start s) = Some (toks, st) \<and> yyin st = [] \<and>
     yylineno st = 1 + int (count_list s newline) \<and> 0 \<le> n_unpaired st \<and> n_unpaired st \<le> int (length s) \<and>
     (is_syn_error st \<longleftrightarrow> yyout st \<noteq> [])"
proof -
  obtain toks st where "lex_all (lex_start s) = Some (toks, st)" "lex_ok st" "lex_reads (lex_start s) st" "yyin st = []"
    using lex_all_ok [OF lex_start_ok] by blast
  then show ?thesis by (auto simp: lex_reads_def lex_ok_def lex_start_def split: if_splits)
qed


definition demo_tokens :: "token list" where
  "demo_tokens =
     [(T_TYPE, Lval_nd (id_node (1, ''int''))), (T_ID, Lval_nd (id_node (1, ''i''))), (T_SEMI, Lval_lineno 1),
      (T_WHILE, Lval_lineno 3), (T_LP, Lval_lineno 3), (T_ID, Lval_nd (id_node (3, ''iffy''))),
      (T_RELOP, Lval_op 3 ''<=''), (T_INT, Lval_nd (int_node (3, 2147483647))), (T_RP, Lval_lineno 3)]"


text \<open>
  C14: a comment is skipped as the README describes it. The three start conditions and the counter of
  the scanner do what the direct recursion \<open>skip_comment\<close> on the text does: a nested \<open>/*\<close>
  needs its own \<open>*/\<close>, and inside a comment the rest of a line after \<open>//\<close> does not count. Tokens,
  messages and strings are those of the text behind the comment, and the lines of the comment are counted.
\<close>

theorem comment_reference:
  assumes "lex_cond st = INITIAL" and "n_unpaired st = 0" and "yyin st = ''/*'' @ s"
  shows "\<exists>st'. yylex st = yylex st' \<and> yyin st' = skip_comment 1 s \<and>
     (yyin st' = [] \<or> lex_cond st' = INITIAL \<and> n_unpaired st' = 0) \<and>
     yyout st' = yyout st \<and> is_syn_error st' = is_syn_error st \<and> lex_strtab st' = lex_strtab st \<and>
     yylineno st' + int (count_list (yyin st') newline) = yylineno st + int (count_list s newline)"
proof -
  obtain st' where "skips st st'" "yyin st' = skip_comment 1 s" "yyin st' = [] \<or> lex_cond st' = INITIAL \<and> n_unpaired st' = 0"
    using comment_skips [OF assms] by blast
  then show ?thesis using assms(3) by (intro exI [of _ st']) (simp add: skips_def)
qed

text \<open>The comment of the README, on fewer lines.\<close>

definition readme_comment :: string where
  "readme_comment =
     ''* can be /* nested */'' @ [newline] @ ''* like // */'' @ [newline] @ ''* like // *//*'' @ [newline] @ ''*/''"

theorem comment_reference_witness:
  "\<exists>st'. yylex (lex_start (''/*'' @ readme_comment @ ''x'')) = yylex st' \<and> yyin st' = ''x'' \<and>
     lex_cond st' = INITIAL \<and> yylineno st' = 4"
proof -
  let ?st = "lex_start (''/*'' @ readme_comment @ ''x'')"
  have "skip_comment 1 (readme_comment @ ''x'') = ''x''" by code_simp
  moreover have "count_list (readme_comment @ ''x'') newline = 3" by code_simp
  ultimately show ?thesis
    using comment_reference [of ?st "readme_comment @ ''x''"] by (force simp: lex_start_def)
qed


end
