(* ===== verification/Labels.thy ===== *)
theory Labels
  imports Driver Preprocess
begin

text \<open>
  The label discipline of the translation: whatever it emits, every label is defined once, every
  jump has its label, and label operands stand at label positions only. The buffer \<open>translate\<close>
  hands to the back end therefore meets the precondition of the theorems on \<open>preprocess_ir\<close>.
\<close>

section \<open>The invariant\<close>

text \<open>A pointer that is no label and will never be one.\<close>

definition good :: "'a ope_state_scheme \<Rightarrow> nat \<Rightarrow> bool" where
  "good st p \<longleftrightarrow> p < next_ope st \<and> p \<notin> label_opes st"

definition ok :: "'a ope_state_scheme \<Rightarrow> nat option \<Rightarrow> bool" where
  "ok st x \<longleftrightarrow> (case x of None \<Rightarrow> True | Some p \<Rightarrow> good st p)"

definition defs :: "IR list \<Rightarrow> nat list" where
  "defs buf = map (the \<circ> ir_rs) (filter (\<lambda>ir. ir_type ir = IR_LABEL) buf)"

definition tabs_ok :: "trans_state \<Rightarrow> bool" where
  "tabs_ok st \<longleftrightarrow> (\<forall>tab \<in> set (scopes (tr_symtab st)). \<forall>chain \<in> set tab. \<forall>s \<in> set chain. ok st (symbol_address s))"

text \<open>\<open>P\<close> is the set of the labels that have been created and not yet been placed.\<close>

definition instr_ok :: "nat set \<Rightarrow> trans_state \<Rightarrow> IR \<Rightarrow> bool" where
  "instr_ok P st ir \<longleftrightarrow>
     (ir_type ir = IR_LABEL \<longrightarrow> (\<exists>l \<in> label_opes st. ir_rs ir = Some l)) \<and>
     (can_jump ir \<longrightarrow> (\<exists>l. jump_target ir = Some l \<and> l \<in> P \<union> set (defs (instr_buffer st)))) \<and>
     (\<forall>x \<in> set (data_operands ir). ok st x)"

definition lab_inv :: "nat set \<Rightarrow> trans_state \<Rightarrow> bool" where
  "lab_inv P st \<longleftrightarrow>
     (\<forall>p ope. opes st p = Some ope \<longrightarrow> p < next_ope st \<and> ope_label_ref_cnt ope = 0) \<and>
     P \<subseteq> label_opes st \<and> tabs_ok st \<and> (\<forall>ir \<in> set (instr_buffer st). instr_ok P st ir) \<and>
     distinct (defs (instr_buffer st)) \<and> P \<inter> set (defs (instr_buffer st)) = {}"

definition grows :: "trans_state \<Rightarrow> trans_state \<Rightarrow> bool" where
  "grows st st' \<longleftrightarrow>
     next_ope st \<le> next_ope st' \<and> (\<forall>p < next_ope st. p \<in> label_opes st' \<longleftrightarrow> p \<in> label_opes st) \<and>
     set (defs (instr_buffer st)) \<subseteq> set (defs (instr_buffer st'))"

lemma grows_refl [simp]: "grows st st"
  by (simp add: grows_def)

lemma grows_trans: "grows st st' \<Longrightarrow> grows st' st'' \<Longrightarrow> grows st st''"
  by (auto simp: grows_def)

lemma ok_None [simp]: "ok st None"
  by (simp add: ok_def)

lemma ok_grows: "grows st st' \<Longrightarrow> ok st x \<Longrightarrow> ok st' x"
  by (auto simp: ok_def good_def grows_def split: option.splits)

lemma defs_grows: "grows st st' \<Longrightarrow> l \<in> set (defs (instr_buffer st)) \<Longrightarrow> l \<in> set (defs (instr_buffer st'))"
  by (auto simp: grows_def)

lemma defs_append [simp]: "defs (xs @ ys) = defs xs @ defs ys"
  by (simp add: defs_def)

lemma defs_in_labels: "lab_inv P st \<Longrightarrow> l \<in> set (defs (instr_buffer st)) \<Longrightarrow> l \<in> label_opes st"
  by (force simp: lab_inv_def instr_ok_def defs_def)

text \<open>The invariant only reads these parts of the state.\<close>

lemma lab_inv_cong:
  assumes "opes st' = opes st" "next_ope st' = next_ope st" "instr_buffer st' = instr_buffer st" "tr_symtab st' = tr_symtab st"
  shows "lab_inv P st' = lab_inv P st" "grows st st'" 
  using assms by (simp_all add: lab_inv_def grows_def label_opes_def tabs_ok_def instr_ok_def ok_def good_def cong: option.case_cong)

text \<open>A change of the heap that leaves the buffer and the tables alone.\<close>

lemma lab_inv_heap:
  assumes "lab_inv P st" and "instr_buffer st' = instr_buffer st" and "tr_symtab st' = tr_symtab st"
    and "next_ope st \<le> next_ope st'" and "\<And>p. p < next_ope st \<Longrightarrow> p \<in> label_opes st' \<longleftrightarrow> p \<in> label_opes st"
    and "\<And>p ope. opes st' p = Some ope \<Longrightarrow> p < next_ope st' \<and> ope_label_ref_cnt ope = 0"
  shows "lab_inv P st' \<and> grows st st'"
proof -
  have m: "grows st st'" using assms(2,4,5) by (auto simp: grows_def)
  have lab: "p < next_ope st" if "p \<in> label_opes st" for p
    using that assms(1) by (auto simp: lab_inv_def label_opes_def)
  have "P \<subseteq> label_opes st'" using assms(1,5) lab by (auto simp: lab_inv_def)
  moreover have "tabs_ok st'"
    using assms(1,3) ok_grows [OF m] by (auto simp: lab_inv_def tabs_ok_def)
  moreover have "instr_ok P st' ir" if "ir \<in> set (instr_buffer st)" for ir
  proof -
    from that assms(1) have i: "instr_ok P st ir" by (simp add: lab_inv_def)
    have "\<exists>l \<in> label_opes st'. ir_rs ir = Some l" if "ir_type ir = IR_LABEL"
      using i that assms(5) lab unfolding instr_ok_def by blast
    then show ?thesis
      using i ok_grows [OF m] unfolding instr_ok_def assms(2) by blast
  qed
  ultimately show ?thesis using assms(1,2,6) m by (simp add: lab_inv_def)
qed

text \<open>The facts a growing state keeps, in the form the simplifier uses.\<close>

abbreviation placed_in :: "trans_state \<Rightarrow> nat \<Rightarrow> bool" where
  "placed_in st l \<equiv> l \<in> set (defs (instr_buffer st))"

abbreviation fwd :: "trans_state \<Rightarrow> trans_state \<Rightarrow> bool" where
  "fwd s s' \<equiv> (\<forall>x. ok s x \<longrightarrow> ok s' x) \<and> (\<forall>a. grows a s \<longrightarrow> grows a s') \<and> (\<forall>l. placed_in s l \<longrightarrow> placed_in s' l)"

lemma fwdI: "grows s s' \<Longrightarrow> fwd s s'"
  using ok_grows grows_trans defs_grows by blast

section \<open>The operations on operands\<close>

lemma new_operand_ok:
  assumes "lab_inv P st" and "new_operand t st = (p, st')"
  shows "grows st st'" "t \<noteq> OPE_LABEL \<Longrightarrow> lab_inv P st' \<and> ok st' (Some p)"
    "t = OPE_LABEL \<Longrightarrow> lab_inv (insert p P) st' \<and> p \<notin> P"
proof -
  from assms(2) obtain ope where
    o: "p = next_ope st" "next_ope st' = Suc (next_ope st)" "opes st' = (opes st)(p \<mapsto> ope)"
      "ope_type ope = t" "ope_label_ref_cnt ope = 0" "instr_buffer st' = instr_buffer st" "tr_symtab st' = tr_symtab st"
    by (cases t) (auto simp: new_operand_def memset_operand_def)
  have fresh: "opes st p = None" using assms(1) o(1) by (cases "opes st p") (auto simp: lab_inv_def)
  have lab: "q \<in> label_opes st' \<longleftrightarrow> (if q = p then t = OPE_LABEL else q \<in> label_opes st)" for q
    using o(3,4) by (auto simp: label_opes_def)
  have *: "lab_inv P st' \<and> grows st st'"
    using assms(1) o lab by (intro lab_inv_heap) (auto simp: lab_inv_def intro: less_SucI split: if_splits)
  then show "grows st st'" by simp
  show "lab_inv P st' \<and> ok st' (Some p)" if "t \<noteq> OPE_LABEL"
    using * that o(1,2) lab by (simp add: ok_def good_def)
  show "lab_inv (insert p P) st' \<and> p \<notin> P" if "t = OPE_LABEL"
  proof -
    have "p \<notin> label_opes st" using fresh by (simp add: label_opes_def)
    then have "p \<notin> P" "p \<notin> set (defs (instr_buffer st))"
      using assms(1) defs_in_labels [OF assms(1)] by (auto simp: lab_inv_def)
    with * that lab o(6) show ?thesis by (auto simp: lab_inv_def instr_ok_def)
  qed
qed

lemma update_ope_ok:
  assumes "lab_inv P st" and "update_ope p f st = Some st'" and "ok st (Some p)"
    and "\<And>x. ope_type x \<noteq> OPE_LABEL \<Longrightarrow> ope_type (f x) \<noteq> OPE_LABEL" and "\<And>x. ope_label_ref_cnt (f x) = ope_label_ref_cnt x"
  shows "lab_inv P st' \<and> grows st st'"
proof -
  from assms(2) obtain a where a: "opes st p = Some a" "st' = st\<lparr>opes := (opes st)(p \<mapsto> f a)\<rparr>"
    by (auto simp: update_ope_def bind_Some_iff)
  have "ope_type a \<noteq> OPE_LABEL" using a(1) assms(3) by (auto simp: ok_def good_def label_opes_def)
  with assms(4) have "ope_type (f a) \<noteq> OPE_LABEL" by simp
  with a \<open>ope_type a \<noteq> OPE_LABEL\<close> assms(1,5) show ?thesis
    by (intro lab_inv_heap) (auto simp: label_opes_def lab_inv_def split: if_splits)
qed

lemma free_operand_ok:
  assumes "lab_inv P st" and "free_operand x st = Some st'" and "ok st x"
  shows "lab_inv P st' \<and> grows st st'"
proof (cases x)
  case None
  with assms(1,2) show ?thesis by (simp add: free_operand_def)
next
  case (Some p)
  with assms(2) have a: "st' = st\<lparr>opes := (opes st)(p := None)\<rparr>"
    by (auto simp: free_operand_def bind_Some_iff)
  have "p \<notin> label_opes st" using Some assms(3) by (auto simp: ok_def good_def)
  with a assms(1) show ?thesis
    by (intro lab_inv_heap) (auto simp: label_opes_def lab_inv_def split: if_splits)
qed

section \<open>Emission\<close>

lemma gen_ok:
  assumes "lab_inv P st" and "gen ty rs rt rd st = Some st'" and "ty \<noteq> IR_LABEL"
    and "instr_ok P st (mk_instr ty rs rt rd)"
  shows "lab_inv P st' \<and> grows st st'"
proof -
  from assms(2) have st': "st' = st\<lparr>instr_buffer := instr_buffer st @ [mk_instr ty rs rt rd]\<rparr>"
    by (auto simp: gen_def new_instr_def bind_Some_iff)
  have d: "defs (instr_buffer st') = defs (instr_buffer st)"
    using assms(3) by (simp add: st' defs_def mk_instr_def)
  have l: "label_opes st' = label_opes st" "next_ope st' = next_ope st" by (simp_all add: st' label_opes_def)
  then have "ok st' = ok st" by (simp add: ok_def [abs_def] good_def [abs_def] cong: option.case_cong)
  with assms(1,4) l d show ?thesis
    by (auto simp: lab_inv_def grows_def instr_ok_def tabs_ok_def st')
qed

definition data_type :: "IR_Type \<Rightarrow> bool" where
  "data_type ty \<longleftrightarrow> ty \<notin> {IR_LABEL, IR_JMP, IR_BEQ, IR_BLT, IR_BLE, IR_BGT, IR_BGE, IR_BNE}"

lemma gen_dataI:
  "lab_inv P s \<Longrightarrow> data_type ty \<Longrightarrow> ok s rs \<Longrightarrow> ok s rt \<Longrightarrow> ok s rd \<Longrightarrow>
     (\<And>s'. lab_inv P s' \<Longrightarrow> fwd s s' \<Longrightarrow> Q s') \<Longrightarrow> valid Q (gen ty rs rt rd s)"
  by (rule valid_any, drule (1) gen_ok)
     (auto dest!: fwdI simp: data_type_def instr_ok_def mk_instr_def data_operands_def can_jump_def is_branch_iff)

lemma gen_jmpI:
  "lab_inv P s \<Longrightarrow> x = Some l \<Longrightarrow> l \<in> P \<or> l \<in> set (defs (instr_buffer s)) \<Longrightarrow>
     (\<And>s'. lab_inv P s' \<Longrightarrow> fwd s s' \<Longrightarrow> Q s') \<Longrightarrow> valid Q (gen IR_JMP x None None s)"
  by (rule valid_any, drule (1) gen_ok)
     (auto dest!: fwdI simp: instr_ok_def mk_instr_def data_operands_def can_jump_def is_branch_iff jump_target_def)

lemma get_relop_type: "get_relop s \<in> {IR_BEQ, IR_BLT, IR_BLE, IR_BGT, IR_BGE, IR_BNE, IR_NOP}"
  by (simp add: get_relop_def relop_dict_def)

lemma gen_branchI:
  assumes "lab_inv P s" and "ty \<in> {IR_BEQ, IR_BLT, IR_BLE, IR_BGT, IR_BGE, IR_BNE, IR_NOP}"
    and "ok s rs" and "ok s rt" and "x = Some l" and "l \<in> P"
    and "\<And>s'. lab_inv P s' \<Longrightarrow> fwd s s' \<Longrightarrow> Q s'"
  shows "valid Q (gen ty rs rt x s)"
  by (rule valid_any, drule gen_ok [OF assms(1)])
     (use assms in \<open>auto dest!: fwdI simp: instr_ok_def mk_instr_def data_operands_def can_jump_def is_branch_iff jump_target_def\<close>)

lemmas gen_bneI = gen_branchI [where ty = IR_BNE, OF _ insertI2 [OF insertI2 [OF insertI2 [OF insertI2 [OF insertI2 [OF insertI1]]]]]]
lemmas gen_relopI = gen_branchI [OF _ get_relop_type]

lemma gen_labelI:
  assumes "lab_inv P s" and "x = Some l" and "l \<in> P" and "P - {l} = P'"
    and "\<And>s'. lab_inv P' s' \<Longrightarrow> fwd s s' \<Longrightarrow> placed_in s' l \<Longrightarrow> Q s'"
  shows "valid Q (gen IR_LABEL x None None s)"
proof (rule valid_any)
  fix st'
  assume "gen IR_LABEL x None None s = Some st'"
  then have st': "st' = s\<lparr>instr_buffer := instr_buffer s @ [mk_instr IR_LABEL (Some l) None None]\<rparr>"
    using assms(2) by (auto simp: gen_def new_instr_def bind_Some_iff)
  have d: "defs (instr_buffer st') = defs (instr_buffer s) @ [l]" by (simp add: st' defs_def mk_instr_def)
  have l: "label_opes st' = label_opes s" "next_ope st' = next_ope s" by (simp_all add: st' label_opes_def)
  then have o: "ok st' = ok s" by (simp add: ok_def [abs_def] good_def [abs_def] cong: option.case_cong)
  have "instr_ok (P - {l}) st' (mk_instr IR_LABEL (Some l) None None)"
    using assms(1,3) l by (auto simp: lab_inv_def instr_ok_def mk_instr_def can_jump_def is_branch_iff data_operands_def)
  moreover have "instr_ok (P - {l}) st' ir" if "ir \<in> set (instr_buffer s)" for ir
    using assms(1) that l o d by (auto simp: lab_inv_def instr_ok_def)
  moreover have "l \<notin> set (defs (instr_buffer s))" using assms(1,3) by (auto simp: lab_inv_def)
  ultimately have "lab_inv (P - {l}) st'"
    using assms(1) l o d by (auto simp: lab_inv_def tabs_ok_def st')
  moreover have "grows s st'" using l d by (auto simp: grows_def)
  ultimately show "Q st'" using assms(4,5) d fwdI by auto
qed

section \<open>Rules for the helper functions\<close>

lemma newI:
  "lab_inv P s \<Longrightarrow> t \<noteq> OPE_LABEL \<Longrightarrow>
     (\<And>p s'. lab_inv P s' \<Longrightarrow> fwd s s' \<Longrightarrow> ok s' (Some p) \<Longrightarrow> valid Q (f p s')) \<Longrightarrow>
     valid Q (case new_operand t s of (p, s') \<Rightarrow> f p s')"
  using new_operand_ok [of P s t] fwdI by (cases "new_operand t s") auto

lemma new_pairI:
  "lab_inv P s \<Longrightarrow> t \<noteq> OPE_LABEL \<Longrightarrow>
     (\<And>p s'. lab_inv P s' \<Longrightarrow> fwd s s' \<Longrightarrow> ok s' (Some p) \<Longrightarrow> Q (p, s')) \<Longrightarrow>
     valid Q (Some (new_operand t s))"
  using new_operand_ok [of P s t] fwdI by (cases "new_operand t s") auto

lemma new_labelI:
  "lab_inv P s \<Longrightarrow>
     (\<And>p s'. lab_inv (insert p P) s' \<Longrightarrow> fwd s s' \<Longrightarrow> p \<notin> P \<Longrightarrow> valid Q (f p s')) \<Longrightarrow>
     valid Q (case new_operand OPE_LABEL s of (p, s') \<Rightarrow> f p s')"
  using new_operand_ok [of P s OPE_LABEL] fwdI by (cases "new_operand OPE_LABEL s") auto

lemma updateI:
  "lab_inv P s \<Longrightarrow> ok s (Some p) \<Longrightarrow>
     (\<And>x. ope_type x \<noteq> OPE_LABEL \<Longrightarrow> ope_type (f x) \<noteq> OPE_LABEL) \<Longrightarrow>
     (\<And>x. ope_label_ref_cnt (f x) = ope_label_ref_cnt x) \<Longrightarrow>
     (\<And>s'. lab_inv P s' \<Longrightarrow> fwd s s' \<Longrightarrow> Q s') \<Longrightarrow> valid Q (update_ope p f s)"
  unfolding valid_def using update_ope_ok fwdI by (metis (no_types, lifting))

lemma freeI:
  "lab_inv P s \<Longrightarrow> ok s x \<Longrightarrow> (\<And>s'. lab_inv P s' \<Longrightarrow> fwd s s' \<Longrightarrow> Q s') \<Longrightarrow> valid Q (free_operand x s)"
  unfolding valid_def using free_operand_ok fwdI by (metis (no_types, lifting))

lemma free_tempI:
  "lab_inv P s \<Longrightarrow> ok s x \<Longrightarrow> (\<And>s'. lab_inv P s' \<Longrightarrow> fwd s s' \<Longrightarrow> Q s') \<Longrightarrow> valid Q (free_temp x s)"
  unfolding free_temp_def
  by (rule valid_option, simp, rule valid_bind, rule valid_any, rule valid_if)
     (auto intro: freeI)

lemma new_integerI:
  assumes i: "lab_inv P s"
    and k: "\<And>p s'. lab_inv P s' \<Longrightarrow> fwd s s' \<Longrightarrow> ok s' (Some p) \<Longrightarrow> Q (p, s')"
  shows "valid Q (new_integer i s)"
proof -
  show ?thesis
    unfolding new_integer_def Let_def
    by (rule newI [OF i], simp, rule valid_bind, rule updateI, assumption+, simp_all add: k)
qed

lemma replaceI:
  assumes "lab_inv P s" and "ok s (Some l)" and "ok s (Some r)"
    and "\<And>s'. lab_inv P s' \<Longrightarrow> fwd s s' \<Longrightarrow> Q s'"
  shows "valid Q (Some (snd (replace_operand_global (Some l) (Some r) s)))"
proof -
  let ?s = "s\<lparr>instr_buffer := map (redirect l r) (instr_buffer s)\<rparr>"
  have r: "r \<notin> label_opes s" using assms(3) by (simp add: ok_def good_def)
  have red: "ir_type (redirect l r ir) = ir_type ir" for ir
    by (simp add: redirect_def replace_in_instr_def Let_def)
  have keep: "ir_rs (redirect l r ir) = ir_rs ir" if a: "ir \<in> set (instr_buffer s)" "ir_type ir = IR_LABEL \<or> ir_type ir = IR_JMP" for ir
  proof -
    have "instr_ok P s ir" using assms(1) a(1) by (simp add: lab_inv_def)
    then obtain q where "ir_rs ir = Some q" "q \<in> label_opes s"
      using a(2) assms(1) defs_in_labels [OF assms(1)]
      by (auto simp: instr_ok_def can_jump_def jump_target_def is_branch_iff lab_inv_def)
    with r show ?thesis by (auto simp: redirect_def replace_in_instr_def Let_def)
  qed
  have keep': "ir_rd (redirect l r ir) = ir_rd ir" if a: "ir \<in> set (instr_buffer s)" "is_branch ir" for ir
  proof -
    have "instr_ok P s ir" using assms(1) a(1) by (simp add: lab_inv_def)
    then obtain q where "ir_rd ir = Some q" "q \<in> label_opes s"
      using a(2) assms(1) defs_in_labels [OF assms(1)]
      by (auto simp: instr_ok_def can_jump_def jump_target_def lab_inv_def)
    with r show ?thesis by (auto simp: redirect_def replace_in_instr_def Let_def)
  qed
  have d: "defs (map (redirect l r) buf) = defs buf" if "set buf \<subseteq> set (instr_buffer s)" for buf
    using that by (induction buf) (auto simp: defs_def red keep)
  have lo: "label_opes ?s = label_opes s" "next_ope ?s = next_ope s" by (simp_all add: label_opes_def)
  then have o: "ok ?s = ok s" by (simp add: ok_def [abs_def] good_def [abs_def] cong: option.case_cong)
  have j: "jump_target (redirect l r ir) = jump_target ir" "can_jump (redirect l r ir) = can_jump ir"
    if "ir \<in> set (instr_buffer s)" for ir
    using keep [OF that] keep' [OF that] red [of ir] by (auto simp: jump_target_def can_jump_def is_branch_iff)
  have data: "\<forall>x \<in> set (data_operands (redirect l r ir)). ok s x" if "ir \<in> set (instr_buffer s)" for ir
  proof -
    have "\<forall>x \<in> set (data_operands ir). ok s x" using assms(1) that by (simp add: lab_inv_def instr_ok_def)
    then show ?thesis
      using assms(2) red [of ir]
      by (auto simp: data_operands_def is_branch_iff redirect_def replace_in_instr_def Let_def split: if_splits)
  qed
  have "instr_ok P ?s (redirect l r ir)" if "ir \<in> set (instr_buffer s)" for ir
    using assms(1) that red [of ir] keep [OF that] j [OF that] data [OF that] d [of "instr_buffer s"] lo o
    by (simp add: lab_inv_def instr_ok_def)
  then have "lab_inv P ?s" using assms(1) lo o d [of "instr_buffer s"] by (auto simp: lab_inv_def tabs_ok_def)
  moreover have "grows s ?s" using lo d [of "instr_buffer s"] by (simp add: grows_def)
  ultimately show ?thesis using assms(4) [OF _ fwdI] by (simp add: replace_operand_global_eq)
qed

section \<open>The tables\<close>

lemma query_chain_in: "query_chain name chain = Some s \<Longrightarrow> s \<in> set chain"
  by (induction chain) (auto split: if_splits)

lemma query_loop_in:
  "query_loop scs name idx = Some (Some (i, s)) \<Longrightarrow> i < length scs \<and> (\<exists>chain \<in> set (scs ! i). s \<in> set chain)"
proof (induction scs name idx rule: query_loop.induct)
  case (1 scs name idx)
  from "1.prems" have i: "unat idx < length scs" and len: "length scs < 2 ^ 64"
    by (auto simp: query_loop.simps [of scs name idx] split: if_splits)
  with "1.prems" obtain r where r: "query_without_fallback name (scs ! unat idx) = Some r"
    "(case r of Some s \<Rightarrow> Some (Some (unat idx, s)) | None \<Rightarrow> query_loop scs name (idx - 1)) = Some (Some (i, s))"
    by (auto simp: query_loop.simps [of scs name idx] bind_Some_iff)
  show ?case
  proof (cases r)
    case None
    from "1.IH" [OF _ _ r(1) None] i len None r(2) show ?thesis by simp
  next
    case (Some t)
    then have [simp]: "i = unat idx" "t = s" using r(2) by auto
    obtain chain where "array_get (scs ! unat idx) (unat (hash name)) = Some chain" "query_chain name chain = Some s"
      using r(1) Some by (auto simp: query_without_fallback_def bind_Some_iff)
    then show ?thesis using i query_chain_in by (auto simp: nth_mem intro!: bexI [of _ "scs ! unat idx ! unat (hash name)"])
  qed
qed

lemma query_ok:
  assumes "lab_inv P st" and "query name (tr_symtab st) = Some (Some ent)"
  shows "ok st (symbol_address ent)"
proof -
  from assms(2) obtain i where "query_loop (scopes (tr_symtab st)) name (of_nat (scope_cnt (tr_symtab st)) - 1) = Some (Some (i, ent))"
    by (auto simp: query_def query_place_def)
  from query_loop_in [OF this] assms(1) show ?thesis
    unfolding lab_inv_def tabs_ok_def by (metis nth_mem)
qed

lemma update_chain_in: "s \<in> set (update_chain name f chain) \<Longrightarrow> s \<in> set chain \<or> (\<exists>t. s = f t)"
  by (induction chain) (auto split: if_splits)

lemma lab_inv_tables:
  assumes "lab_inv P st"
    and "\<forall>tab \<in> set (scopes s). \<forall>chain \<in> set tab. \<forall>e \<in> set chain. ok st (symbol_address e)"
  shows "lab_inv P (st\<lparr>tr_symtab := s\<rparr>) \<and> grows st (st\<lparr>tr_symtab := s\<rparr>)"
proof -
  let ?st = "st\<lparr>tr_symtab := s\<rparr>"
  have l: "label_opes ?st = label_opes st" by (simp add: label_opes_def)
  then have "ok ?st = ok st" by (simp add: ok_def [abs_def] good_def [abs_def] cong: option.case_cong)
  with assms l show ?thesis by (auto simp: lab_inv_def tabs_ok_def instr_ok_def grows_def)
qed

lemma set_addressI:
  assumes "lab_inv P s" and "ok s (Some p)" and "\<And>s'. lab_inv P s' \<Longrightarrow> fwd s s' \<Longrightarrow> Q s'"
  shows "valid Q (set_address name p s)"
proof (rule valid_any)
  fix s'
  assume "set_address name p s = Some s'"
  then obtain i e where u: "query_place name (tr_symtab s) = Some (Some (i, e))"
    and s': "s' = s\<lparr>tr_symtab := (tr_symtab s)\<lparr>scopes := (scopes (tr_symtab s))[i := (scopes (tr_symtab s) ! i)
      [unat (hash name) := update_chain name (set_symbol_address (Some p)) (scopes (tr_symtab s) ! i ! unat (hash name))]]\<rparr>\<rparr>"
    by (auto simp: set_address_def update_symbol_def bind_Some_iff Let_def)
  let ?tabs = "scopes (tr_symtab s)" and ?k = "unat (hash name)"
  have i: "i < length ?tabs" using query_loop_in u by (fastforce simp: query_place_def)
  have old: "ok s (symbol_address e)" if "tab \<in> set ?tabs" "chain \<in> set tab" "e \<in> set chain" for tab chain e
    using assms(1) that by (auto simp: lab_inv_def tabs_ok_def)
  have new: "ok s (symbol_address e)" if a: "e \<in> set (update_chain name (set_symbol_address (Some p)) (?tabs ! i ! ?k))" "?k < length (?tabs ! i)" for e
  proof -
    consider "e \<in> set (?tabs ! i ! ?k)" | t where "e = set_symbol_address (Some p) t" using update_chain_in [OF a(1)] by blast
    then show ?thesis
    proof cases
      case 1
      then show ?thesis using old i a(2) by (meson nth_mem)
    next
      case 2
      then show ?thesis using assms(2) by (cases t) simp
    qed
  qed
  have "ok s (symbol_address e)" if a: "tab \<in> set (?tabs[i := (?tabs ! i)[?k := update_chain name (set_symbol_address (Some p)) (?tabs ! i ! ?k)]])"
    "chain \<in> set tab" "e \<in> set chain" for tab chain e
  proof -
    from a(1) consider "tab \<in> set ?tabs" | "tab = (?tabs ! i)[?k := update_chain name (set_symbol_address (Some p)) (?tabs ! i ! ?k)]"
      using set_update_subset_insert by fast
    then show ?thesis
    proof cases
      case 1
      then show ?thesis using old a by blast
    next
      case 2
      show ?thesis
      proof (cases "?k < length (?tabs ! i)")
        case True
        with 2 a(2) have "chain \<in> set (?tabs ! i) \<or> chain = update_chain name (set_symbol_address (Some p)) (?tabs ! i ! ?k)"
          using set_update_subset_insert by fast
        with True a(3) new old i show ?thesis by (meson nth_mem)
      next
        case False
        with 2 a old i show ?thesis by (metis list_update_beyond not_less nth_mem)
      qed
    qed
  qed
  then have "lab_inv P s' \<and> grows s s'" unfolding s' by (intro lab_inv_tables [OF assms(1)]) simp
  then show "Q s'" using assms(3) [OF _ fwdI] by blast
qed

definition clean_tab :: "symtab \<Rightarrow> bool" where
  "clean_tab tab \<longleftrightarrow> (\<forall>chain \<in> set tab. \<forall>s \<in> set chain. symbol_address s = None)"

lemma enter_scopeI:
  assumes "lab_inv P s" and "\<And>tab. sema_symtab (nd_sema nd) = Some tab \<Longrightarrow> clean_tab tab"
    and "\<And>s'. lab_inv P s' \<Longrightarrow> fwd s s' \<Longrightarrow> Q s'"
  shows "valid Q (enter_scope nd s)"
proof (rule valid_any)
  fix s'
  assume "enter_scope nd s = Some s'"
  then obtain tab t where t: "sema_symtab (nd_sema nd) = Some tab" "push_symtab tab (tr_symtab s) = Some t" "s' = s\<lparr>tr_symtab := t\<rparr>"
    by (auto simp: enter_scope_def bind_Some_iff)
  then have "scopes t = scopes (tr_symtab s) @ [tab]" by (auto simp: push_symtab_def Let_def split: if_splits)
  moreover have "clean_tab tab" using assms(2) t(1) .
  ultimately have "lab_inv P s' \<and> grows s s'" unfolding t(3)
    using assms(1) by (intro lab_inv_tables [OF assms(1)]) (auto simp: lab_inv_def tabs_ok_def clean_tab_def)
  then show "Q s'" using assms(3) [OF _ fwdI] by blast
qed

lemma leave_scopeI:
  assumes "lab_inv P s" and "\<And>s'. lab_inv P s' \<Longrightarrow> fwd s s' \<Longrightarrow> Q s'"
  shows "valid Q (leave_scope depth s)"
proof (rule valid_any)
  fix s'
  assume "leave_scope depth s = Some s'"
  then have t: "s' = s\<lparr>tr_symtab := snd (pop_symtab (tr_symtab s))\<rparr>"
    by (auto simp: leave_scope_def bind_Some_iff Let_def)
  have "lab_inv P s' \<and> grows s s'" unfolding t
    using assms(1) by (intro lab_inv_tables [OF assms(1)]) (auto simp: lab_inv_def tabs_ok_def pop_symtab_def dest: in_set_butlastD)
  then show "Q s'" using assms(2) [OF _ fwdI] by blast
qed

lemma queryI:
  "lab_inv P s \<Longrightarrow> Q None \<Longrightarrow> (\<And>ent. ok s (symbol_address ent) \<Longrightarrow> Q (Some ent)) \<Longrightarrow> valid Q (query name (tr_symtab s))"
  unfolding valid_def using query_ok by (metis option.exhaust)

section \<open>Attributes\<close>

lemma attrs [simp]:
  "nd_dst (set_dst x nd) = x" "nd_base (set_dst x nd) = nd_base nd"
  "nd_dst (set_base x nd) = nd_dst nd" "nd_base (set_base x nd) = x"
  "nd_dst (set_labels t f nd) = nd_dst nd" "nd_base (set_labels t f nd) = nd_base nd"
  "nd_label_true (set_dst x nd) = nd_label_true nd" "nd_label_false (set_dst x nd) = nd_label_false nd"
  "nd_label_true (set_base x nd) = nd_label_true nd" "nd_label_false (set_base x nd) = nd_label_false nd"
  "nd_label_true (set_labels t f nd) = t" "nd_label_false (set_labels t f nd) = f"
  "nd_dst (set_child cs nd) = nd_dst nd" "nd_base (set_child cs nd) = nd_base nd"
  "nd_label_true (set_child cs nd) = nd_label_true nd" "nd_label_false (set_child cs nd) = nd_label_false nd"
  "nd_dst (put_child k c nd) = nd_dst nd" "nd_base (put_child k c nd) = nd_base nd"
  "nd_label_true (put_child k c nd) = nd_label_true nd" "nd_label_false (put_child k c nd) = nd_label_false nd"
  by (cases nd; simp add: nd_dst_def nd_base_def nd_label_true_def nd_label_false_def put_child_def)+

text \<open>
  A tree before its translation: no operands in its attributes and its tables, and the body of a
  \<open>for\<close> is no logical expression.
\<close>

fun clean :: "Node \<Rightarrow> bool" where
  "clean (Node t l v s a cs) \<longleftrightarrow>
     at_dst a = None \<and> at_base a = None \<and> (\<forall>tab. sema_symtab s = Some tab \<longrightarrow> clean_tab tab) \<and>
     (\<forall>c \<in> set cs. clean c) \<and> (t = STMT_is_FOR \<longrightarrow> (\<forall>c \<in> set (drop 3 cs). \<not> is_logic (nd_tag c)))"

definition clean_below :: "Node \<Rightarrow> bool" where
  "clean_below nd \<longleftrightarrow>
     (\<forall>tab. sema_symtab (nd_sema nd) = Some tab \<longrightarrow> clean_tab tab) \<and> (\<forall>c \<in> set (nd_child nd). clean c) \<and>
     (nd_tag nd = STMT_is_FOR \<longrightarrow> (\<forall>c \<in> set (drop 3 (nd_child nd)). \<not> is_logic (nd_tag c)))"

lemma clean_iff: "clean nd \<longleftrightarrow> nd_dst nd = None \<and> nd_base nd = None \<and> clean_below nd"
  by (cases nd) (auto simp: nd_dst_def nd_base_def clean_below_def)

lemma clean_below_upd [simp]: "clean_below (upd_trans h nd) = clean_below nd"
  by (cases nd) (simp add: clean_below_def)

lemma clean_child: "clean_below nd \<Longrightarrow> child k nd = Some c \<Longrightarrow> clean c"
  by (auto simp: clean_below_def child_def)

section \<open>Recursive calls\<close>

definition pending :: "nat set \<Rightarrow> nat option \<Rightarrow> bool" where
  "pending P x \<longleftrightarrow> (\<exists>l. x = Some l \<and> l \<in> P)"

lemma pending_Some [simp]: "pending P (Some l) \<longleftrightarrow> l \<in> P"
  by (simp add: pending_def)

lemma pending_insert [simp]: "pending P x \<Longrightarrow> pending (insert l P) x"
  by (auto simp: pending_def)

definition pre :: "nat set \<Rightarrow> trans_state \<Rightarrow> mode \<Rightarrow> Node \<Rightarrow> bool" where
  "pre P s m nd \<longleftrightarrow> ok s (nd_dst nd) \<and> ok s (nd_base nd) \<and> clean_below nd \<and>
     (m = Cond \<longrightarrow> pending P (nd_label_true nd) \<and> pending P (nd_label_false nd))"

definition post :: "mode \<Rightarrow> Node \<Rightarrow> trans_state \<Rightarrow> Node \<Rightarrow> bool" where
  "post m nd s' nd' \<longleftrightarrow> ok s' (nd_dst nd') \<and> ok s' (nd_base nd') \<and>
     (m = Cond \<or> \<not> is_logic (nd_tag nd) \<longrightarrow>
        nd_label_true nd' = nd_label_true nd \<and> nd_label_false nd' = nd_label_false nd)"

definition visiting :: "trans_call \<Rightarrow> (mode \<times> Node) set \<Rightarrow> bool" where
  "visiting visit A \<longleftrightarrow>
     (\<forall>(m, nd) \<in> A. \<forall>P s nd' s'. lab_inv P s \<longrightarrow> pre P s m nd \<longrightarrow> visit m nd s = Some (nd', s') \<longrightarrow>
        lab_inv P s' \<and> grows s s' \<and> post m nd s' nd')"

lemma visiting_valid:
  assumes "visiting visit A" and "(m, nd) \<in> A" and "lab_inv P s" and "pre P s m nd"
    and "\<And>nd' s'. lab_inv P s' \<Longrightarrow> fwd s s' \<Longrightarrow> post m nd s' nd' \<Longrightarrow> Q (nd', s')"
  shows "valid Q (visit m nd s)"
proof (rule valid_any)
  fix r
  assume r: "visit m nd s = Some r"
  obtain nd' s' where [simp]: "r = (nd', s')" by fastforce
  from assms(1-4) r have "lab_inv P s'" "grows s s'" "post m nd s' nd'"
    unfolding visiting_def by fastforce+
  with assms(5) [OF _ fwdI] show "Q r" by simp
qed

definition lower :: "mode \<Rightarrow> Node \<Rightarrow> (mode \<times> Node) set" where
  "lower m nd = {(m', c). rank m' c < rank m nd}"

definition tree_in :: "(mode \<times> Node) set \<Rightarrow> Node \<Rightarrow> bool" where
  "tree_in A c \<longleftrightarrow> (\<forall>m h. (m, upd_trans h c) \<in> A) \<and> (\<forall>m. (m, c) \<in> A)"

lemma lower_child: "child k nd = Some c \<Longrightarrow> tree_in (lower m nd) c"
  by (auto simp: tree_in_def lower_def intro!: rank_child dest: size_child)

lemma lower_in_child: "c \<in> set (nd_child nd) \<Longrightarrow> tree_in (lower m nd) c"
  by (auto simp: tree_in_def lower_def intro!: rank_child dest: size_in_child)

text \<open>Rules for the recursive calls a visitor makes.\<close>

lemma condI:
  assumes "visiting visit A" and "tree_in A c" and "lab_inv P s" and "clean c" and "pending P t" and "pending P f"
    and "\<And>nd' s'. lab_inv P s' \<Longrightarrow> fwd s s' \<Longrightarrow> ok s' (nd_dst nd') \<Longrightarrow> ok s' (nd_base nd') \<Longrightarrow>
      nd_label_true nd' = t \<Longrightarrow> nd_label_false nd' = f \<Longrightarrow> Q (nd', s')"
  shows "valid Q (visit Cond (set_labels t f c) s)"
  by (rule visiting_valid [OF assms(1)])
     (use assms in \<open>auto simp: tree_in_def pre_def post_def clean_iff\<close>)

lemma dispatchI:
  assumes "visiting visit A" and "tree_in A c" and "lab_inv P s" and "clean c"
    and "\<And>nd' s'. lab_inv P s' \<Longrightarrow> fwd s s' \<Longrightarrow> ok s' (nd_dst nd') \<Longrightarrow> ok s' (nd_base nd') \<Longrightarrow> Q (nd', s')"
  shows "valid Q (visit Dispatch c s)"
  by (rule visiting_valid [OF assms(1)])
     (use assms in \<open>auto simp: tree_in_def pre_def post_def clean_iff\<close>)

lemma dispatch_dstI:
  assumes "visiting visit A" and "tree_in A c" and "lab_inv P s" and "clean c" and "ok s x"
    and "\<And>nd' s'. lab_inv P s' \<Longrightarrow> fwd s s' \<Longrightarrow> ok s' (nd_dst nd') \<Longrightarrow> ok s' (nd_base nd') \<Longrightarrow> Q (nd', s')"
  shows "valid Q (visit Dispatch (set_dst x c) s)"
  by (rule visiting_valid [OF assms(1)])
     (use assms in \<open>auto simp: tree_in_def pre_def post_def clean_iff\<close>)

lemma dispatch_labelsI:
  assumes "visiting visit A" and "tree_in A c" and "lab_inv P s" and "clean c" and "\<not> is_logic (nd_tag c)"
    and "\<And>nd' s'. lab_inv P s' \<Longrightarrow> fwd s s' \<Longrightarrow> ok s' (nd_dst nd') \<Longrightarrow> ok s' (nd_base nd') \<Longrightarrow>
      nd_label_true nd' = t \<Longrightarrow> nd_label_false nd' = f \<Longrightarrow> Q (nd', s')"
  shows "valid Q (visit Dispatch (set_labels t f c) s)"
  by (rule visiting_valid [OF assms(1)])
     (use assms in \<open>auto simp: tree_in_def pre_def post_def clean_iff\<close>)

lemma visit_valueI:
  assumes "visiting visit A" and "tree_in A c" and "lab_inv P s" and "clean c"
    and "\<And>nd' s'. lab_inv P s' \<Longrightarrow> fwd s s' \<Longrightarrow> ok s' (nd_dst nd') \<Longrightarrow> ok s' (nd_base nd') \<Longrightarrow> Q (nd', s')"
  shows "valid Q (visit_value visit c s)"
  unfolding visit_value_def
  by (rule newI [OF assms(3)], simp, rule dispatch_dstI [OF assms(1,2)], assumption, rule assms(4), assumption, rule assms(5)) simp_all

lemma childI:
  "clean_below nd \<Longrightarrow> (\<And>c. child k nd = Some c \<Longrightarrow> clean c \<Longrightarrow> tree_in (lower m nd) c \<Longrightarrow> Q c) \<Longrightarrow> valid Q (child k nd)"
  unfolding valid_def using clean_child lower_child by blast

lemma dispatch_childI:
  assumes "visiting visit (lower m nd)" and "child k nd0 = child k nd" and "clean_below nd" and "lab_inv P s"
    and "\<And>nd' s'. lab_inv P s' \<Longrightarrow> fwd s s' \<Longrightarrow> nd_dst nd' = nd_dst nd0 \<Longrightarrow> nd_base nd' = nd_base nd0 \<Longrightarrow>
      nd_label_true nd' = nd_label_true nd0 \<Longrightarrow> nd_label_false nd' = nd_label_false nd0 \<Longrightarrow>
      (\<forall>j. j \<noteq> k \<longrightarrow> child j nd' = child j nd0) \<Longrightarrow> Q (nd', s')"
  shows "valid Q (dispatch_child visit k nd0 s)"
proof (cases "child k nd")
  case None
  with assms(2) assms(5) [of s nd0] assms(4) show ?thesis by (simp add: dispatch_child_def)
next
  case (Some c)
  with assms(2) show ?thesis
    unfolding dispatch_child_def
    by simp (rule valid_bind, rule dispatchI [OF assms(1) lower_child [OF Some] assms(4) clean_child [OF assms(3) Some]],
      auto simp: child_put_child intro!: assms(5))
qed

lemma dispatch_allI:
  assumes "visiting visit A" and "\<forall>c \<in> set cs. clean c \<and> tree_in A c" and "lab_inv P s"
    and "\<And>cs' s'. lab_inv P s' \<Longrightarrow> fwd s s' \<Longrightarrow> Q (cs', s')"
  shows "valid Q (visit_all (visit Dispatch) cs s)"
  using assms(2-4)
proof (induction cs arbitrary: s Q)
  case (Cons c cs)
  show ?case
    unfolding visit_all.simps
    by (rule valid_bind, rule dispatchI [OF assms(1)]; (simp only: prod.case)?; (rule valid_bind, rule Cons.IH)?)
       (use Cons.prems in \<open>auto\<close>)
qed simp

lemma dstI: "ok s (nd_dst nd) \<Longrightarrow> (\<And>p. nd_dst nd = Some p \<Longrightarrow> ok s (Some p) \<Longrightarrow> Q p) \<Longrightarrow> valid Q (nd_dst nd)"
  by (auto simp: valid_def)

lemma valid_pair: "valid Q (f a b) \<Longrightarrow> valid Q (case (a, b) of (x, y) \<Rightarrow> f x y)"
  by simp

lemmas lab_rules = valid_pair gen_jmpI gen_labelI gen_bneI gen_relopI gen_dataI new_labelI newI new_pairI updateI freeI free_tempI new_integerI
  replaceI set_addressI enter_scopeI leave_scopeI queryI dstI valid_rules

lemma data_types [simp]:
  "data_type IR_DEREF_R" "data_type IR_DEREF_L" "data_type IR_ADDR" "data_type IR_ASSIGN" "data_type IR_MUL" "data_type IR_ADD"
  "data_type IR_SUB" "data_type IR_ARG" "data_type IR_READ" "data_type IR_WRITE" "data_type IR_CALL" "data_type IR_RET"
  "data_type IR_FUNC" "data_type IR_PARAM" "data_type IR_DEC" "data_type IR_DIV"
  by (simp_all add: data_type_def)

lemma try_derefI:
  assumes "lab_inv P s" and "ok s (nd_dst nd)" and "ok s (nd_base nd)"
    and k: "\<And>nd' s'. lab_inv P s' \<Longrightarrow> fwd s s' \<Longrightarrow> ok s' (nd_dst nd') \<Longrightarrow> ok s' (nd_base nd') \<Longrightarrow>
      nd_label_true nd' = nd_label_true nd \<Longrightarrow> nd_label_false nd' = nd_label_false nd \<Longrightarrow> Q (nd', s')"
  shows "valid Q (try_deref nd s)"
  unfolding try_deref_def Let_def
  by (insert assms(1-3), (rule lab_rules valid_any k | assumption | (simp; fail))+)

lemma scale_indexI:
  assumes "lab_inv P s" and "ok s (Some off)"
    and k: "\<And>p s'. lab_inv P s' \<Longrightarrow> fwd s s' \<Longrightarrow> ok s' (Some p) \<Longrightarrow> Q (p, s')"
  shows "valid Q (scale_index off sz s)"
  unfolding scale_index_def Let_def
  by (insert assms(1,2), (rule lab_rules new_integerI valid_any k | assumption | (simp; fail))+)

lemma add_offsetI:
  assumes "lab_inv P s" and "ok s (Some addr)" and "ok s (Some off)"
    and k: "\<And>p s'. lab_inv P s' \<Longrightarrow> fwd s s' \<Longrightarrow> ok s' (Some p) \<Longrightarrow> Q (p, s')"
  shows "valid Q (add_offset addr off s)"
  unfolding add_offset_def Let_def
  by (insert assms(1-3), (rule lab_rules new_integerI valid_any k | assumption | (simp; fail))+)

lemma store_boolI:
  assumes "lab_inv P s" and "ok s x" and k: "\<And>s'. lab_inv P s' \<Longrightarrow> fwd s s' \<Longrightarrow> Q s'"
  shows "valid Q (store_bool i x s)"
  unfolding store_bool_def
  by (insert assms(1,2), (rule lab_rules new_integerI valid_any k | assumption | (simp; fail))+)

lemma pass_valueI:
  assumes "lab_inv P s" and "ok s (nd_dst nd)" and "ok s (nd_base nd)"
    and k: "\<And>nd' s'. lab_inv P s' \<Longrightarrow> fwd s s' \<Longrightarrow> Q (nd', s')"
  shows "valid Q (pass_value nd s)"
  unfolding pass_value_def Let_def
  by (insert assms(1-3), (rule lab_rules try_derefI valid_any k | assumption | (simp; fail))+)

section \<open>The visitors\<close>

abbreviation goal :: "nat set \<Rightarrow> trans_state \<Rightarrow> mode \<Rightarrow> Node \<Rightarrow> Node \<times> trans_state \<Rightarrow> bool" where
  "goal P s m nd \<equiv> \<lambda>(nd', s'). lab_inv P s' \<and> grows s s' \<and> post m nd s' nd'"

lemma expression_visitors:
  assumes V: "visiting visit (lower Dispatch nd)" and I: "lab_inv P s"
    and a: "ok s (nd_dst nd)" "ok s (nd_base nd)" and c: "clean_below nd"
  shows "valid (goal P s Dispatch nd) (translate_exp_is_id visit nd s)"
    "valid (goal P s Dispatch nd) (translate_exp_is_const visit nd s)"
    "valid (goal P s Dispatch nd) (translate_exp_is_assign visit nd s)"
    "valid (goal P s Dispatch nd) (translate_exp_is_exp visit nd s)"
    "valid (goal P s Dispatch nd) (translate_unary_operation visit nd s)"
    "valid (goal P s Dispatch nd) (translate_exp_is_exp_field visit nd s)"
    "valid (goal P s Dispatch nd) (translate_return visit nd s)"
  unfolding translate_exp_is_id_def translate_exp_is_const_def translate_exp_is_assign_def translate_exp_is_exp_def
    translate_unary_operation_def translate_exp_is_exp_field_def translate_return_def Let_def
  by (insert I a c, (rule lab_rules childI [where m = Dispatch] visit_valueI [OF V] dispatch_dstI [OF V] try_derefI valid_any
    | assumption | (simp (no_asm_simp) add: post_def; fail) | (simp add: post_def; fail))+)

lemma binary_ir_data: "binary_ir op = Some ty \<Longrightarrow> data_type ty"
  by (auto simp: binary_ir_def split: if_splits)

lemma index_visitors:
  assumes V: "visiting visit (lower Dispatch nd)" and I: "lab_inv P s"
    and a: "ok s (nd_dst nd)" "ok s (nd_base nd)" and c: "clean_below nd"
  shows "valid (goal P s Dispatch nd) (translate_exp_is_exp_idx visit nd s)"
    "valid (goal P s Dispatch nd) (translate_binary_operation visit nd s)"
  unfolding translate_exp_is_exp_idx_def translate_binary_operation_def Let_def
  by (insert I a c, (rule lab_rules childI [where m = Dispatch] visit_valueI [OF V] try_derefI scale_indexI add_offsetI valid_any
    | assumption | erule binary_ir_data | (simp (no_asm_simp) add: post_def; fail) | (simp add: post_def; fail))+)

lemma pass_argI:
  assumes V: "visiting visit A" and "\<forall>c \<in> set es. clean c \<and> tree_in A c" and "lab_inv P s"
    and "\<And>es' s'. lab_inv P s' \<Longrightarrow> fwd s s' \<Longrightarrow> Q (es', s')"
  shows "valid Q (pass_arg visit es s)"
  using assms(2-4)
proof (induction es arbitrary: s Q)
  case (Cons c cs)
  have c: "clean c" "tree_in A c" "\<forall>c \<in> set cs. clean c \<and> tree_in A c" using Cons.prems(1) by simp_all
  show ?case
    unfolding pass_arg.simps
    by (insert Cons.prems(2), (rule lab_rules visit_valueI [OF V c(2) _ c(1)] Cons.IH [OF c(3)] pass_valueI Cons.prems(3)
      | assumption | (simp (no_asm_simp); fail))+)
qed simp

lemma children_clean:
  assumes "clean_below nd"
  shows "\<forall>c \<in> set (tl (nd_child nd)). clean c \<and> tree_in (lower m nd) c" "\<forall>c \<in> set (nd_child nd). clean c \<and> tree_in (lower m nd) c"
  using assms lower_in_child by (cases "nd_child nd"; auto simp: clean_below_def)+

lemma call_visitor:
  assumes V: "visiting visit (lower Dispatch nd)" and I: "lab_inv P s"
    and a: "ok s (nd_dst nd)" "ok s (nd_base nd)" and c: "clean_below nd"
  shows "valid (goal P s Dispatch nd) (translate_call visit nd s)"
proof -
  have ch: "child 1 (set_dst x nd) = child 1 nd" "nd_child (set_dst x nd) = nd_child nd" for x by simp_all
  show ?thesis
    unfolding translate_call_def Let_def ch
    apply (cases "nd_dst nd"; simp only: option.case)
    by (insert I a c, (rule lab_rules childI [where m = Dispatch] visit_valueI [OF V] try_derefI pass_argI [OF V] valid_any
      | assumption | (simp (no_asm_simp) add: post_def children_clean; fail) | (simp add: post_def children_clean; fail))+)
qed

lemma cond_visitors_ok:
  assumes V: "visiting visit (lower Cond nd)" and I: "lab_inv P s"
    and a: "ok s (nd_dst nd)" "ok s (nd_base nd)" and c: "clean_below nd"
    and l: "pending P (nd_label_true nd)" "pending P (nd_label_false nd)"
  shows "valid (goal P s Cond nd) (translate_cond_not visit nd s)"
    "valid (goal P s Cond nd) (translate_cond_relop visit nd s)"
    "valid (goal P s Cond nd) (translate_cond_and visit nd s)"
    "valid (goal P s Cond nd) (translate_cond_or visit nd s)"
proof -
  obtain t f where t: "nd_label_true nd = Some t" "t \<in> P" and f: "nd_label_false nd = Some f" "f \<in> P"
    using l by (auto simp: pending_def)
  note [simp] = t f
  show "valid (goal P s Cond nd) (translate_cond_not visit nd s)"
    "valid (goal P s Cond nd) (translate_cond_relop visit nd s)"
    unfolding translate_cond_not_def translate_cond_relop_def Let_def
    by (insert I a c, (rule lab_rules childI [where m = Cond] dispatch_dstI [OF V] condI [OF V] try_derefI valid_any
      | assumption | (simp (no_asm_simp) add: post_def; fail))+)
  show "valid (goal P s Cond nd) (translate_cond_and visit nd s)"
    "valid (goal P s Cond nd) (translate_cond_or visit nd s)"
    unfolding translate_cond_and_def translate_cond_or_def Let_def
    by (insert I a c, (rule lab_rules childI [where m = Cond] condI [OF V] valid_any
      | assumption | (simp (no_asm_simp) add: post_def; fail))+)
qed

lemma cond_exp_ok:
  assumes V: "visiting visit (lower Cond nd)" and I: "lab_inv P s" and n: "\<not> is_logic (nd_tag nd)"
    and a: "ok s (nd_base nd)" and c: "clean_below nd"
    and l: "pending P (nd_label_true nd)" "pending P (nd_label_false nd)"
  shows "valid (goal P s Cond nd) (translate_cond_exp visit nd s)"
proof -
  obtain t f where t: "nd_label_true nd = Some t" "t \<in> P" and f: "nd_label_false nd = Some f" "f \<in> P"
    using l by (auto simp: pending_def)
  have self: "(Dispatch, set_dst x nd) \<in> lower Cond nd" for x using n by (simp add: lower_def rank_def)
  show ?thesis
    unfolding translate_cond_exp_def visit_value_def
    by (insert I a c t f n, (rule lab_rules visiting_valid [OF V self] valid_any
      | assumption | (simp (no_asm_simp) add: pre_def; fail) | (simp add: post_def; fail))+)
qed

lemma prepare_visitor:
  assumes V: "visiting visit (lower Dispatch nd)" and I: "lab_inv P s" and n: "is_logic (nd_tag nd)"
    and a: "ok s (nd_dst nd)" "ok s (nd_base nd)" and c: "clean_below nd"
  shows "valid (goal P s Dispatch nd) (translate_cond_prepare visit nd s)"
proof -
  have self: "(Cond, upd_trans h nd) \<in> lower Dispatch nd" "(Cond, upd_trans h (upd_trans h' nd)) \<in> lower Dispatch nd" for h h'
    using n by (simp_all add: lower_def rank_def)
  show ?thesis
    unfolding translate_cond_prepare_def Let_def
    by (insert I a c n, (rule lab_rules store_boolI visiting_valid [OF V self(1)] visiting_valid [OF V self(2)] valid_any
      | assumption | (simp (no_asm_simp) add: pre_def; fail) | (simp add: post_def insert_Diff_if; fail))+)
qed

lemma branch_visitors:
  assumes V: "visiting visit (lower Dispatch nd)" and I: "lab_inv P s"
    and a: "ok s (nd_dst nd)" "ok s (nd_base nd)" and c: "clean_below nd"
  shows "valid (goal P s Dispatch nd) (translate_if visit nd s)"
    "valid (goal P s Dispatch nd) (translate_if_else visit nd s)"
  unfolding translate_if_def translate_if_else_def Let_def
  by (insert I a c, (rule lab_rules childI [where m = Dispatch] condI [OF V] dispatch_childI [OF V] valid_any
    | assumption | (simp (no_asm_simp) add: post_def child_put_child; fail) | (simp add: post_def child_put_child insert_Diff_if; fail))+)

lemma loop_visitors:
  assumes V: "visiting visit (lower Dispatch nd)" and I: "lab_inv P s"
    and a: "ok s (nd_dst nd)" "ok s (nd_base nd)" and c: "clean_below nd"
  shows "valid (goal P s Dispatch nd) (translate_while visit nd s)"
  unfolding translate_while_def Let_def
  by (insert I a c, (rule lab_rules childI [where m = Dispatch] condI [OF V] dispatch_childI [OF V] valid_any
    | assumption | (simp (no_asm_simp) add: post_def child_put_child; fail) | (simp add: post_def child_put_child insert_Diff_if; fail))+)

lemma for_body:
  assumes "clean_below nd" and "nd_tag nd = STMT_is_FOR" and "child 3 nd = Some b"
  shows "\<not> is_logic (nd_tag b)"
proof -
  have "3 < length (nd_child nd)" "b = nd_child nd ! 3" using assms(3) by (auto simp: child_def split: if_splits)
  then have "b \<in> set (drop 3 (nd_child nd))" by (metis Cons_nth_drop_Suc list.set_intros(1))
  with assms show ?thesis by (simp add: clean_below_def)
qed

lemma for_visitor:
  assumes V: "visiting visit (lower Dispatch nd)" and I: "lab_inv P s"
    and a: "ok s (nd_dst nd)" "ok s (nd_base nd)" and c: "clean_below nd" and t: "nd_tag nd = STMT_is_FOR"
  shows "valid (goal P s Dispatch nd) (translate_for visit nd s)"
proof -
  note body = for_body [OF c t]
  show ?thesis
    unfolding translate_for_def Let_def
    by (insert I a c t, (rule lab_rules childI [where m = Dispatch] condI [OF V] dispatch_labelsI [OF V _ _ _ body] dispatchI [OF V] valid_any
      | assumption | (simp (no_asm_simp) add: post_def is_logic_def; fail) | (simp add: post_def is_logic_def insert_Diff_if; fail))+)
qed

lemma block_visitors:
  assumes V: "visiting visit (lower Dispatch nd)" and I: "lab_inv P s"
    and a: "ok s (nd_dst nd)" "ok s (nd_base nd)" and c: "clean_below nd"
  shows "valid (goal P s Dispatch nd) (translate_compst visit nd s)"
    "valid (goal P s Dispatch nd) (translate_ast visit nd s)"
    "valid (goal P s Dispatch nd) (translate_def_is_spec_dec visit nd s)"
    "valid (goal P s Dispatch nd) (translate_stmt_is_compst visit nd s)"
    "valid (goal P s Dispatch nd) (translate_stmt_is_exp visit nd s)"
    "valid (goal P s Dispatch nd) (translate_extdef_spec visit nd s)"
    "valid (goal P s Dispatch nd) (translate_extdef_func visit nd s)"
  unfolding translate_compst_def translate_ast_def translate_def_is_spec_dec_def translate_stmt_is_compst_def translate_stmt_is_exp_def
    translate_extdef_spec_def translate_extdef_func_def Let_def
  by (insert I a c, (rule lab_rules dispatch_allI [OF V] dispatch_childI [OF V] valid_any
    | assumption | (simp (no_asm_simp) add: post_def children_clean; fail) | (simp add: post_def clean_below_def; fail))+)

lemma default_visitor:
  assumes "lab_inv P s" and "ok s (nd_dst nd)" "ok s (nd_base nd)"
  shows "valid (goal P s Dispatch nd) (trans_default nd s)"
proof -
  let ?s = "s\<lparr>translate_state := UNSUPPORT\<rparr>"
  have l: "label_opes ?s = label_opes s" by (simp add: label_opes_def)
  then have "ok ?s = ok s" by (simp add: ok_def [abs_def] good_def [abs_def] cong: option.case_cong)
  with assms l show ?thesis by (auto simp: trans_default_def lab_inv_def tabs_ok_def instr_ok_def grows_def post_def)
qed

lemma the_symbolI:
  "lab_inv P s \<Longrightarrow> (\<And>ent. ok s (symbol_address ent) \<Longrightarrow> Q ent) \<Longrightarrow> valid Q (the_symbol name s)"
  unfolding the_symbol_def
  by (rule valid_bind, rule queryI) auto

lemma translate_paramI:
  assumes "lab_inv P s" and "\<And>s'. lab_inv P s' \<Longrightarrow> fwd s s' \<Longrightarrow> Q s'"
  shows "valid Q (translate_param param s)"
  unfolding translate_param_def Let_def
  by (insert assms(1), (rule lab_rules the_symbolI assms(2) valid_any | assumption | (simp (no_asm_simp); fail))+)

lemma translate_paramsI:
  assumes "lab_inv P s" and "\<And>s'. lab_inv P s' \<Longrightarrow> fwd s s' \<Longrightarrow> Q s'"
  shows "valid Q (translate_params ps s)"
  using assms
  by (induction ps arbitrary: s) (auto intro!: valid_bind translate_paramI)

lemma func_head_visitor:
  assumes V: "visiting visit (lower Dispatch nd)" and I: "lab_inv P s"
    and a: "ok s (nd_dst nd)" "ok s (nd_base nd)" and c: "clean_below nd"
  shows "valid (goal P s Dispatch nd) (translate_func_head visit nd s)"
  unfolding translate_func_head_def Let_def
  by (insert I a c, (rule lab_rules translate_paramsI valid_any | assumption | (simp (no_asm_simp) add: post_def; fail))+)

lemma dec_visitor:
  assumes V: "visiting visit (lower Dispatch nd)" and I: "lab_inv P s"
    and a: "ok s (nd_dst nd)" "ok s (nd_base nd)" and c: "clean_below nd"
  shows "valid (goal P s Dispatch nd) (translate_dec_is_vardec visit nd s)"
proof (cases "child 1 nd")
  case None
  show ?thesis
    unfolding translate_dec_is_vardec_def Let_def None option.case
    by (insert I a c, (rule lab_rules the_symbolI valid_any | assumption | (simp (no_asm_simp) add: post_def; fail))+)
next
  case (Some i)
  show ?thesis
    unfolding translate_dec_is_vardec_def Let_def Some option.case
    by (insert I a c, (rule lab_rules the_symbolI visit_valueI [OF V lower_child [OF Some] _ clean_child [OF c Some]] try_derefI valid_any
      | assumption | (simp (no_asm_simp) add: post_def; fail))+)
qed

lemma trans_visitors_ok:
  assumes V: "visiting visit (lower Dispatch nd)" and I: "lab_inv P s" and p: "pre P s Dispatch nd"
  shows "valid (goal P s Dispatch nd) (trans_visitors (nd_tag nd) visit nd s)"
proof -
  have a: "ok s (nd_dst nd)" "ok s (nd_base nd)" "clean_below nd" using p by (simp_all add: pre_def)
  note facts = expression_visitors [OF V I a] index_visitors [OF V I a] call_visitor [OF V I a] branch_visitors [OF V I a]
    loop_visitors [OF V I a] block_visitors [OF V I a] func_head_visitor [OF V I a] dec_visitor [OF V I a]
    default_visitor [OF I a(1,2)]
  have "valid (goal P s Dispatch nd) (translate_for visit nd s)" if "nd_tag nd = STMT_is_FOR"
    using for_visitor [OF V I a that] .
  moreover have "valid (goal P s Dispatch nd) (translate_cond_prepare visit nd s)" if "is_logic (nd_tag nd)"
    using prepare_visitor [OF V I that a] .
  ultimately show ?thesis
    using facts unfolding is_logic_def by (cases "nd_tag nd") (simp_all only: trans_visitors.simps simp_thms)
qed

lemma cond_visitors_all:
  assumes V: "visiting visit (lower Cond nd)" and I: "lab_inv P s" and p: "pre P s Cond nd"
  shows "valid (goal P s Cond nd) (cond_visitors (nd_tag nd) visit nd s)"
proof -
  have a: "ok s (nd_dst nd)" "ok s (nd_base nd)" "clean_below nd" "pending P (nd_label_true nd)" "pending P (nd_label_false nd)"
    using p by (simp_all add: pre_def)
  have "valid (goal P s Cond nd) (translate_cond_exp visit nd s)" if "\<not> is_logic (nd_tag nd)"
    using cond_exp_ok [OF V I that a(2-)] .
  then show ?thesis
    using cond_visitors_ok [OF V I a] unfolding is_logic_def by (cases "nd_tag nd") (simp_all only: cond_visitors.simps simp_thms ProductionTag.distinct)
qed

lemma visiting_mono: "visiting visit A \<Longrightarrow> B \<subseteq> A \<Longrightarrow> visiting visit B"
  unfolding visiting_def by blast

lemma translate_visiting: "visiting translate_visit {(m, nd). rank m nd < n}"
proof (induction n)
  case (Suc n)
  have "lab_inv P s' \<and> grows s s' \<and> post m nd s' nd'"
    if r: "rank m nd < Suc n" and I: "lab_inv P s" and p: "pre P s m nd" and run: "translate_visit m nd s = Some (nd', s')" for m nd P s nd' s'
  proof -
    have V: "visiting translate_visit (lower m nd)" 
      by (rule visiting_mono [OF Suc.IH]) (use r in \<open>auto simp: lower_def\<close>)
    have "valid (goal P s m nd) (translate_visit m nd s)"
      using trans_visitors_ok [of translate_visit nd P s] cond_visitors_all [of translate_visit nd P s] V I p
      by (cases m) (simp_all add: translate_visit_eq [of _ nd] mode_visitors_def)
    then show ?thesis using run by (simp add: valid_def)
  qed
  then show ?case by (auto simp: visiting_def)
qed (simp add: visiting_def)

lemma lab_inv_start: "scopes tabs = [] \<Longrightarrow> lab_inv {} (trans_start tabs)"
  by (simp add: lab_inv_def trans_start_def tabs_ok_def defs_def)

lemma label_at_defs: "label_at buf i l \<Longrightarrow> l \<in> set (defs buf)"
  by (force simp: label_at_def is_label_def defs_def)

lemma defs_label_at: "l \<in> set (defs buf) \<Longrightarrow> \<forall>ir \<in> set buf. ir_type ir = IR_LABEL \<longrightarrow> ir_rs ir \<noteq> None \<Longrightarrow> \<exists>i. label_at buf i l"
  by (force simp: label_at_def is_label_def defs_def in_set_conv_nth)

lemma defs_split: "label_at buf i l \<Longrightarrow> defs buf = defs (take i buf) @ l # defs (drop (Suc i) buf)"
  by (subst id_take_nth_drop [of i buf]) (auto simp: label_at_def is_label_def defs_def)

lemma defs_less:
  assumes "distinct (defs buf)" and "label_at buf i l" and "label_at buf j l"
  shows "\<not> i < j"
proof
  assume "i < j"
  with assms(2,3) have "label_at (take j buf) i l" by (simp add: label_at_def)
  then have "l \<in> set (defs (take j buf))" by (rule label_at_defs)
  with assms(1) defs_split [OF assms(3)] show False by simp
qed

lemma lab_inv_wf:
  assumes "lab_inv {} st"
  shows "ir_wf st"
proof -
  let ?buf = "instr_buffer st"
  have instr: "instr_ok {} st (?buf ! i)" if "i < length ?buf" for i
    using assms that by (simp add: lab_inv_def)
  have lab: "\<forall>ir \<in> set ?buf. ir_type ir = IR_LABEL \<longrightarrow> ir_rs ir \<noteq> None"
    using assms by (auto simp: lab_inv_def instr_ok_def)
  have "distinct (defs ?buf)" using assms by (simp add: lab_inv_def)
  then have "i = j" if "label_at ?buf i l" "label_at ?buf j l" for i j l
    using defs_less that by (meson linorder_neqE_nat)
  moreover have "\<exists>l j. jump_target (?buf ! i) = Some l \<and> label_at ?buf j l" if "i < length ?buf" "can_jump (?buf ! i)" for i
    using instr [OF that(1)] that(2) defs_label_at [OF _ lab] unfolding instr_ok_def by fastforce
  moreover have "Some p \<notin> set (data_operands (?buf ! i))" if "i < length ?buf" "p \<in> label_opes st" for i p
    using instr [OF that(1)] that(2) unfolding instr_ok_def ok_def good_def by fastforce
  moreover have "\<exists>l \<in> label_opes st. ir_rs (?buf ! i) = Some l" if "i < length ?buf" "ir_type (?buf ! i) = IR_LABEL" for i
    using instr [OF that(1)] that(2) by (simp add: instr_ok_def)
  ultimately have "prog_wf (label_opes st) ?buf" unfolding prog_wf_def by blast
  with assms show ?thesis by (auto simp: ir_wf_def lab_inv_def)
qed

lemma translate_dispatcher_wf:
  assumes "clean nd" and "scopes tabs = []" and "translate_dispatcher nd (trans_start tabs) = Some (nd', st)"
  shows "ir_wf st"
proof -
  have "visiting translate_visit {(Dispatch, nd)}"
    by (rule visiting_mono [OF translate_visiting [of "Suc (rank Dispatch nd)"]]) simp
  moreover have "pre {} (trans_start tabs) Dispatch nd" using assms(1) by (simp add: pre_def clean_iff ok_def)
  ultimately have "lab_inv {} st"
    using lab_inv_start [OF assms(2)] assms(3) unfolding visiting_def translate_dispatcher_def by blast
  then show ?thesis by (rule lab_inv_wf)
qed

end
