(* ===== verification/Pipeline.thy ===== *)
theory Pipeline
  imports Labels Scoping
begin

text \<open>
  The passes together: what the analysis hands to the translation, what the translation hands to
  the back end, and what the programs of the grammar can rely on.
\<close>

section \<open>The analysis leaves no operand behind\<close>

definition clean_scopes :: "sema_state \<Rightarrow> bool" where
  "clean_scopes st \<longleftrightarrow> (\<forall>tab \<in> set (scopes st). clean_tab tab)"

lemma clean_scopes_fields [simp]:
  "clean_scopes (st\<lparr>offset := n\<rparr>) = clean_scopes st" "clean_scopes (st\<lparr>is_in_struct := b\<rparr>) = clean_scopes st"
  "clean_scopes (st\<lparr>next_type := k\<rparr>) = clean_scopes st" "clean_scopes (SEMA_ERROR_MSG l m st) = clean_scopes st"
  "clean_scopes (error_if c l m st) = clean_scopes st" "clean_scopes (snd (new_type st)) = clean_scopes st"
  by (auto simp: clean_scopes_def SEMA_ERROR_MSG_def error_if_def new_type_def)

lemma address_set [simp]:
  "symbol_address (set_symbol_offset n s) = symbol_address s" "symbol_address (set_symbol_type t s) = symbol_address s"
  by (cases s; simp)+

lemma clean_tab_update:
  assumes "clean_tab tab" and "\<forall>s \<in> set chain. symbol_address s = None"
  shows "clean_tab (tab[i := chain])"
  using assms set_update_subset_insert by (fastforce simp: clean_tab_def)

lemma calloc_clean: "clean_tab calloc_symtab"
  by (simp add: clean_tab_def calloc_symtab_def)

lemma insert_sym_clean:
  assumes "insert_sym name t l tab = Some (p, tab')" and "clean_tab tab"
  shows "clean_tab tab'"
proof -
  let ?k = "unat (hash name)"
  from assms(1) have "?k < length tab" "tab' = tab \<or> tab' = tab[?k := tab ! ?k @ [Symbol name l t None 0]]"
    by (auto simp: insert_sym_def Let_def bind_Some_iff split: if_splits)
  moreover from this(1) assms(2) have "\<forall>s \<in> set (tab ! ?k @ [Symbol name l t None 0]). symbol_address s = None"
    by (auto simp: clean_tab_def)
  ultimately show ?thesis using assms(2) clean_tab_update by blast
qed

lemma update_at_clean:
  assumes "clean_tab tab" and f: "\<And>s. symbol_address (f s) = symbol_address s"
  shows "clean_tab (update_at p f tab)"
proof -
  obtain i j where [simp]: "p = (i, j)" by fastforce
  show ?thesis
  proof (cases "i < length tab \<and> j < length (tab ! i)")
    case True
    then have "tab ! i \<in> set tab" "tab ! i ! j \<in> set (tab ! i)" by simp_all
    with assms have "\<forall>s \<in> set ((tab ! i)[j := f (tab ! i ! j)]). symbol_address s = None"
      using set_update_subset_insert by (fastforce simp: clean_tab_def)
    with assms(1) show ?thesis by (simp add: update_at_def clean_tab_update)
  next
    case False
    then show ?thesis using assms(1) by (cases "i < length tab") (simp_all add: update_at_def not_less list_update_beyond)
  qed
qed

lemma insert_topI:
  assumes "clean_scopes s" and "\<And>p s'. clean_scopes s' \<Longrightarrow> Q (p, s')"
  shows "valid Q (insert_top name t l s)"
proof (rule valid_any)
  fix r
  assume "insert_top name t l s = Some r"
  then obtain tab ty p tab' where *: "scopes s \<noteq> []" "tab = last (scopes s)" "insert_sym name ty l tab = Some (p, tab')"
    "r = (p, s\<lparr>scopes := butlast (scopes s) @ [tab']\<rparr>)"
    by (auto simp: insert_top_def get_symtab_top_def bind_Some_iff split: if_splits)
  then have "clean_tab tab'" using insert_sym_clean assms(1) by (metis clean_scopes_def last_in_set)
  with assms(1) have "clean_scopes (s\<lparr>scopes := butlast (scopes s) @ [tab']\<rparr>)" by (auto simp: clean_scopes_def dest: in_set_butlastD)
  with assms(2) show "Q r" unfolding *(4) .
qed

lemma declare_symbolI:
  assumes "clean_scopes s" and "\<And>s'. clean_scopes s' \<Longrightarrow> Q s'"
  shows "valid Q (declare_symbol name t l s)"
  unfolding declare_symbol_def
  apply (insert assms(1), (rule valid_rules insert_topI assms(2) valid_any | assumption)+)
  by (auto simp: clean_scopes_def get_symtab_top_def dest: in_set_butlastD split: if_splits
      intro!: update_at_clean)

lemma new_symtabI:
  "clean_scopes s \<Longrightarrow> (\<And>s'. clean_scopes s' \<Longrightarrow> Q s') \<Longrightarrow> valid Q (new_symtab s)"
  by (auto simp: valid_def new_symtab_def push_symtab_def Let_def clean_scopes_def calloc_clean split: if_splits)

lemma pop_symtabI:
  assumes "clean_scopes s" and "\<And>t s'. clean_scopes s' \<Longrightarrow> \<forall>tab. t = Some tab \<longrightarrow> clean_tab tab \<Longrightarrow> valid Q (f t s')"
  shows "valid Q (case pop_symtab s of (t, s') \<Rightarrow> f t s')"
proof -
  have "clean_scopes (snd (pop_symtab s))" "\<forall>tab. fst (pop_symtab s) = Some tab \<longrightarrow> clean_tab tab"
    using assms(1) by (auto simp: pop_symtab_def clean_scopes_def dest: in_set_butlastD)
  with assms(2) show ?thesis by (simp add: split_def)
qed

lemma new_typeI:
  "clean_scopes s \<Longrightarrow> (\<And>a s'. clean_scopes s' \<Longrightarrow> valid Q (f a s')) \<Longrightarrow> valid Q (case new_type s of (a, s') \<Rightarrow> f a s')"
  by (auto simp: new_type_def)

lemma set_param_clean: "clean_scopes s \<Longrightarrow> clean_scopes (set_param addr ps s)"
  by (auto simp: clean_scopes_def set_param_def Let_def clean_tab_def split: Type.split)


text \<open>The trees.\<close>

lemma clean_parts:
  "clean nd \<Longrightarrow> \<forall>c \<in> set (nd_child nd). clean c" "clean nd \<Longrightarrow> sema_symtab (nd_sema nd) = Some tab \<Longrightarrow> clean_tab tab"
  "clean nd \<Longrightarrow> child k nd = Some c \<Longrightarrow> clean c"
  by (cases nd; auto simp: child_def split: if_splits)+

lemma clean_upd_sema:
  assumes "clean nd" and "\<And>tab. sema_symtab (f (nd_sema nd)) = Some tab \<Longrightarrow> clean_tab tab"
  shows "clean (upd_sema f nd)"
  using assms by (cases nd) auto

lemma clean_sema_fields [simp]:
  "clean (upd_sema (sema_type_update g) nd) = clean nd"
  "clean (upd_sema (\<lambda>a. a\<lparr>sema_name := n, sema_lineno := l\<rparr>) nd) = clean nd"
  by (cases nd; simp)+

lemma clean_set_child:
  assumes "clean nd" and "nd_tag nd \<noteq> STMT_is_FOR" and "\<forall>c \<in> set cs. clean c"
  shows "clean (set_child cs nd)"
  using assms by (cases nd) auto

lemma clean_put_child:
  assumes "clean nd" and "clean c" and "nd_tag nd = STMT_is_FOR \<longrightarrow> k < 3 \<or> \<not> is_logic (nd_tag c)"
  shows "clean (put_child k c nd)"
proof (cases nd)
  case (Node t l v s a cs)
  have "\<forall>c \<in> set (cs[k := c]). clean c" using assms Node set_update_subset_insert by fastforce
  moreover have "\<not> is_logic (nd_tag b)" if "t = STMT_is_FOR" "b \<in> set (drop 3 (cs[k := c]))" for b
  proof (cases "k < 3")
    case True
    with that assms(1) Node show ?thesis by (simp add: drop_update_cancel)
  next
    case False
    then have "drop 3 (cs[k := c]) = (drop 3 cs)[k - 3 := c]" by (simp add: drop_update_swap)
    with that assms False Node show ?thesis using set_update_subset_insert by fastforce
  qed
  ultimately show ?thesis using assms(1) Node by (auto simp: put_child_def)
qed

definition cleaning :: "sema_visitor \<Rightarrow> Node set \<Rightarrow> bool" where
  "cleaning visit A \<longleftrightarrow> (\<forall>nd \<in> A. \<forall>st nd' st'. clean nd \<longrightarrow> clean_scopes st \<longrightarrow> visit nd st = Some (nd', st') \<longrightarrow>
     clean nd' \<and> clean_scopes st' \<and> nd_tag nd' = nd_tag nd)"

lemma cleaning_visitI:
  "cleaning visit A \<Longrightarrow> c \<in> A \<Longrightarrow> clean c \<Longrightarrow> clean_scopes s \<Longrightarrow>
     (\<And>c' s'. clean c' \<Longrightarrow> clean_scopes s' \<Longrightarrow> nd_tag c' = nd_tag c \<Longrightarrow> Q (c', s')) \<Longrightarrow> valid Q (visit c s)"
  unfolding valid_def cleaning_def by auto

lemma cleaning_allI:
  assumes "cleaning visit A" and "\<forall>c \<in> set cs. c \<in> A \<and> clean c" and "clean_scopes s"
    and "\<And>cs' s'. \<forall>c \<in> set cs'. clean c \<Longrightarrow> clean_scopes s' \<Longrightarrow> Q (cs', s')"
  shows "valid Q (visit_all visit cs s)"
  using assms(2-)
proof (induction cs arbitrary: s Q)
  case (Cons c cs)
  show ?case
    unfolding visit_all.simps
    by (rule valid_bind, rule cleaning_visitI [OF assms(1)]; (simp only: prod.case)?; (rule valid_bind, rule Cons.IH)?)
       (use Cons.prems in \<open>auto\<close>)
qed simp

lemma cleaning_argsI:
  assumes "cleaning visit A" and "\<forall>c \<in> set cs. c \<in> A \<and> clean c" and "clean_scopes s"
    and "\<And>cs' s'. \<forall>c \<in> set cs'. clean c \<Longrightarrow> clean_scopes s' \<Longrightarrow> Q (cs', s')"
  shows "valid Q (check_param_list visit ps cs l s)"
  using assms(2-)
proof (induction ps arbitrary: cs s Q)
  case Nil
  then show ?case by (cases cs) auto
next
  case (Cons param ps)
  show ?case
  proof (cases cs)
    case (Cons c rest)
    show ?thesis
      unfolding Cons check_param_list.simps Let_def
      by (rule valid_rules cleaning_visitI [OF assms(1)] Cons.IH valid_any; (use Cons.prems Cons in \<open>auto\<close>)?)+
  qed (use Cons.prems in \<open>auto\<close>)
qed

lemma cleaning_paramsI:
  assumes "cleaning visit A" and "\<forall>c \<in> set cs. c \<in> A \<and> clean c" and "clean_scopes s"
    and "\<And>ps cs' s'. \<forall>c \<in> set cs'. clean c \<Longrightarrow> clean_scopes s' \<Longrightarrow> Q (ps, cs', s')"
  shows "valid Q (get_params visit cs s)"
  using assms(2-)
proof (induction cs arbitrary: s Q)
  case (Cons c cs)
  show ?case
    unfolding get_params.simps
    by (rule valid_rules cleaning_visitI [OF assms(1)] Cons.IH valid_any; (use Cons.prems in \<open>auto\<close>)?)+
qed simp

definition smaller :: "Node \<Rightarrow> Node set" where
  "smaller nd = {c. size c < size nd}"

abbreviation cleaned :: "Node \<Rightarrow> Node \<times> sema_state \<Rightarrow> bool" where
  "cleaned nd \<equiv> \<lambda>(nd', st'). clean nd' \<and> clean_scopes st' \<and> nd_tag nd' = nd_tag nd"

lemma clean_childI:
  "clean nd \<Longrightarrow> (\<And>c. clean c \<Longrightarrow> c \<in> smaller nd \<Longrightarrow> child k nd = Some c \<Longrightarrow> Q c) \<Longrightarrow> valid Q (child k nd)"
  by (auto simp: valid_def smaller_def size_child clean_parts(3))

lemma smaller_upd [simp]: "upd_sema f c \<in> smaller nd \<longleftrightarrow> c \<in> smaller nd"
  by (simp add: smaller_def)

lemma cleaningI:
  "(\<And>nd st. nd \<in> A \<Longrightarrow> clean nd \<Longrightarrow> clean_scopes st \<Longrightarrow> valid (cleaned nd) (visit nd st)) \<Longrightarrow> cleaning visit A"
  by (fastforce simp: cleaning_def valid_def)

lemma cleaning_typed:
  assumes "cleaning visit (smaller nd)"
  shows "cleaning (\<lambda>c. visit (set_type t c)) (smaller nd)"
  by (rule cleaningI, rule cleaning_visitI [OF assms]) simp_all

lemma cleaning_extdec:
  assumes "cleaning visit (smaller nd)"
  shows "cleaning (extdec_vardec visit t) (smaller nd)"
proof (rule cleaningI)
  fix c st
  assume "c \<in> smaller nd" "clean c" "clean_scopes st"
  then show "valid (cleaned c) (extdec_vardec visit t c st)"
    unfolding extdec_vardec_def Let_def
    by - (rule valid_rules cleaning_visitI [OF assms] declare_symbolI | assumption | (simp; fail))+
qed

lemma children_smaller:
  "clean nd \<Longrightarrow> \<forall>c \<in> set (nd_child nd). c \<in> smaller nd \<and> clean c"
  "clean nd \<Longrightarrow> \<forall>c \<in> set (tl (nd_child nd)). c \<in> smaller nd \<and> clean c"
  "clean nd \<Longrightarrow> \<forall>c \<in> set (drop k (nd_child nd)). c \<in> smaller nd \<and> clean c"
  using clean_parts(1) by (auto simp: smaller_def size_in_child dest: in_set_dropD) (metis list.set_sel(2) size_in_child tl_Nil)+

lemma register_structI:
  assumes "clean_scopes s" and "\<And>s'. clean_scopes s' \<Longrightarrow> Q s'"
  shows "valid Q (register_struct name this l s)"
  unfolding register_struct_def Let_def
  by (insert assms(1), (rule valid_pair valid_rules insert_topI new_typeI assms(2) valid_any | assumption | (simp; fail))+)

lemma predefineI:
  assumes "\<And>s'. clean_scopes s' \<Longrightarrow> Q s'"
  shows "valid Q (predefine s)"
proof -
  have "clean_scopes (init_symtab s)" by (simp add: clean_scopes_def init_symtab_def)
  then show ?thesis
    unfolding predefine_def Let_def
    by - (rule valid_pair new_typeI valid_rules new_symtabI insert_topI assms valid_any | assumption)+
qed

lemma initialization_clean:
  assumes V: "cleaning visit (smaller nd)" and c: "clean nd" "clean_scopes st" and t: "nd_tag nd = DEC_is_VARDEC_INITIALIZATION"
  shows "valid (cleaned nd) (dec_is_vardec_initialization visit nd st)"
proof -
  have 1: "valid Q (child 1 nd')" if "child 1 nd' = child 1 nd" "\<And>c. clean c \<Longrightarrow> c \<in> smaller nd \<Longrightarrow> Q c" for Q nd'
    unfolding that(1) by (rule clean_childI [OF c(1)]) (rule that(2))
  show ?thesis
    unfolding dec_is_vardec_initialization_def dec_is_vardec_def Let_def Option.bind_assoc
    by (insert c t, (rule valid_pair 1 valid_rules cleaning_visitI [OF V] clean_childI declare_symbolI valid_any | assumption
      | (auto simp: child_put_child intro!: clean_upd_sema clean_put_child dest: clean_parts(2); fail))+)
qed

lemma clean_take: "clean nd \<Longrightarrow> \<forall>c \<in> set (take k (nd_child nd)). clean c"
  using clean_parts(1) by (auto dest: in_set_takeD)

lemma decl_clean:
  assumes V: "cleaning visit (smaller nd)" and c: "clean nd" "clean_scopes st" and t: "nd_tag nd \<noteq> STMT_is_FOR"
  shows "valid (cleaned nd) (vardec_is_id visit nd st)"
    "valid (cleaned nd) (vardec_is_vardec_size visit nd st)"
    "valid (cleaned nd) (dec_is_vardec visit nd st)"
    "valid (cleaned nd) (def_is_spec_dec visit nd st)"
    "valid (cleaned nd) (struct_is_id visit nd st)"
    "valid (cleaned nd) (struct_is_id_def visit nd st)"
    "valid (cleaned nd) (spec_is_type visit nd st)"
    "valid (cleaned nd) (spec_is_struct visit nd st)"
    "valid (cleaned nd) (var_is_spec_vardec visit nd st)"
    "valid (cleaned nd) (func_is_id_var visit nd st)"
    "valid (cleaned nd) (extdec_is_vardec visit nd st)"
    "valid (cleaned nd) (extdef_is_spec_extdec visit nd st)"
    "valid (cleaned nd) (extdef_is_spec visit nd st)"
    "valid (cleaned nd) (extdef_is_spec_func_compst visit nd st)"
    "valid (cleaned nd) (prog_is_extdef visit nd st)"
proof -
  note sets = cleaning_allI [OF V] cleaning_allI [OF cleaning_typed [OF V]] cleaning_allI [OF cleaning_extdec [OF V]]
    cleaning_argsI [OF V] cleaning_paramsI [OF V]
  note rules = valid_pair pop_symtabI new_typeI register_structI predefineI valid_rules cleaning_visitI [OF V] clean_childI declare_symbolI
    insert_topI new_symtabI sets valid_any
  show "valid (cleaned nd) (vardec_is_id visit nd st)"
    "valid (cleaned nd) (vardec_is_vardec_size visit nd st)"
    "valid (cleaned nd) (dec_is_vardec visit nd st)"
    "valid (cleaned nd) (def_is_spec_dec visit nd st)"
    "valid (cleaned nd) (struct_is_id visit nd st)"
    "valid (cleaned nd) (struct_is_id_def visit nd st)"
    "valid (cleaned nd) (spec_is_type visit nd st)"
    "valid (cleaned nd) (spec_is_struct visit nd st)"
    "valid (cleaned nd) (var_is_spec_vardec visit nd st)"
    "valid (cleaned nd) (func_is_id_var visit nd st)"
    "valid (cleaned nd) (extdec_is_vardec visit nd st)"
    "valid (cleaned nd) (extdef_is_spec_extdec visit nd st)"
    "valid (cleaned nd) (extdef_is_spec visit nd st)"
    "valid (cleaned nd) (extdef_is_spec_func_compst visit nd st)"
    "valid (cleaned nd) (prog_is_extdef visit nd st)"
    unfolding vardec_is_id_def vardec_is_vardec_size_def dec_is_vardec_def def_is_spec_dec_def struct_is_id_def struct_is_id_def_def spec_is_type_def spec_is_struct_def var_is_spec_vardec_def func_is_id_var_def extdec_is_vardec_def extdef_is_spec_extdec_def extdef_is_spec_def extdef_is_spec_func_compst_def prog_is_extdef_def Let_def
    by (insert c t, (rule rules | assumption
      | (auto simp: children_smaller [OF c(1)] clean_take [OF c(1)] set_param_clean intro!: clean_upd_sema clean_put_child clean_set_child
          dest: clean_parts(2) split: option.splits if_splits; fail))+)
qed

lemma exp_clean:
  assumes V: "cleaning visit (smaller nd)" and c: "clean nd" "clean_scopes st" and t: "nd_tag nd \<noteq> STMT_is_FOR"
  shows "valid (cleaned nd) (exp_is_unary visit nd st)"
    "valid (cleaned nd) (exp_is_binary visit nd st)"
    "valid (cleaned nd) (exp_is_assign visit nd st)"
    "valid (cleaned nd) (exp_is_exp_idx visit nd st)"
    "valid (cleaned nd) (exp_is_id_arg visit nd st)"
    "valid (cleaned nd) (exp_is_exp_field visit nd st)"
    "valid (cleaned nd) (exp_is_id visit nd st)"
    "valid (cleaned nd) (exp_is_int visit nd st)"
    "valid (cleaned nd) (exp_is_float visit nd st)"
proof -
  note sets = cleaning_allI [OF V] cleaning_allI [OF cleaning_typed [OF V]] cleaning_allI [OF cleaning_extdec [OF V]]
    cleaning_argsI [OF V] cleaning_paramsI [OF V]
  note rules = valid_pair pop_symtabI new_typeI register_structI predefineI valid_rules cleaning_visitI [OF V] clean_childI declare_symbolI
    insert_topI new_symtabI sets valid_any
  show "valid (cleaned nd) (exp_is_unary visit nd st)"
    "valid (cleaned nd) (exp_is_binary visit nd st)"
    "valid (cleaned nd) (exp_is_assign visit nd st)"
    "valid (cleaned nd) (exp_is_exp_idx visit nd st)"
    "valid (cleaned nd) (exp_is_id_arg visit nd st)"
    "valid (cleaned nd) (exp_is_exp_field visit nd st)"
    "valid (cleaned nd) (exp_is_id visit nd st)"
    "valid (cleaned nd) (exp_is_int visit nd st)"
    "valid (cleaned nd) (exp_is_float visit nd st)"
    unfolding exp_is_unary_def exp_is_binary_def exp_is_assign_def exp_is_exp_idx_def exp_is_id_arg_def exp_is_exp_field_def exp_is_id_def exp_is_int_def exp_is_float_def Let_def
    by (insert c t, (rule rules | assumption
      | (auto simp: children_smaller [OF c(1)] clean_take [OF c(1)] set_param_clean intro!: clean_upd_sema clean_put_child clean_set_child
          dest: clean_parts(2) split: option.splits if_splits; fail))+)
qed

lemma stmt_clean:
  assumes V: "cleaning visit (smaller nd)" and c: "clean nd" "clean_scopes st" and t: "nd_tag nd \<noteq> STMT_is_FOR"
  shows "valid (cleaned nd) (stmt_is_return visit nd st)"
    "valid (cleaned nd) (stmt_is_while visit nd st)"
    "valid (cleaned nd) (stmt_is_if visit nd st)"
    "valid (cleaned nd) (stmt_is_if_else visit nd st)"
    "valid (cleaned nd) (stmt_is_exp visit nd st)"
    "valid (cleaned nd) (stmt_is_compst visit nd st)"
    "valid (cleaned nd) (compst_is_def_stmt visit nd st)"
proof -
  note sets = cleaning_allI [OF V] cleaning_allI [OF cleaning_typed [OF V]] cleaning_allI [OF cleaning_extdec [OF V]]
    cleaning_argsI [OF V] cleaning_paramsI [OF V]
  note rules = valid_pair pop_symtabI new_typeI register_structI predefineI valid_rules cleaning_visitI [OF V] clean_childI declare_symbolI
    insert_topI new_symtabI sets valid_any
  show "valid (cleaned nd) (stmt_is_return visit nd st)"
    "valid (cleaned nd) (stmt_is_while visit nd st)"
    "valid (cleaned nd) (stmt_is_if visit nd st)"
    "valid (cleaned nd) (stmt_is_if_else visit nd st)"
    "valid (cleaned nd) (stmt_is_exp visit nd st)"
    "valid (cleaned nd) (stmt_is_compst visit nd st)"
    "valid (cleaned nd) (compst_is_def_stmt visit nd st)"
    unfolding stmt_is_return_def stmt_is_while_def stmt_is_if_def stmt_is_if_else_def stmt_is_exp_def stmt_is_compst_def compst_is_def_stmt_def Let_def
    by (insert c t, (rule rules | assumption
      | (auto simp: children_smaller [OF c(1)] clean_take [OF c(1)] set_param_clean intro!: clean_upd_sema clean_put_child clean_set_child
          dest: clean_parts(2) split: option.splits if_splits; fail))+)
qed

lemma for_clean:
  assumes V: "cleaning visit (smaller nd)" and c: "clean nd" "clean_scopes st" and t: "nd_tag nd = STMT_is_FOR"
  shows "valid (cleaned nd) (stmt_is_for visit nd st)"
proof -
  have body: "\<not> is_logic (nd_tag b)" if "child 3 nd = Some b" for b
    using for_body [OF _ t that] c(1) by (simp add: clean_iff)
  show ?thesis
    unfolding stmt_is_for_def Let_def
    by (insert c t, (rule valid_pair valid_rules cleaning_visitI [OF V] clean_childI valid_any | assumption
      | (auto simp: body intro!: clean_put_child; fail))+)
qed

lemma visitors_clean:
  assumes V: "cleaning visit (smaller nd)" and c: "clean nd" "clean_scopes st"
  shows "valid (cleaned nd) (sema_visitors (nd_tag nd) visit nd st)"
proof (cases "nd_tag nd = STMT_is_FOR")
  case True
  then show ?thesis using for_clean [OF V c True] by simp
next
  case False
  note facts = decl_clean [OF V c False] exp_clean [OF V c False] stmt_clean [OF V c False] initialization_clean [OF V c]
  show ?thesis using facts False by (cases "nd_tag nd") (simp_all only: sema_visitors.simps valid_None simp_thms)
qed

lemma sema_visit_clean: "clean nd \<Longrightarrow> clean_scopes st \<Longrightarrow> valid (cleaned nd) (sema_visit nd st)"
proof (induction "size nd" arbitrary: nd st rule: less_induct)
  case less
  have "cleaning sema_visit (smaller nd)"
    by (rule cleaningI) (use less.hyps in \<open>simp add: smaller_def\<close>)
  with less.prems show ?case by (simp only: sema_visit_eq [of nd] visitors_clean)
qed

subsection \<open>The trees of the grammar\<close>

abbreviation clean_chain :: "Node list \<Rightarrow> bool" where
  "clean_chain nds \<equiv> \<forall>nd \<in> set nds. clean nd"

lemma no_attrs [simp]: "at_dst no_trans = None" "at_base no_trans = None" "sema_symtab no_sema = None"
  by (simp_all add: no_trans_def no_sema_def)

lemma clean_val: "clean (set_val v nd) = clean nd"
  by (cases nd) simp

lemma clean_exp: "clean_chain (act_exp e)"
  by (induction e rule: act_exp.induct) (auto simp: create_tree_def clean_val id_node_def int_node_def float_node_def)

lemma clean_vardec: "clean_chain (act_vardec v)"
  by (induction v) (auto simp: create_tree_def id_node_def int_node_def)

lemma clean_dec: "clean_chain (act_dec d)"
  using clean_vardec clean_exp by (auto simp: act_dec_def create_tree_def Let_def split: option.splits)

lemma clean_spec: "clean_chain (act_spec sp)" and clean_def: "clean_chain (act_def d)"
  by (induction sp and d rule: act_spec_act_def.induct) (auto simp: create_tree_def clean_dec id_node_def)

lemma act_exp_single: "\<exists>nd. act_exp e = [nd]"
  by (induction e rule: act_exp.induct) (auto simp: create_tree_def)

lemma stmt_no_logic: "\<forall>nd \<in> set (act_stmt s). \<not> is_logic (nd_tag nd)"
  by (cases s) (simp_all add: create_tree_def is_logic_def)

lemma clean_stmt: "clean_chain (act_stmt s)"
proof (induction s rule: act_stmt.induct)
  case (7 l a b c s)
  obtain x y z where "act_exp a = [x]" "act_exp b = [y]" "act_exp c = [z]" using act_exp_single by metis
  moreover have "clean x" "clean y" "clean z" using clean_exp calculation by (metis list.set_intros(1))+
  ultimately show ?case using 7 stmt_no_logic [of s] by (simp add: create_tree_def numeral_3_eq_3)
qed (auto simp: create_tree_def clean_exp clean_def)

lemma clean_extdecs: "clean_chain (act_extdecs vs)"
  by (induction vs rule: act_extdecs.induct) (auto simp: create_tree_def clean_vardec)

lemma clean_extdef: "clean_chain (act_extdef d)"
  by (cases d) (auto simp: create_tree_def clean_spec clean_extdecs clean_def clean_stmt clean_vardec act_param_def id_node_def)

lemma clean_program:
  assumes "act_program ds = Some prog"
  shows "clean prog"
proof -
  from assms obtain l where "prog = Node PROG_is_EXTDEF l Val_none no_sema no_trans (concat (map act_extdef ds))"
    by (auto simp: act_program_def create_tree_def split: list.splits)
  then show ?thesis using clean_extdef by auto
qed

lemma analyze_program_clean:
  assumes "act_program ds = Some prog" and "analyze_program prog st = Some (prog', st')" and "clean_scopes st"
  shows "clean prog'"
  using sema_visit_clean [OF clean_program [OF assms(1)] assms(3)] assms(2) by (simp add: analyze_program_def valid_def)

section \<open>From the grammar to well-formed intermediate code\<close>

lemma translate_program_wf:
  assumes "act_program ds = Some prog" and "analyze_program prog sema_start = Some (prog', s)"
    and "translate_dispatcher prog' (trans_start (symtab_state.truncate s)) = Some (nd, st)"
  shows "ir_wf st"
proof (rule translate_dispatcher_wf [OF _ _ assms(3)])
  have "clean_scopes sema_start" "log_ok sema_start" by (simp_all add: clean_scopes_def sema_start_def log_ok_def)
  then show "clean prog'" "scopes (symtab_state.truncate s) = []"
    using analyze_program_clean [OF assms(1,2)] analyze_program_stack [OF assms(1) _ assms(2)]
    by (simp_all add: symtab_state.truncate_def)
qed

definition demo_if :: "ExtDef_p list" where
  "demo_if =
     [Ext_func_p (Type_p (1, ''int'')) (1, ''main'') [] 1 []
       [If_p 2 (Relop_p 2 ''>'' (Int_p (2, 1)) (Int_p (2, 0))) (Return_p 3 (Int_p (3, 1)))]]"

lemma demo_if_runs:
  "\<exists>prog prog' s nd st. act_program demo_if = Some prog \<and> analyze_program prog sema_start = Some (prog', s) \<and>
     translate_dispatcher prog' (trans_start (symtab_state.truncate s)) = Some (nd, st)"
proof -
  have "case act_program demo_if of None \<Rightarrow> False | Some prog \<Rightarrow>
      (case analyze_program prog sema_start of None \<Rightarrow> False
       | Some (prog', s) \<Rightarrow> translate_dispatcher prog' (trans_start (symtab_state.truncate s)) \<noteq> None)"
    by code_simp
  then show ?thesis by (auto split: option.splits prod.splits)
qed

section \<open>Properties\<close>

text \<open>
  C1: the translation of every program of the grammar that the analysis lets through produces a
  well-formed buffer: every label is placed once, every jump has its label in the buffer, no label
  operand is used as data, and no label has been counted yet.
\<close>

theorem translate_program_labels:
  assumes "act_program ds = Some prog" and "analyze_program prog sema_start = Some (prog', s)"
    and "translate_dispatcher prog' (trans_start (symtab_state.truncate s)) = Some (nd, st)"
  shows "ir_wf st"
  using assms by (rule translate_program_wf)

theorem translate_program_labels_witness:
  "\<exists>prog prog' s nd st. act_program demo_if = Some prog \<and> analyze_program prog sema_start = Some (prog', s) \<and>
     translate_dispatcher prog' (trans_start (symtab_state.truncate s)) = Some (nd, st) \<and> ir_wf st"
  using demo_if_runs translate_program_labels by blast

text \<open>
  C2: the front end and \<open>preprocess_ir\<close> together: for every program of the grammar whose
  translation ends, the peephole pass returns, and from every function and every data state its
  code goes through the same data states as the code the translation produced.
\<close>

theorem translate_preprocess:
  assumes "act_program ds = Some prog" and "analyze_program prog sema_start = Some (prog', s)"
    and "translate_dispatcher prog' (trans_start (symtab_state.truncate s)) = Some (nd, st)"
  shows "\<exists>st'. preprocess_ir st = Some st' \<and>
    (\<forall>f pc. func_pos (ope_names (opes st)) (instr_buffer st) f = Some pc \<longrightarrow>
      (\<exists>pc'. func_pos (ope_names (opes st')) (instr_buffer st') f = Some pc' \<and>
        (\<forall>d. same_behaviour (ir_exec (opes st) (instr_buffer st)) (instr_buffer st) (pc, [], d)
          (ir_exec (opes st') (instr_buffer st')) (instr_buffer st') (pc', [], d))))"
  by (rule preprocess_ir_behaviour [OF translate_program_wf [OF assms]])

theorem translate_preprocess_witness:
  "\<exists>prog prog' s nd st st'. act_program demo_if = Some prog \<and> analyze_program prog sema_start = Some (prog', s) \<and>
     translate_dispatcher prog' (trans_start (symtab_state.truncate s)) = Some (nd, st) \<and> preprocess_ir st = Some st'"
proof -
  from demo_if_runs obtain prog prog' s nd st where
    *: "act_program demo_if = Some prog" "analyze_program prog sema_start = Some (prog', s)"
      "translate_dispatcher prog' (trans_start (symtab_state.truncate s)) = Some (nd, st)"
    by blast
  with translate_preprocess [OF *] show ?thesis by blast
qed

end
