(* ===== verification/Spec2Isabelle.thy ===== *)
theory Spec2Isabelle
  imports Strtab Frame Liveness Cfg Scoping Typing Lexer Pipeline
begin

text \<open>
  A verification development for the compiler \<open>naivecc\<close>, which reads a C-like language and
  writes MIPS assembly. The C sources are under \<open>src/\<close>; every definition keeps the name of
  the function, type or table it translates.

  \<^bold>\<open>The program and the theories.\<close> \<open>main.c\<close> runs the passes in the order below. A pass is a
  group of definitions that take and return the globals it works on.

  \<^item> \<open>Prelude\<close>: the C \<open>int\<close> as \<open>cint\<close> (32 bit, checked arithmetic: overflow is undefined), array
    reads and writes that fail out of bounds, \<open>assert\<close>, decimal output, and \<open>valid\<close>, the partial
    correctness of a computation that may fail, with its rules.
  \<^item> \<open>Strtab\<close> (\<open>cmm-strtab.c\<close>, \<open>lib.c\<close>): the interned strings of the lexer; a pointer is a position
    in a heap of strings. The locale \<open>interner\<close> is what the lexer relies on.
  \<^item> \<open>Lexer\<close> (\<open>lexical.l\<close>): patterns as regular expressions with derivatives, longest match and
    first rule, start conditions, actions and the helper functions; the token stream with the
    nodes the actions build and the messages they write.
  \<^item> \<open>Ast\<close> (\<open>node.h\<close>, \<open>node.c\<close>, \<open>ast.c\<close>, the actions of \<open>syntax.y\<close>): the tree \<open>Node\<close> with its
    attributes, \<open>create_tree\<close>, \<open>free_node\<close>, and the tree each production builds from a derivation.
  \<^item> \<open>Types\<close>, \<open>Symtab\<close> (\<open>cmm-type.c\<close>, \<open>cmm-symtab.c\<close>): type descriptors with their addresses,
    comparison and printing; hash tables and the stack of scopes. The locale \<open>scope_stack\<close> is
    what the analysis and the translation rely on.
  \<^item> \<open>Semantic\<close> (\<open>semantic.c\<close>): one definition per visitor, the table \<open>sema_visitors\<close> and the
    dispatch \<open>sema_visit\<close>; the messages go to \<open>sema_log\<close>.
  \<^item> \<open>Binary32\<close>, \<open>Operand\<close>, \<open>IR\<close> (\<open>operand.c\<close>, \<open>ir.c\<close>, \<open>lib.h\<close>): operands in a heap of cells
    (None is a freed cell), the instruction buffer, printing, frame layout, the peephole pass
    \<open>preprocess_ir\<close> and the liveness annotation.
  \<^item> \<open>BasicBlock\<close> (\<open>basic-block.c\<close>): partition, control-flow graph and its dot output.
  \<^item> \<open>Register\<close>, \<open>Asm\<close> (\<open>register.c\<close>, \<open>asm.c\<close>): the register table, the allocator, one handler
    per instruction, and \<open>print_instr\<close>. Assembly is a list of structured lines with their text.
  \<^item> \<open>Translate\<close> (\<open>translate.c\<close>): one definition per visitor for statements, expressions and
    conditions, with the two dispatch tables; the recursion takes a mode for the two dispatchers.
  \<^item> \<open>Driver\<close> (\<open>main.c\<close>): the globals at program start, \<open>compile\<close> and \<open>main\<close>.

  \<^bold>\<open>Conventions.\<close> Undefined behaviour (null or out-of-bounds access, overflow, failed \<open>assert\<close>, use
  of a freed operand) is \<^const>\<open>None\<close>. The macros \<open>LOG\<close>, \<open>WARN\<close>, \<open>PANIC\<close> and \<open>TEST\<close> are empty, as in
  a build without \<open>DEBUG\<close>. Pointers are numbers into a heap, a null pointer is \<^const>\<open>None\<close>; a
  chain of siblings is a list. Visitors take the recursive call as an argument, and the lemmas
  \<open>sema_visit_eq\<close> and \<open>translate_visit_eq\<close> show that the recursion only descends, so that both
  dispatchers are total functions.

  \<^bold>\<open>What is proved.\<close>
  \<^item> \<open>Pipeline\<close>, \<open>Labels\<close>: the code of every program of the grammar is well formed (labels placed once,
    jumps resolved, labels never used as data), by an invariant over all visitors of the
    translation; with \<open>Preprocess\<close>, the peephole pass preserves its behaviour.
  \<^item> \<open>IRSem\<close>, \<open>Preprocess\<close>: an execution of the intermediate code, parametric in a data semantics
    (locale \<open>data_semantics\<close>, interpreted on integer programs), and the preservation of behaviour
    by the peephole pass through elementary rewritings.
  \<^item> \<open>Cfg\<close>, \<open>BasicBlock\<close>, \<open>Liveness\<close>, \<open>Frame\<close>: the blocks tile the program and the graph has every
    step that leaves a block; the annotations are those of a forward scan; frame slots are
    disjoint and inside the frame.
  \<^item> \<open>Typing\<close>, \<open>Scoping\<close>: the analysis accepts exactly the expressions the type rules derive; scopes
    are opened and closed in pairs and the error flag agrees with the messages.
  \<^item> \<open>Symtab\<close>, \<open>Strtab\<close>, \<open>Types\<close>, \<open>Operand\<close>: refinement of a table to a finite map and of the stack to
    nested scopes, interning, type comparison as an equivalence, unique names, buffer bounds,
    constant folding against the integers.
  \<^item> \<open>Lexer\<close>: totality, nested comments against a direct recursion, printing and reading tokens.
  \<^item> Several properties state what the code does where that is not what it means to do; each of
    them names the line in its text or in the findings of the manifest.

  \<^bold>\<open>Bounds.\<close> No fuel is used: every recursion is structural or has a measure (the size of a tree,
  the rest of a text, the rank of a node and a mode). \<open>MAX_LINE\<close> (4096 instructions) and the other
  array sizes are those of the sources, and running over them is undefined.

  \<^bold>\<open>Not modelled.\<close> The LALR automaton that bison generates is the parameter \<open>yyparse\<close> of \<open>main\<close>;
  what the actions build is modelled on derivation trees. \<open>test_cmm_type\<close> is a self test that is
  not part of the compiler. The debugging macros, file handles and \<open>perror\<close> are I/O; the message
  texts of the analysis are kept, the one on an unsupported program is not. \<open>BinaryOpType\<close> of
  \<open>ast.h\<close> is used nowhere. The runtime in \<open>predefine.S\<close> is assembly text that \<open>print_instr\<close>
  copies; it is the parameter \<open>predef\<close>.
\<close>

end
